(* ===== verification/Prelude.thy ===== *)
theory Prelude
  imports Main "HOL-Library.Word"
begin

text \<open>
  Shared vocabulary of the development: the machine types of the Rust code, the result type
  of fallible functions with the \<open>?\<close> operator, the saturating and checked additions of the
  standard library, and hash maps.

  A \<open>HashMap<K, V>\<close> is an association list whose keys are distinct (\<open>hwf\<close>). The position of
  an entry in the list stands for its place in the map's iteration order, which Rust leaves
  unspecified: every theorem is stated for an arbitrary list, so for any order.
\<close>

named_theorems hm_simps \<open>how each hash map operation acts on lookups, keys and sums\<close>
named_theorems res_simps \<open>unfolding of the result type's combinators\<close>

unbundle bit_operations_syntax

section \<open>Machine types\<close>

type_synonym byte = "8 word"
type_synonym bytes = "byte list"
type_synonym u64 = "64 word"
type_synonym usize = "64 word"

text \<open>\<open>Vec::len\<close>: a \<open>usize\<close>. Rust bounds the length of a \<open>Vec\<close> of bytes by \<open>isize::MAX\<close>.\<close>

definition vec_len :: "'a list \<Rightarrow> usize" where
  "vec_len xs = of_nat (length xs)"

definition vec_ok :: "'a list \<Rightarrow> bool" where
  "vec_ok xs \<longleftrightarrow> length xs < 2 ^ 63"

text \<open>A \<open>Vec\<close> of bytes that is asked for more than \<open>isize::MAX\<close> of them (\<open>with_capacity\<close>, \<open>resize\<close>,
  \<open>vec!\<close>) panics with a capacity overflow. Below that the memory is taken to suffice.\<close>

definition capacity_overflow :: "usize \<Rightarrow> bool" where
  "capacity_overflow n \<longleftrightarrow> 2 ^ 63 \<le> unat n"

definition saturating_add :: "u64 \<Rightarrow> u64 \<Rightarrow> u64" where
  "saturating_add a b = (if a + b < a then - 1 else a + b)"

definition saturating_sub :: "u64 \<Rightarrow> u64 \<Rightarrow> u64" where
  "saturating_sub a b = (if a < b then 0 else a - b)"

definition checked_add :: "usize \<Rightarrow> usize \<Rightarrow> usize option" where
  "checked_add a b = (if a + b < a then None else Some (a + b))"

text \<open>\<open>Vec::resize\<close> and the subslice \<open>v[a..b]\<close> for \<open>a \<le> b \<le> v.len()\<close>.\<close>

definition vec_resize :: "nat \<Rightarrow> 'a \<Rightarrow> 'a list \<Rightarrow> 'a list" where
  "vec_resize n x xs = take n xs @ replicate (n - length xs) x"

definition subslice :: "'a list \<Rightarrow> nat \<Rightarrow> nat \<Rightarrow> 'a list" where
  "subslice xs a b = take (b - a) (drop a xs)"

lemma subslice_append: "a \<le> b \<Longrightarrow> b \<le> c \<Longrightarrow> subslice xs a b @ subslice xs b c = subslice xs a c"
  using take_add [of "b - a" "c - b" "drop a xs"] by (simp add: subslice_def)

lemma subslice_all: "subslice xs 0 (length xs) = xs"
  by (simp add: subslice_def)

lemma length_subslice: "b \<le> length xs \<Longrightarrow> length (subslice xs a b) = b - a"
  by (simp add: subslice_def)

subsection \<open>Facts about words read as naturals\<close>

lemma unat_lt_2_64: "unat (x :: u64) < 2 ^ 64"
  using unsigned_less [of x] by simp

lemma unat_add_no_overflow:
  fixes a b :: u64
  assumes "unat a + unat b < 2 ^ 64"
  shows "unat (a + b) = unat a + unat b"
  using assms by (simp add: unat_word_ariths)

lemma unat_add_overflow:
  fixes a b :: u64
  assumes "2 ^ 64 \<le> unat a + unat b"
  shows "unat (a + b) < unat a"
proof -
  have "unat (a + b) = (unat a + unat b) mod 2 ^ 64" by (simp add: unat_word_ariths)
  also have "\<dots> = unat a + unat b - 2 ^ 64"
    using assms unat_lt_2_64 [of a] unat_lt_2_64 [of b] by (simp add: mod_if)
  finally show ?thesis using assms unat_lt_2_64 [of b] by linarith
qed

lemma unat_of_nat_u64: "n < 2 ^ 64 \<Longrightarrow> unat (of_nat n :: u64) = n"
  by (simp add: unat_of_nat take_bit_nat_eq_self)

lemma unat_max_u64: "unat (- 1 :: u64) = 2 ^ 64 - 1"
  by (simp add: unsigned_minus_1_eq_mask mask_eq_exp_minus_1)

lemma unat_vec_len: "vec_ok xs \<Longrightarrow> unat (vec_len xs) = length xs"
  by (simp add: vec_len_def vec_ok_def unat_of_nat_u64)

lemma unat_vec_len_lt: "length xs < 2 ^ 64 \<Longrightarrow> unat (vec_len xs) = length xs"
  by (simp add: vec_len_def unat_of_nat_u64)

lemma of_nat_minus_len: "b + length xs = a \<Longrightarrow> (of_nat a :: u64) - vec_len xs = of_nat b"
  by (auto simp: vec_len_def)

lemma unat_sub_no_underflow: "(b :: u64) \<le> a \<Longrightarrow> unat (a - b) = unat a - unat b"
  by (rule unat_sub)

lemma unat_saturating_add: "unat (saturating_add a b) = min (unat a + unat b) (2 ^ 64 - 1)"
proof (cases "unat a + unat b < 2 ^ 64")
  case True
  then have "unat (a + b) = unat a + unat b" by (rule unat_add_no_overflow)
  with True show ?thesis by (simp add: saturating_add_def word_less_nat_alt)
next
  case False
  then have "unat (a + b) < unat a" by (intro unat_add_overflow) simp
  with False show ?thesis by (simp add: saturating_add_def word_less_nat_alt unat_max_u64)
qed

lemma unat_saturating_sub: "unat (saturating_sub a b) = unat a - unat b"
  by (auto simp: saturating_sub_def word_less_nat_alt unat_sub word_le_nat_alt)

lemma checked_add_Some:
  "checked_add a b = Some c \<longleftrightarrow> unat a + unat b < 2 ^ 64 \<and> c = a + b"
proof (cases "unat a + unat b < 2 ^ 64")
  case True
  then have "unat (a + b) = unat a + unat b" by (rule unat_add_no_overflow)
  with True show ?thesis by (auto simp: checked_add_def word_less_nat_alt)
next
  case False
  then have "unat (a + b) < unat a" by (intro unat_add_overflow) simp
  with False show ?thesis by (simp add: checked_add_def word_less_nat_alt)
qed

lemma filter_notin [simp]: "x \<notin> set xs \<Longrightarrow> filter (\<lambda>y. y \<noteq> x) xs = xs"
  by (auto simp: filter_id_conv)

section \<open>Results and the question-mark operator\<close>

type_synonym ('a, 'e) result = "'e + 'a"

abbreviation Ok :: "'a \<Rightarrow> ('a, 'e) result" where "Ok \<equiv> Inr"
abbreviation Err :: "'e \<Rightarrow> ('a, 'e) result" where "Err \<equiv> Inl"

definition is_ok :: "('a, 'e) result \<Rightarrow> bool" where
  "is_ok r = (case r of Inl _ \<Rightarrow> False | Inr _ \<Rightarrow> True)"

definition ok_or :: "'e \<Rightarrow> 'a option \<Rightarrow> ('a, 'e) result" where
  "ok_or e x = (case x of None \<Rightarrow> Err e | Some a \<Rightarrow> Ok a)"

definition map_err :: "('e \<Rightarrow> 'f) \<Rightarrow> ('a, 'e) result \<Rightarrow> ('a, 'f) result" where
  "map_err f r = (case r of Inl e \<Rightarrow> Err (f e) | Inr a \<Rightarrow> Ok a)"

lemma is_ok_simps [simp, res_simps]: "is_ok (Ok a)" "\<not> is_ok (Err e)"
  by (simp_all add: is_ok_def)

lemma is_ok_iff: "is_ok r \<longleftrightarrow> (\<exists>a. r = Ok a)"
  by (cases r) simp_all

lemma ok_or_simps [simp, res_simps]: "ok_or e None = Err e" "ok_or e (Some a) = Ok a"
  by (simp_all add: ok_or_def)

lemma ok_or_Ok: "ok_or e x = Ok a \<longleftrightarrow> x = Some a"
  by (cases x) simp_all

lemma map_err_simps [simp, res_simps]: "map_err f (Err e) = Err (f e)" "map_err f (Ok a) = Ok a"
  by (simp_all add: map_err_def)

lemma map_err_Ok: "map_err f r = Ok a \<longleftrightarrow> r = Ok a"
  by (cases r) simp_all

section \<open>Hash maps\<close>

type_synonym ('k, 'v) hmap = "('k \<times> 'v) list"

definition hget :: "('k, 'v) hmap \<Rightarrow> 'k \<Rightarrow> 'v option" where
  "hget m k = map_of m k"

definition hcontains :: "('k, 'v) hmap \<Rightarrow> 'k \<Rightarrow> bool" where
  "hcontains m k = (hget m k \<noteq> None)"

definition hremove :: "'k \<Rightarrow> ('k, 'v) hmap \<Rightarrow> ('k, 'v) hmap" where
  "hremove k m = filter (\<lambda>e. fst e \<noteq> k) m"

definition hinsert :: "'k \<Rightarrow> 'v \<Rightarrow> ('k, 'v) hmap \<Rightarrow> ('k, 'v) hmap" where
  "hinsert k v m = (k, v) # hremove k m"

text \<open>\<open>get_mut\<close> followed by an assignment: the entry keeps its place.\<close>

definition hmodify :: "'k \<Rightarrow> ('v \<Rightarrow> 'v) \<Rightarrow> ('k, 'v) hmap \<Rightarrow> ('k, 'v) hmap" where
  "hmodify k f m = map (\<lambda>(k', v). (k', if k' = k then f v else v)) m"

definition hwf :: "('k, 'v) hmap \<Rightarrow> bool" where
  "hwf m = distinct (map fst m)"

definition hsum :: "('k \<Rightarrow> 'v \<Rightarrow> nat) \<Rightarrow> ('k, 'v) hmap \<Rightarrow> nat" where
  "hsum f m = (\<Sum>(k, v)\<leftarrow>m. f k v)"

lemma hget_Nil [simp, hm_simps]: "hget [] k = None"
  by (simp add: hget_def)

lemma hget_remove [simp, hm_simps]:
  "hget (hremove k m) k' = (if k' = k then None else hget m k')"
  by (induction m) (auto simp: hget_def hremove_def)

lemma hget_insert [simp, hm_simps]:
  "hget (hinsert k v m) k' = (if k' = k then Some v else hget m k')"
  using hget_remove [of k m k'] by (simp add: hinsert_def hget_def)

lemma hget_modify [simp, hm_simps]:
  "hget (hmodify k f m) k' = (if k' = k then map_option f (hget m k') else hget m k')"
  by (induction m) (auto simp: hget_def hmodify_def)

lemma hwf_Nil [simp, hm_simps]: "hwf []"
  by (simp add: hwf_def)

lemma hwf_remove [simp, hm_simps]: "hwf m \<Longrightarrow> hwf (hremove k m)"
  by (simp add: hwf_def hremove_def distinct_map inj_on_def)

lemma hwf_insert [simp, hm_simps]: "hwf m \<Longrightarrow> hwf (hinsert k v m)"
  using hwf_remove [of m k] by (auto simp: hinsert_def hwf_def hremove_def)

lemma hwf_modify [simp, hm_simps]: "hwf (hmodify k f m) \<longleftrightarrow> hwf m"
  by (simp add: hwf_def hmodify_def case_prod_beta comp_def)

lemma hget_Some_in: "hwf m \<Longrightarrow> (k, v) \<in> set m \<longleftrightarrow> hget m k = Some v"
  by (auto simp: hwf_def hget_def intro: map_of_is_SomeI map_of_SomeD)

lemma hget_None_keys: "hget m k = None \<longleftrightarrow> k \<notin> fst ` set m"
  by (simp add: hget_def map_of_eq_None_iff)

lemma hsum_Nil [simp, hm_simps]: "hsum f [] = 0"
  by (simp add: hsum_def)

lemma hremove_notin: "hget m k = None \<Longrightarrow> hremove k m = m"
  by (auto simp: hremove_def hget_None_keys filter_id_conv image_iff)

lemma hsum_remove:
  assumes "hwf m" and "hget m k = Some v"
  shows "hsum f m = f k v + hsum f (hremove k m)"
  using assms
proof (induction m)
  case (Cons e m)
  obtain k' v' where e: "e = (k', v')" by force
  show ?case
  proof (cases "k' = k")
    case True
    with Cons.prems e have "hget m k = None" and "v' = v"
      by (auto simp: hwf_def hget_def map_of_eq_None_iff)
    with True e show ?thesis
      using hremove_notin [of m k] by (simp add: hsum_def hremove_def)
  next
    case False
    with Cons e show ?thesis by (auto simp: hwf_def hget_def hsum_def hremove_def)
  qed
qed simp

lemma hsum_insert_fresh:
  "hget m k = None \<Longrightarrow> hsum f (hinsert k v m) = f k v + hsum f m"
  using hremove_notin [of m k] by (simp add: hinsert_def hsum_def)

lemma hsum_modify:
  assumes "hwf m" and "hget m k = Some v"
  shows "hsum f (hmodify k g m) + f k v = hsum f m + f k (g v)"
  using assms
proof (induction m)
  case (Cons e m)
  obtain k' v' where e: "e = (k', v')" by force
  show ?case
  proof (cases "k' = k")
    case True
    with Cons.prems e have "k \<notin> fst ` set m" and "v' = v"
      by (auto simp: hwf_def hget_def)
    moreover from this(1) have "hmodify k g m = m"
      by (induction m) (auto simp: hmodify_def)
    ultimately show ?thesis using True e by (simp add: hmodify_def hsum_def)
  next
    case False
    with Cons e show ?thesis by (auto simp: hwf_def hget_def hsum_def hmodify_def)
  qed
qed simp

lemma hsum_le: "hwf m \<Longrightarrow> hget m k = Some v \<Longrightarrow> f k v \<le> hsum f m"
  using hsum_remove [of m k v f] by simp

lemma hsum_keys:
  assumes "hwf m"
  shows "hsum f m = (\<Sum>k\<in>fst ` set m. f k (the (hget m k)))"
proof -
  have d: "distinct m" "inj_on fst (set m)" using assms by (simp_all add: hwf_def distinct_map)
  have "hsum f m = (\<Sum>e\<in>set m. f (fst e) (snd e))"
    by (simp add: hsum_def sum_list_distinct_conv_sum_set [OF d(1)] split_def)
  also have "\<dots> = (\<Sum>e\<in>set m. f (fst e) (the (hget m (fst e))))"
    using assms by (intro sum.cong refl) (metis hget_Some_in option.sel prod.collapse)
  also have "\<dots> = (\<Sum>k\<in>fst ` set m. f k (the (hget m k)))"
    by (simp add: sum.reindex [OF d(2)])
  finally show ?thesis .
qed

lemma hkeys_iff: "k \<in> fst ` set m \<longleftrightarrow> hget m k \<noteq> None"
  by (simp add: hget_None_keys)

end
