(* ===== verification/Domain.thy ===== *)
theory Domain
  imports Prelude
begin

text \<open>
  The data of \<open>src/src/domain.rs\<close>, the limits of \<open>src/src/config.rs\<close> and the error enums of
  \<open>src/src/filesystem/error.rs\<close> and \<open>src/src/filesystem/tree/error.rs\<close>.

  Parameters: \<open>sha\<close> stands for the SHA-256 digest of the crate \<open>sha2\<close>. A \<open>PeerId\<close> of
  \<open>libp2p\<close> is an opaque, totally ordered identifier; a \<open>Uuid\<close> is its 128 bits. A \<open>String\<close> is
  the list of its bytes, so \<open>len()\<close> is the length of the list.
\<close>

section \<open>Limits of config.rs\<close>

definition FASTCDC_MIN_CHUNK_SIZE :: usize where
  "FASTCDC_MIN_CHUNK_SIZE = 1024"

definition FASTCDC_AVG_CHUNK_SIZE :: usize where
  "FASTCDC_AVG_CHUNK_SIZE = 512 * 1024"

definition FASTCDC_MAX_CHUNK_SIZE :: usize where
  "FASTCDC_MAX_CHUNK_SIZE = 1024 * 1024"

section \<open>Identifiers\<close>

datatype peer_id = PeerId (peer_number: nat)

text \<open>The order of \<open>PeerId\<close> (\<open>Ord\<close> in libp2p), on which the clocks break ties.\<close>

instantiation peer_id :: linorder
begin

definition less_eq_peer_id :: "peer_id \<Rightarrow> peer_id \<Rightarrow> bool" where
  "less_eq_peer_id p q = (peer_number p \<le> peer_number q)"

definition less_peer_id :: "peer_id \<Rightarrow> peer_id \<Rightarrow> bool" where
  "less_peer_id p q = (peer_number p < peer_number q)"

instance
  by standard (auto simp: less_eq_peer_id_def less_peer_id_def peer_id.expand)

end

type_synonym uuid = "128 word"

datatype node_id = NodeId (as_uuid: uuid)

definition from_uuid :: "uuid \<Rightarrow> node_id" where
  "from_uuid u = NodeId u"

definition ROOT :: node_id where
  "ROOT = from_uuid 0"

definition TRASH :: node_id where
  "TRASH = from_uuid (- 1)"

definition is_reserved :: "node_id \<Rightarrow> bool" where
  "is_reserved n = (n = ROOT \<or> n = TRASH)"

text \<open>There are finitely many node ids: the graph search over them terminates.\<close>

instantiation node_id :: finite
begin

instance
proof
  have "finite (range NodeId)" by (rule finite_imageI) (rule finite)
  moreover have "UNIV \<subseteq> range NodeId"
    by (rule subsetI) (metis node_id.exhaust_sel rangeI)
  ultimately show "finite (UNIV :: node_id set)" by (rule rev_finite_subset)
qed

end

lemma ROOT_not_TRASH [simp]: "ROOT \<noteq> TRASH" "TRASH \<noteq> ROOT"
  by (simp_all add: ROOT_def TRASH_def from_uuid_def)

lemma is_reserved_simps [simp]: "is_reserved ROOT" "is_reserved TRASH"
  by (simp_all add: is_reserved_def)

datatype chunk_hash = ChunkHash (as_bytes: bytes)

section \<open>Chunks\<close>

record chunk =
  ch_hash :: chunk_hash
  ch_data :: bytes

record chunk_ref =
  ref_hash :: chunk_hash
  ref_size :: u64

definition hash_of :: "(bytes \<Rightarrow> bytes) \<Rightarrow> bytes \<Rightarrow> chunk_hash" where
  "hash_of sha d = ChunkHash (sha d)"

definition chunk_new :: "(bytes \<Rightarrow> bytes) \<Rightarrow> bytes \<Rightarrow> chunk" where
  "chunk_new sha d = \<lparr>ch_hash = hash_of sha d, ch_data = d\<rparr>"

definition chunk_reference :: "chunk \<Rightarrow> chunk_ref" where
  "chunk_reference c = \<lparr>ref_hash = ch_hash c, ref_size = vec_len (ch_data c)\<rparr>"

lemma chunk_new_simps [simp]:
  "ch_hash (chunk_new sha d) = hash_of sha d" "ch_data (chunk_new sha d) = d"
  by (simp_all add: chunk_new_def)

lemma chunk_reference_simps [simp]:
  "ref_hash (chunk_reference c) = ch_hash c" "ref_size (chunk_reference c) = vec_len (ch_data c)"
  by (simp_all add: chunk_reference_def)

section \<open>Node metadata\<close>

datatype node_meta =
    Directory (meta_name: string)
  | RegularFile (meta_name: string) (meta_size: u64) (meta_chunk_refs: "chunk_ref list")
  | Symlink (meta_name: string) (meta_target: string)

section \<open>Errors\<close>

datatype node_tree_error = TreeNotFound | TreeReservedNode

datatype storage_error = StoreFull

text \<open>\<open>CapacityOverflow\<close> is no error of the code: it is the panic of a \<open>Vec\<close> (theory Prelude), which unwinds
  through every caller as an error returned with \<open>?\<close> does.\<close>

datatype fs_error =
    NotFound
  | ReservedNode
  | StorageFull
  | NotADirectory
  | IsADirectory
  | DirectoryNotEmpty
  | AlreadyExists
  | CapacityOverflow

fun from_tree_error :: "node_tree_error \<Rightarrow> fs_error" where
  "from_tree_error TreeNotFound = NotFound"
| "from_tree_error TreeReservedNode = ReservedNode"

fun from_storage_error :: "storage_error \<Rightarrow> fs_error" where
  "from_storage_error StoreFull = StorageFull"

end
