(* ===== verification/Hlc.thy ===== *)
theory Hlc
  imports Domain
begin

text \<open>
  The hybrid logical clock of \<open>src/src/filesystem/tree/hlc.rs\<close>. A clock holds a physical part
  (milliseconds) and a logical part, and packs them into one \<open>u64\<close> stamp: 48 bits of physical
  time above 16 logical bits. The system time is an argument of every operation: \<open>Some ms\<close>
  since the epoch, \<open>None\<close> for a system clock set before it.

  Results: a stamp issued by \<open>hlc_next\<close> is above every stamp issued or observed before, as long
  as the 16 logical bits are not exhausted (\<open>hlc_room\<close>); and what happens when they are.
  The locale \<open>stamp_source\<close> is the contract the tree relies on.
\<close>

unbundle bit_operations_syntax

section \<open>The clock\<close>

definition LOGICAL_BITS :: nat where
  "LOGICAL_BITS = 16"

definition LOGICAL_MASK :: u64 where
  "LOGICAL_MASK = push_bit LOGICAL_BITS 1 - 1"

record hlc =
  physical :: u64
  logical :: u64

definition hlc_new :: hlc where
  "hlc_new = \<lparr>physical = 0, logical = 0\<rparr>"

definition hlc_now :: "nat option \<Rightarrow> u64" where
  "hlc_now t = (case t of None \<Rightarrow> 0 | Some ms \<Rightarrow> of_nat ms)"

definition hlc_pack :: "hlc \<Rightarrow> u64" where
  "hlc_pack h = push_bit LOGICAL_BITS (physical h) OR (logical h AND LOGICAL_MASK)"

definition hlc_next :: "nat option \<Rightarrow> hlc \<Rightarrow> u64 \<times> hlc" where
  "hlc_next t h =
     (let now_physical = hlc_now t;
          h' = (if now_physical > physical h
                then h\<lparr>physical := now_physical, logical := 0\<rparr>
                else h\<lparr>logical := logical h + 1\<rparr>)
      in (hlc_pack h', h'))"

definition hlc_observe :: "nat option \<Rightarrow> u64 \<Rightarrow> hlc \<Rightarrow> hlc" where
  "hlc_observe t remote h =
     (let now = hlc_now t;
          remote_physical = drop_bit LOGICAL_BITS remote;
          remote_logical = remote AND LOGICAL_MASK;
          p = max (max now (physical h)) remote_physical;
          l = (case (p = physical h, p = remote_physical) of
                 (True, True) \<Rightarrow> max (logical h) remote_logical
               | (True, False) \<Rightarrow> logical h
               | (False, True) \<Rightarrow> remote_logical
               | (False, False) \<Rightarrow> 0)
      in h\<lparr>physical := p, logical := l\<rparr>)"

section \<open>Stamps as numbers\<close>

text \<open>A clock whose two parts fit their fields, and a clock that can issue one more stamp.\<close>

definition hlc_ok :: "hlc \<Rightarrow> bool" where
  "hlc_ok h \<longleftrightarrow> unat (physical h) < 2 ^ 48 \<and> unat (logical h) < 2 ^ 16"

definition time_ok :: "nat option \<Rightarrow> bool" where
  "time_ok t \<longleftrightarrow> unat (hlc_now t) < 2 ^ 48"

definition hlc_room :: "nat option \<Rightarrow> hlc \<Rightarrow> bool" where
  "hlc_room t h \<longleftrightarrow> physical h < hlc_now t \<or> unat (logical h) < 2 ^ 16 - 1"

lemma LOGICAL_MASK_eq: "LOGICAL_MASK = mask 16"
  by (simp add: LOGICAL_MASK_def LOGICAL_BITS_def mask_eq_exp_minus_1)

lemma unat_hlc_pack:
  assumes "unat (physical h) < 2 ^ 48"
  shows "unat (hlc_pack h) = unat (physical h) * 2 ^ 16 + unat (logical h) mod 2 ^ 16"
proof -
  let ?a = "push_bit 16 (physical h)" and ?b = "take_bit 16 (logical h)"
  have "?a AND ?b = 0"
    by (rule bit_word_eqI) (auto simp: bit_simps)
  then have "hlc_pack h = ?a + ?b"
    by (simp add: hlc_pack_def LOGICAL_MASK_eq LOGICAL_BITS_def take_bit_eq_mask disjunctive_add_eq_or)
  moreover have a: "unat ?a = unat (physical h) * 2 ^ 16"
    using assms by (simp add: push_bit_eq_mult unat_word_ariths)
  moreover have b: "unat ?b = unat (logical h) mod 2 ^ 16"
    by (simp add: take_bit_eq_mod unat_mod)
  moreover have "unat ?a + unat ?b < 2 ^ 64"
    using assms mod_less_divisor [of "2 ^ 16" "unat (logical h)"] unfolding a b by simp
  ultimately show ?thesis by (simp add: unat_add_no_overflow)
qed

lemma unat_stamp_parts:
  "unat (drop_bit LOGICAL_BITS r) = unat r div 2 ^ 16" "unat (r AND LOGICAL_MASK) = unat r mod 2 ^ 16"
proof -
  show "unat (drop_bit LOGICAL_BITS r) = unat r div 2 ^ 16"
    by (simp add: LOGICAL_BITS_def drop_bit_eq_div unat_div)
  show "unat (r AND LOGICAL_MASK) = unat r mod 2 ^ 16"
    by (simp add: LOGICAL_MASK_eq flip: take_bit_eq_mask) (simp add: take_bit_eq_mod unat_mod)
qed

lemma unat_pack_ok:
  "hlc_ok h \<Longrightarrow> unat (hlc_pack h) = unat (physical h) * 2 ^ 16 + unat (logical h)"
  by (simp add: hlc_ok_def unat_hlc_pack)

lemma hlc_ok_new [simp]: "hlc_ok hlc_new"
  by (simp add: hlc_ok_def hlc_new_def)

section \<open>Issuing and observing\<close>

lemma hlc_next_cases:
  obtains (tick) "physical h < hlc_now t"
      "hlc_next t h = (hlc_pack \<lparr>physical = hlc_now t, logical = 0\<rparr>, \<lparr>physical = hlc_now t, logical = 0\<rparr>)"
  | (count) "\<not> physical h < hlc_now t"
      "hlc_next t h = (hlc_pack (h\<lparr>logical := logical h + 1\<rparr>), h\<lparr>logical := logical h + 1\<rparr>)"
proof (cases "physical h < hlc_now t")
  case True
  then have "hlc_next t h = (hlc_pack \<lparr>physical = hlc_now t, logical = 0\<rparr>, \<lparr>physical = hlc_now t, logical = 0\<rparr>)"
    by (cases h) (simp add: hlc_next_def Let_def)
  with True show ?thesis by (rule tick)
next
  case False
  then show ?thesis by (intro count) (simp_all add: hlc_next_def Let_def)
qed

lemma hlc_next_ok:
  assumes "hlc_ok h" and "time_ok t" and "hlc_room t h" and "hlc_next t h = (s, h')"
  shows "hlc_ok h'" and "s = hlc_pack h'" and "hlc_pack h < s"
proof -
  have "hlc_ok h' \<and> s = hlc_pack h' \<and> unat (hlc_pack h) < unat s"
  proof (cases rule: hlc_next_cases [of h t])
    case tick
    with assms have h': "h' = \<lparr>physical = hlc_now t, logical = 0\<rparr>" "s = hlc_pack h'" by auto
    with assms(2) have ok: "hlc_ok h'" by (simp add: hlc_ok_def time_ok_def)
    from tick(1) have "unat (physical h) < unat (hlc_now t)" by (simp add: word_less_nat_alt)
    moreover from assms(1) have "unat (logical h) < 2 ^ 16" by (simp add: hlc_ok_def)
    ultimately show ?thesis
      using ok assms(1) h' by (simp add: unat_pack_ok)
  next
    case count
    with assms have h': "h' = h\<lparr>logical := logical h + 1\<rparr>" "s = hlc_pack h'" by auto
    from count(1) assms(3) have l: "unat (logical h) < 2 ^ 16 - 1" by (simp add: hlc_room_def)
    then have "unat (logical h + 1) = unat (logical h) + 1"
      using unat_add_no_overflow [of "logical h" 1] by simp
    with l assms(1) h' show ?thesis by (simp add: hlc_ok_def unat_pack_ok)
  qed
  then show "hlc_ok h'" "s = hlc_pack h'" "hlc_pack h < s"
    by (auto simp: word_less_nat_alt)
qed

lemma unat_max_word: "unat (max a b :: u64) = max (unat a) (unat b)"
  by (simp add: max_def word_le_nat_alt)

lemma hlc_observe_ok:
  assumes "hlc_ok h" and "time_ok t"
  shows "hlc_ok (hlc_observe t r h)" and "hlc_pack h \<le> hlc_pack (hlc_observe t r h)"
    and "r \<le> hlc_pack (hlc_observe t r h)"
proof -
  define rp rl where "rp = drop_bit LOGICAL_BITS r" and "rl = r AND LOGICAL_MASK"
  define p where "p = max (max (hlc_now t) (physical h)) rp"
  define l where "l = (if p = physical h then if p = rp then max (logical h) rl else logical h
    else if p = rp then rl else 0)"
  have obs: "hlc_observe t r h = h\<lparr>physical := p, logical := l\<rparr>"
    by (simp add: hlc_observe_def Let_def p_def l_def rp_def rl_def)
  have r: "unat r = unat rp * 2 ^ 16 + unat rl" "unat rp < 2 ^ 48" "unat rl < 2 ^ 16"
    using unat_lt_2_64 [of r] by (simp_all add: rp_def rl_def unat_stamp_parts less_mult_imp_div_less)
  have p: "unat p = max (max (unat (hlc_now t)) (unat (physical h))) (unat rp)"
    by (simp add: p_def unat_max_word)
  have "unat p < 2 ^ 48" and "unat l < 2 ^ 16"
    using assms r by (auto simp: p l_def hlc_ok_def time_ok_def unat_max_word)
  then have ok: "hlc_ok (hlc_observe t r h)" by (simp add: obs hlc_ok_def)
  then show "hlc_ok (hlc_observe t r h)" .
  have new: "unat (hlc_pack (hlc_observe t r h)) = unat p * 2 ^ 16 + unat l"
    using unat_pack_ok [OF ok] by (simp add: obs)
  have le: "physical h \<le> p" "rp \<le> p" by (auto simp: p_def le_max_iff_disj)
  then have "unat (physical h) < unat p \<or> physical h = p \<and> unat (logical h) \<le> unat l"
    by (auto simp: l_def unat_max_word word_less_nat_alt [symmetric])
  then show "hlc_pack h \<le> hlc_pack (hlc_observe t r h)"
    using assms(1) new by (auto simp: word_le_nat_alt unat_pack_ok hlc_ok_def)
  from le have "unat rp < unat p \<or> rp = p \<and> unat rl \<le> unat l"
    by (auto simp: l_def unat_max_word word_less_nat_alt [symmetric])
  then show "r \<le> hlc_pack (hlc_observe t r h)"
    using r new by (auto simp: word_le_nat_alt)
qed

section \<open>The contract of a stamp source\<close>

text \<open>
  A run of a stamp source: issuing a stamp or absorbing a remote one. The trace lists the
  stamps in the order they were seen, each marked with whether it was issued here.
\<close>

datatype 't stamp_event = Issue 't | Absorb 't u64

fun stamp_trace ::
  "('t \<Rightarrow> 's \<Rightarrow> u64 \<times> 's) \<Rightarrow> ('t \<Rightarrow> u64 \<Rightarrow> 's \<Rightarrow> 's) \<Rightarrow> 's \<Rightarrow> 't stamp_event list \<Rightarrow> (bool \<times> u64) list"
where
  "stamp_trace issue absorb s [] = []"
| "stamp_trace issue absorb s (Issue t # es) =
     (let (x, s') = issue t s in (True, x) # stamp_trace issue absorb s' es)"
| "stamp_trace issue absorb s (Absorb t r # es) =
     (False, r) # stamp_trace issue absorb (absorb t r s) es"

text \<open>Every step of the run happens at a good time, with room for the stamp it issues.\<close>

fun run_ok ::
  "('t \<Rightarrow> bool) \<Rightarrow> ('t \<Rightarrow> 's \<Rightarrow> bool) \<Rightarrow> ('t \<Rightarrow> 's \<Rightarrow> u64 \<times> 's) \<Rightarrow> ('t \<Rightarrow> u64 \<Rightarrow> 's \<Rightarrow> 's) \<Rightarrow> 's \<Rightarrow>
    't stamp_event list \<Rightarrow> bool"
where
  "run_ok good room issue absorb s [] = True"
| "run_ok good room issue absorb s (Issue t # es) =
     (good t \<and> room t s \<and> run_ok good room issue absorb (snd (issue t s)) es)"
| "run_ok good room issue absorb s (Absorb t r # es) =
     (good t \<and> run_ok good room issue absorb (absorb t r s) es)"

fun absorb_all :: "('t \<Rightarrow> u64 \<Rightarrow> 's \<Rightarrow> 's) \<Rightarrow> ('t \<times> u64) list \<Rightarrow> 's \<Rightarrow> 's" where
  "absorb_all absorb [] s = s"
| "absorb_all absorb ((t, r) # rs) s = absorb_all absorb rs (absorb t r s)"

locale stamp_source =
  fixes issue :: "'t \<Rightarrow> 's \<Rightarrow> u64 \<times> 's"
    and absorb :: "'t \<Rightarrow> u64 \<Rightarrow> 's \<Rightarrow> 's"
    and high :: "'s \<Rightarrow> u64"
    and inv :: "'s \<Rightarrow> bool"
    and good :: "'t \<Rightarrow> bool"
    and room :: "'t \<Rightarrow> 's \<Rightarrow> bool"
  assumes issue_law: "inv s \<Longrightarrow> good t \<Longrightarrow> room t s \<Longrightarrow> issue t s = (x, s') \<Longrightarrow>
      inv s' \<and> high s' = x \<and> high s < x"
    and absorb_law: "inv s \<Longrightarrow> good t \<Longrightarrow>
      inv (absorb t r s) \<and> high s \<le> high (absorb t r s) \<and> r \<le> high (absorb t r s)"
begin

lemma trace_above_high:
  "inv s \<Longrightarrow> run_ok good room issue absorb s es \<Longrightarrow> (True, x) \<in> set (stamp_trace issue absorb s es) \<Longrightarrow>
    high s < x"
proof (induction es arbitrary: s)
  case (Cons e es)
  show ?case
  proof (cases e)
    case (Issue t)
    obtain y s' where y: "issue t s = (y, s')" by force
    with Issue Cons.prems issue_law [of s t y s'] have "inv s'" "high s' = y" "high s < y" by simp_all
    with Issue y Cons.prems Cons.IH [of s'] show ?thesis by auto
  next
    case (Absorb t r)
    with Cons.prems absorb_law [of s t r] have "inv (absorb t r s)" "high s \<le> high (absorb t r s)"
      by simp_all
    with Absorb Cons.prems Cons.IH [of "absorb t r s"] show ?thesis by auto
  qed
qed simp

lemma trace_increases:
  assumes "inv s" and "run_ok good room issue absorb s es"
    and "stamp_trace issue absorb s es = xs @ (True, x) # ys" and "(b, y) \<in> set xs"
  shows "y < x"
  using assms
proof (induction es arbitrary: s xs)
  case (Cons e es)
  then obtain z zs where xs: "xs = z # zs" by (cases xs) auto
  show ?case
  proof (cases e)
    case (Issue t)
    obtain v s' where v: "issue t s = (v, s')" by force
    with Issue Cons.prems issue_law [of s t v s'] have s': "inv s'" "high s' = v" by simp_all
    from Issue v xs Cons.prems have z: "z = (True, v)"
      and tr: "stamp_trace issue absorb s' es = zs @ (True, x) # ys"
      and ok: "run_ok good room issue absorb s' es" by auto
    from trace_above_high [OF s'(1) ok, of x] tr s' have "v < x" by auto
    with z xs Cons.prems(4) Cons.IH [OF s'(1) ok tr] show ?thesis by auto
  next
    case (Absorb t r)
    let ?s = "absorb t r s"
    from Absorb Cons.prems absorb_law [of s t r] have s': "inv ?s" "r \<le> high ?s" by simp_all
    from Absorb xs Cons.prems have z: "z = (False, r)"
      and tr: "stamp_trace issue absorb ?s es = zs @ (True, x) # ys"
      and ok: "run_ok good room issue absorb ?s es" by auto
    from trace_above_high [OF s'(1) ok, of x] tr s' have "r < x" by auto
    with z xs Cons.prems(4) Cons.IH [OF s'(1) ok tr] show ?thesis by auto
  qed
qed simp

lemma absorb_all_covers:
  assumes "inv s" and "\<forall>(t, r) \<in> set rs. good t"
  shows "inv (absorb_all absorb rs s)" and "high s \<le> high (absorb_all absorb rs s)"
    and "(t, r) \<in> set rs \<Longrightarrow> r \<le> high (absorb_all absorb rs s)"
proof -
  have "inv (absorb_all absorb rs s) \<and> high s \<le> high (absorb_all absorb rs s) \<and>
    (\<forall>(t, r) \<in> set rs. r \<le> high (absorb_all absorb rs s))"
    using assms
  proof (induction rs arbitrary: s)
    case (Cons tr rs)
    obtain t r where tr: "tr = (t, r)" by force
    with Cons.prems absorb_law [of s t r] have
      "inv (absorb t r s)" "high s \<le> high (absorb t r s)" "r \<le> high (absorb t r s)" by auto
    with Cons.IH [of "absorb t r s"] Cons.prems(2) tr show ?case by (auto intro: order_trans)
  qed simp
  then show "inv (absorb_all absorb rs s)" "high s \<le> high (absorb_all absorb rs s)"
    "(t, r) \<in> set rs \<Longrightarrow> r \<le> high (absorb_all absorb rs s)" by auto
qed

end

interpretation clock: stamp_source hlc_next hlc_observe hlc_pack hlc_ok time_ok hlc_room
proof unfold_locales
  fix s t x s'
  assume "hlc_ok s" "time_ok t" "hlc_room t s" "hlc_next t s = (x, s')"
  from hlc_next_ok [OF this] show "hlc_ok s' \<and> hlc_pack s' = x \<and> hlc_pack s < x" by simp
next
  fix s t r
  assume "hlc_ok s" "time_ok t"
  from hlc_observe_ok [OF this, of r]
  show "hlc_ok (hlc_observe t r s) \<and> hlc_pack s \<le> hlc_pack (hlc_observe t r s) \<and>
    r \<le> hlc_pack (hlc_observe t r s)" by simp
qed

text \<open>Evaluation of the clock at concrete times.\<close>

lemmas hlc_eval = hlc_new_def hlc_next_def hlc_observe_def hlc_pack_def hlc_now_def hlc_ok_def
  time_ok_def hlc_room_def LOGICAL_MASK_def LOGICAL_BITS_def Let_def

section \<open>Properties\<close>

text \<open>C21: In every run of the clock, a stamp it issues is strictly greater than every stamp it
  issued or observed before, whatever the system time does (it may stand still or run
  backwards) and whatever stamps the peers send, as long as no step exhausts the 16 logical bits.\<close>

theorem hlc_issues_increase:
  assumes "hlc_ok h" and "run_ok time_ok hlc_room hlc_next hlc_observe h es"
    and "stamp_trace hlc_next hlc_observe h es = xs @ (True, x) # ys" and "(b, y) \<in> set xs"
  shows "y < x"
  using assms by (rule clock.trace_increases)

theorem hlc_issues_increase_witness: "(5 * 65536 + 7 :: u64) < 5 * 65536 + 8"
proof -
  let ?es = "[Absorb (Some 3) (5 * 65536 + 7), Issue (Some 4)]"
  have tr: "stamp_trace hlc_next hlc_observe hlc_new ?es =
      [(False, 5 * 65536 + 7)] @ (True, 5 * 65536 + 8) # []"
    by (simp add: hlc_eval)
  have ok: "run_ok time_ok hlc_room hlc_next hlc_observe hlc_new ?es"
    by (simp add: hlc_eval)
  show ?thesis by (rule hlc_issues_increase [OF hlc_ok_new ok tr, of False]) simp
qed

text \<open>C38: Once the logical counter stands at its 16-bit maximum and the system time has not
  passed the clock's, the next stamp is smaller than the previous one: the carry is masked
  away. A remote stamp of \<open>u64::MAX\<close> puts a clock in that state for good, so that every
  stamp it can then issue is below the one it observed.\<close>

theorem hlc_exhausted_goes_back:
  assumes "hlc_ok h" and "time_ok t" and "time_ok t'"
  shows "(logical h = LOGICAL_MASK \<and> hlc_now t \<le> physical h \<longrightarrow> fst (hlc_next t h) < hlc_pack h) \<and>
    fst (hlc_next t' (hlc_observe t (- 1) h)) < - 1"
proof -
  have less: "fst (hlc_next t g) < hlc_pack g"
    if "hlc_ok g" "logical g = LOGICAL_MASK" "hlc_now t \<le> physical g" for g t
  proof -
    from that(3) have n: "fst (hlc_next t g) = hlc_pack (g\<lparr>logical := logical g + 1\<rparr>)"
      by (simp add: hlc_next_def Let_def not_less [symmetric])
    have l: "unat (logical g) = 2 ^ 16 - 1" "unat (logical g + 1) = 2 ^ 16"
      by (simp_all add: that(2) LOGICAL_MASK_def LOGICAL_BITS_def)
    have p: "unat (physical g) < 2 ^ 48" using that(1) by (simp add: hlc_ok_def)
    show ?thesis unfolding n word_less_nat_alt using p l by (simp add: unat_hlc_pack)
  qed
  let ?g = "hlc_observe t (- 1) h"
  have g: "hlc_ok ?g" "- 1 \<le> hlc_pack ?g" using hlc_observe_ok [OF assms(1,2)] by blast+
  then have "unat (physical ?g) * 2 ^ 16 + unat (logical ?g) = 2 ^ 64 - 1"
    using unat_pack_ok [OF g(1)] unat_lt_2_64 [of "hlc_pack ?g"]
    by (simp add: word_le_nat_alt unat_max_u64)
  moreover have "p = 2 ^ 48 - 1 \<and> l = 2 ^ 16 - 1"
    if "p * 2 ^ 16 + l = 2 ^ 64 - 1" "p < 2 ^ 48" "l < 2 ^ 16" for p l :: nat
  proof -
    have "p = (p * 2 ^ 16 + l) div 2 ^ 16" "l = (p * 2 ^ 16 + l) mod 2 ^ 16" using that(3) by simp_all
    with that(1) show ?thesis by simp
  qed
  ultimately have pl: "unat (physical ?g) = 2 ^ 48 - 1" "unat (logical ?g) = 2 ^ 16 - 1"
    using g(1) unfolding hlc_ok_def by blast+
  then have "logical ?g = LOGICAL_MASK"
    by (intro unsigned_word_eqI) (simp add: LOGICAL_MASK_def LOGICAL_BITS_def)
  moreover from pl assms(3) have "hlc_now t' \<le> physical ?g"
    by (simp add: time_ok_def word_le_nat_alt)
  ultimately have "fst (hlc_next t' ?g) < hlc_pack ?g" using less g(1) by blast
  then have "fst (hlc_next t' ?g) < - 1"
    using word_n1_ge order_less_le_trans by blast
  with less assms(1) show ?thesis by blast
qed

theorem hlc_exhausted_goes_back_witness:
  "fst (hlc_next (Some 9) \<lparr>physical = 9, logical = 65535\<rparr>) < hlc_pack \<lparr>physical = 9, logical = 65535\<rparr> \<and>
   fst (hlc_next (Some 10) (hlc_observe (Some 9) (- 1) \<lparr>physical = 9, logical = 65535\<rparr>)) < - 1"
proof -
  have "hlc_ok \<lparr>physical = 9, logical = 65535\<rparr>" "time_ok (Some 9)" "time_ok (Some 10)"
    by (simp_all add: hlc_eval)
  from hlc_exhausted_goes_back [OF this] show ?thesis by (simp add: hlc_eval)
qed

end
