(* ===== verification/Chunking.thy ===== *)
theory Chunking
  imports Domain
begin

text \<open>
  Splitting file data into chunks and truncating chunk lists: \<open>src/src/filesystem/chunk.rs\<close>.

  Parameters: \<open>sha\<close> is SHA-256; \<open>cdc min avg max data\<close> is the iterator of the crate
  \<open>fastcdc\<close> (\<open>FastCDC::new\<close>), as the list of (offset, length) of its chunks. What the crate
  documents of it is \<open>cdc_ok\<close>: the chunks tile the data from its start to its end, none is
  empty and none is longer than the maximum.
\<close>

type_synonym chunker = "usize \<Rightarrow> usize \<Rightarrow> usize \<Rightarrow> bytes \<Rightarrow> (nat \<times> nat) list"

section \<open>The code\<close>

definition chunk_split :: "(bytes \<Rightarrow> bytes) \<Rightarrow> chunker \<Rightarrow> bytes \<Rightarrow> chunk list" where
  "chunk_split sha cdc data =
     map (\<lambda>(offset, length). chunk_new sha (subslice data offset (offset + length)))
       (cdc FASTCDC_MIN_CHUNK_SIZE FASTCDC_AVG_CHUNK_SIZE FASTCDC_MAX_CHUNK_SIZE data)"

fun chunk_truncate :: "chunk_ref list \<Rightarrow> u64 \<Rightarrow> chunk_ref list" where
  "chunk_truncate [] remaining = []"
| "chunk_truncate (r # rs) remaining =
     (if remaining = 0 then []
      else if ref_size r \<le> remaining then r # chunk_truncate rs (remaining - ref_size r)
      else [\<lparr>ref_hash = ref_hash r, ref_size = remaining\<rparr>])"

section \<open>What the chunker documents\<close>

fun tiles :: "nat \<Rightarrow> nat \<Rightarrow> nat \<Rightarrow> (nat \<times> nat) list \<Rightarrow> bool" where
  "tiles m start end [] \<longleftrightarrow> start = end"
| "tiles m start end ((off, len) # spans) \<longleftrightarrow>
     off = start \<and> 0 < len \<and> len \<le> m \<and> start + len \<le> end \<and> tiles m (start + len) end spans"

definition cdc_ok :: "chunker \<Rightarrow> bool" where
  "cdc_ok cdc \<longleftrightarrow> (\<forall>mi av ma data. 0 < ma \<longrightarrow> tiles (unat ma) 0 (length data) (cdc mi av ma data))"

text \<open>A chunker that satisfies it: chunks of the maximal size. It serves the witnesses only.\<close>

function fixed_spans :: "nat \<Rightarrow> nat \<Rightarrow> nat \<Rightarrow> (nat \<times> nat) list" where
  "fixed_spans m off len =
     (if m = 0 \<or> len = 0 then [] else (off, min m len) # fixed_spans m (off + min m len) (len - min m len))"
  by pat_completeness auto
termination
  by (relation "measure (\<lambda>(m, off, len). len)") auto

declare fixed_spans.simps [simp del]

definition fixed_cdc :: chunker where
  "fixed_cdc mi av ma data = fixed_spans (unat ma) 0 (length data)"

lemma tiles_fixed_spans: "0 < m \<Longrightarrow> tiles m off (off + len) (fixed_spans m off len)"
proof (induction m off len rule: fixed_spans.induct)
  case (1 m off len)
  then show ?case
    by (cases "len = 0") (simp_all add: fixed_spans.simps [of m off len] fixed_spans.simps [of m off 0])
qed

lemma cdc_ok_fixed: "cdc_ok fixed_cdc"
  using tiles_fixed_spans [of _ 0] by (simp add: cdc_ok_def fixed_cdc_def word_less_nat_alt)

section \<open>Splitting keeps the data\<close>

lemma tiles_concat:
  "tiles m start end spans \<Longrightarrow> end \<le> length data \<Longrightarrow>
    concat (map (\<lambda>(off, len). subslice data off (off + len)) spans) = subslice data start end"
proof (induction m start "end" spans rule: tiles.induct)
  case (2 m start "end" off len spans)
  with subslice_append [of start "start + len" "end" data] show ?case by simp
qed (simp add: subslice_def)

lemma tiles_lengths:
  "tiles m start end spans \<Longrightarrow> end \<le> length data \<Longrightarrow> (off, len) \<in> set spans \<Longrightarrow>
    length (subslice data off (off + len)) = len \<and> len \<le> m \<and> 0 < len"
  by (induction m start "end" spans rule: tiles.induct) (auto simp: subslice_def)

lemma chunk_split_tiles:
  assumes "cdc_ok cdc"
  shows "tiles (2 ^ 20) 0 (length data)
    (cdc FASTCDC_MIN_CHUNK_SIZE FASTCDC_AVG_CHUNK_SIZE FASTCDC_MAX_CHUNK_SIZE data)"
proof -
  have "unat FASTCDC_MAX_CHUNK_SIZE = 2 ^ 20" "0 < FASTCDC_MAX_CHUNK_SIZE"
    by (simp_all add: FASTCDC_MAX_CHUNK_SIZE_def)
  with assms show ?thesis unfolding cdc_ok_def by metis
qed

lemma chunk_split_concat: "cdc_ok cdc \<Longrightarrow> concat (map ch_data (chunk_split sha cdc data)) = data"
  using tiles_concat [OF chunk_split_tiles, of cdc data data]
  by (simp add: chunk_split_def comp_def case_prod_unfold subslice_all)

lemma chunk_split_hash: "c \<in> set (chunk_split sha cdc data) \<Longrightarrow> ch_hash c = hash_of sha (ch_data c)"
  by (auto simp: chunk_split_def)

lemma chunk_split_length:
  "cdc_ok cdc \<Longrightarrow> c \<in> set (chunk_split sha cdc data) \<Longrightarrow> 0 < length (ch_data c) \<and> length (ch_data c) \<le> 2 ^ 20"
  using tiles_lengths [OF chunk_split_tiles, of cdc data data] by (force simp: chunk_split_def)

section \<open>What a list of chunk references denotes\<close>

text \<open>The length in bytes, and the bytes themselves when \<open>look\<close> gives the data of a hash.\<close>

definition refs_total :: "chunk_ref list \<Rightarrow> nat" where
  "refs_total rs = (\<Sum>r\<leftarrow>rs. unat (ref_size r))"

definition refs_content :: "(chunk_hash \<Rightarrow> bytes) \<Rightarrow> chunk_ref list \<Rightarrow> bytes" where
  "refs_content look rs = concat (map (\<lambda>r. take (unat (ref_size r)) (look (ref_hash r))) rs)"

definition refs_backed :: "(chunk_hash \<Rightarrow> bytes) \<Rightarrow> chunk_ref list \<Rightarrow> bool" where
  "refs_backed look rs \<longleftrightarrow> (\<forall>r \<in> set rs. unat (ref_size r) \<le> length (look (ref_hash r)))"

lemma refs_simps [simp]:
  "refs_total [] = 0" "refs_total (r # rs) = unat (ref_size r) + refs_total rs"
  "refs_content look [] = []"
  "refs_content look (r # rs) = take (unat (ref_size r)) (look (ref_hash r)) @ refs_content look rs"
  "refs_backed look []"
  "refs_backed look (r # rs) \<longleftrightarrow> unat (ref_size r) \<le> length (look (ref_hash r)) \<and> refs_backed look rs"
  by (simp_all add: refs_total_def refs_content_def refs_backed_def)

lemma refs_content_length: "refs_backed look rs \<Longrightarrow> length (refs_content look rs) = refs_total rs"
  by (induction rs) auto

lemma chunk_truncate_total: "refs_total (chunk_truncate rs n) = min (unat n) (refs_total rs)"
  by (induction rs n rule: chunk_truncate.induct)
    (auto simp: word_le_nat_alt unat_sub unat_eq_zero not_le min_def)

lemma chunk_truncate_backed: "refs_backed look rs \<Longrightarrow> refs_backed look (chunk_truncate rs n)"
  by (induction rs n rule: chunk_truncate.induct) (auto simp: word_le_nat_alt)

lemma chunk_truncate_content:
  "refs_backed look rs \<Longrightarrow> refs_content look (chunk_truncate rs n) = take (unat n) (refs_content look rs)"
  by (induction rs n rule: chunk_truncate.induct)
    (auto simp: word_le_nat_alt unat_sub min_def)

lemma chunk_truncate_hashes: "ref_hash ` set (chunk_truncate rs n) \<subseteq> ref_hash ` set rs"
  by (induction rs n rule: chunk_truncate.induct) auto

lemma split_refs_total:
  assumes "cdc_ok cdc"
  shows "refs_total (map chunk_reference (chunk_split sha cdc data)) = length data"
proof -
  have "refs_total (map chunk_reference cs) = length (concat (map ch_data cs))"
    if "\<forall>c \<in> set cs. length (ch_data c) \<le> 2 ^ 20" for cs
    using that by (induction cs) (auto simp: unat_vec_len_lt)
  with chunk_split_length [OF assms] show ?thesis
    using chunk_split_concat [OF assms, of sha data] by metis
qed

section \<open>Properties\<close>

text \<open>C36: Splitting a file's data into chunks loses nothing: the chunks' data, in order, is the
  file's data, their sizes add up to its length, every chunk is named by the hash of its own
  data and none is empty or larger than \<open>FASTCDC_MAX_CHUNK_SIZE\<close>.\<close>

theorem split_lossless:
  assumes "cdc_ok cdc"
  shows "concat (map ch_data (chunk_split sha cdc data)) = data \<and>
    refs_total (map chunk_reference (chunk_split sha cdc data)) = length data \<and>
    (\<forall>c \<in> set (chunk_split sha cdc data). ch_hash c = hash_of sha (ch_data c) \<and>
       0 < length (ch_data c) \<and> length (ch_data c) \<le> unat FASTCDC_MAX_CHUNK_SIZE)"
  using chunk_split_concat [OF assms] chunk_split_hash chunk_split_length [OF assms]
    split_refs_total [OF assms] by (simp add: FASTCDC_MAX_CHUNK_SIZE_def)

theorem split_lossless_witness:
  "concat (map ch_data (chunk_split (\<lambda>d. take 4 d) fixed_cdc [1, 2, 3])) = [1, 2, 3]"
  using split_lossless [OF cdc_ok_fixed, of "\<lambda>d. take 4 d" "[1, 2, 3]"] by simp

text \<open>Truncating a chunk list to \<open>n\<close> bytes denotes exactly the first \<open>n\<close> bytes of what the
  list denoted: its size is the smaller of \<open>n\<close> and the old size, its content the prefix, and
  it names no chunk the list did not name.\<close>

theorem truncate_takes_prefix:
  assumes "refs_backed look rs"
  shows "refs_content look (chunk_truncate rs n) = take (unat n) (refs_content look rs) \<and>
    refs_total (chunk_truncate rs n) = min (unat n) (refs_total rs) \<and>
    ref_hash ` set (chunk_truncate rs n) \<subseteq> ref_hash ` set rs"
  using chunk_truncate_content [OF assms] chunk_truncate_total chunk_truncate_hashes by blast

theorem truncate_takes_prefix_witness:
  "refs_content (\<lambda>h. as_bytes h @ as_bytes h)
     (chunk_truncate [\<lparr>ref_hash = ChunkHash [7, 8], ref_size = 3\<rparr>, \<lparr>ref_hash = ChunkHash [9], ref_size = 2\<rparr>] 4)
   = [7, 8, 7, 9]"
proof -
  have "refs_backed (\<lambda>h. as_bytes h @ as_bytes h)
      [\<lparr>ref_hash = ChunkHash [7, 8], ref_size = 3\<rparr>, \<lparr>ref_hash = ChunkHash [9], ref_size = 2\<rparr>]"
    by simp
  from truncate_takes_prefix [OF this, of 4] show ?thesis by simp
qed

end
