(* ===== verification/Storage.thy ===== *)
theory Storage
  imports Chunking
begin

text \<open>
  The chunk store of \<open>src/src/filesystem/storage.rs\<close>: a content-addressed map of chunks, each
  pinned (counted against the node's capacity) or cached (evictable, in the order of
  \<open>cache_lru\<close>, least recently used first), with the two byte counters.

  The byte counters are \<open>usize\<close> words and wrap; the invariant shows they never do. The
  \<open>Mutex\<close> around \<open>cache_lru\<close> lets \<open>get(&self)\<close> reorder it, so \<open>storage_get\<close> returns the store
  it leaves behind.
\<close>

section \<open>The code\<close>

definition MAX_CACHED_BYTES :: usize where
  "MAX_CACHED_BYTES = FASTCDC_MAX_CHUNK_SIZE * 16"

record chunk_entry =
  ent_data :: bytes
  ent_pinned :: bool

record chunk_storage =
  st_chunks :: "(chunk_hash, chunk_entry) hmap"
  st_lru :: "chunk_hash list"
  st_pinned_bytes :: usize
  st_cached_bytes :: usize
  st_max_pinned_bytes :: usize
  st_max_cached_bytes :: usize

definition storage_new :: "usize \<Rightarrow> chunk_storage" where
  "storage_new max_pinned_bytes =
     \<lparr>st_chunks = [], st_lru = [], st_pinned_bytes = 0, st_cached_bytes = 0,
      st_max_pinned_bytes = max_pinned_bytes, st_max_cached_bytes = MAX_CACHED_BYTES\<rparr>"

definition storage_capacity_bytes :: "chunk_storage \<Rightarrow> usize" where
  "storage_capacity_bytes st = st_max_pinned_bytes st"

definition storage_free_bytes :: "chunk_storage \<Rightarrow> usize" where
  "storage_free_bytes st = st_max_pinned_bytes st - st_pinned_bytes st"

text \<open>The first loop of \<open>try_pin\<close>: the bytes required, the chunks to insert and the cached
  hashes to pin, each hash once.\<close>

fun pin_scan ::
  "(chunk_hash, chunk_entry) hmap \<Rightarrow> chunk list \<Rightarrow> chunk_hash set \<Rightarrow> usize \<Rightarrow> chunk list \<Rightarrow> chunk_hash list \<Rightarrow>
    usize \<times> chunk list \<times> chunk_hash list"
where
  "pin_scan chunks [] seen required new_chunks cached_hashes = (required, new_chunks, cached_hashes)"
| "pin_scan chunks (c # cs) seen required new_chunks cached_hashes =
     (let hash = ch_hash c in
      if hash \<in> seen then pin_scan chunks cs seen required new_chunks cached_hashes
      else
        (let seen' = insert hash seen in
         case hget chunks hash of
           Some entry \<Rightarrow>
             (if \<not> ent_pinned entry
              then pin_scan chunks cs seen' (required + vec_len (ent_data entry)) new_chunks (cached_hashes @ [hash])
              else pin_scan chunks cs seen' required new_chunks cached_hashes)
         | None \<Rightarrow>
             pin_scan chunks cs seen' (required + vec_len (ch_data c)) (new_chunks @ [c]) cached_hashes))"

definition pin_new :: "chunk \<Rightarrow> chunk_storage \<Rightarrow> chunk_storage" where
  "pin_new c st =
     st\<lparr>st_pinned_bytes := st_pinned_bytes st + vec_len (ch_data c),
        st_chunks := hinsert (ch_hash c) \<lparr>ent_data = ch_data c, ent_pinned = True\<rparr> (st_chunks st)\<rparr>"

text \<open>The body of the loop over the cached hashes. The scan found each of them in the map, so
  the \<open>unwrap\<close> of the source never meets \<open>None\<close>.\<close>

definition pin_cached :: "chunk_hash \<Rightarrow> chunk_storage \<Rightarrow> chunk_storage" where
  "pin_cached hash st =
     (case hget (st_chunks st) hash of
        None \<Rightarrow> st
      | Some entry \<Rightarrow>
          st\<lparr>st_chunks := hmodify hash (\<lambda>e. e\<lparr>ent_pinned := True\<rparr>) (st_chunks st),
             st_pinned_bytes := st_pinned_bytes st + vec_len (ent_data entry),
             st_cached_bytes := st_cached_bytes st - vec_len (ent_data entry),
             st_lru := filter (\<lambda>cached. cached \<noteq> hash) (st_lru st)\<rparr>)"

definition storage_try_pin ::
  "chunk list \<Rightarrow> chunk_storage \<Rightarrow> (unit, storage_error) result \<times> chunk_storage"
where
  "storage_try_pin cs st =
     (let (required, new_chunks, cached_hashes) = pin_scan (st_chunks st) cs {} 0 [] []
      in if st_pinned_bytes st + required > st_max_pinned_bytes st then (Err StoreFull, st)
         else (Ok (), fold pin_cached cached_hashes (fold pin_new new_chunks st)))"

text \<open>The eviction loop of \<open>cache\<close>, over the queue it pops from. The result says whether the
  loop ended with room for the chunk (rather than by the early return).\<close>

fun cache_make_room :: "usize \<Rightarrow> chunk_hash list \<Rightarrow> chunk_storage \<Rightarrow> bool \<times> chunk_storage" where
  "cache_make_room chunk_size [] st =
     (\<not> st_cached_bytes st + chunk_size > st_max_cached_bytes st, st\<lparr>st_lru := []\<rparr>)"
| "cache_make_room chunk_size (hash # lru) st =
     (if st_cached_bytes st + chunk_size > st_max_cached_bytes st
      then (case hget (st_chunks st) hash of
              None \<Rightarrow> cache_make_room chunk_size lru st
            | Some entry \<Rightarrow>
                cache_make_room chunk_size lru
                  (st\<lparr>st_chunks := hremove hash (st_chunks st),
                      st_cached_bytes := st_cached_bytes st - vec_len (ent_data entry)\<rparr>))
      else (True, st\<lparr>st_lru := hash # lru\<rparr>))"

definition storage_cache :: "chunk \<Rightarrow> chunk_storage \<Rightarrow> chunk_storage" where
  "storage_cache c st =
     (let chunk_size = vec_len (ch_data c) in
      if hcontains (st_chunks st) (ch_hash c) \<or> chunk_size > st_max_cached_bytes st then st
      else
        (let (room, st') = cache_make_room chunk_size (st_lru st) st in
         if \<not> room then st'
         else st'\<lparr>st_lru := st_lru st' @ [ch_hash c],
                  st_chunks := hinsert (ch_hash c) \<lparr>ent_data = ch_data c, ent_pinned = False\<rparr> (st_chunks st'),
                  st_cached_bytes := st_cached_bytes st' + chunk_size\<rparr>))"

definition storage_get :: "chunk_hash \<Rightarrow> chunk_storage \<Rightarrow> bytes option \<times> chunk_storage" where
  "storage_get hash st =
     (case hget (st_chunks st) hash of
        None \<Rightarrow> (None, st)
      | Some entry \<Rightarrow>
          (Some (ent_data entry),
           if \<not> ent_pinned entry
           then st\<lparr>st_lru := filter (\<lambda>h. h \<noteq> hash) (st_lru st) @ [hash]\<rparr>
           else st))"

definition storage_contains :: "chunk_storage \<Rightarrow> chunk_hash \<Rightarrow> bool" where
  "storage_contains st hash = hcontains (st_chunks st) hash"

definition storage_is_pinned :: "chunk_storage \<Rightarrow> chunk_hash \<Rightarrow> bool" where
  "storage_is_pinned st hash =
     (case hget (st_chunks st) hash of None \<Rightarrow> False | Some entry \<Rightarrow> ent_pinned entry)"

definition storage_is_cached :: "chunk_storage \<Rightarrow> chunk_hash \<Rightarrow> bool" where
  "storage_is_cached st hash =
     (case hget (st_chunks st) hash of None \<Rightarrow> False | Some entry \<Rightarrow> \<not> ent_pinned entry)"

definition storage_pinned_hashes :: "chunk_storage \<Rightarrow> chunk_hash list" where
  "storage_pinned_hashes st = map fst (filter (\<lambda>(_, entry). ent_pinned entry) (st_chunks st))"

definition storage_promote_to_pinned :: "chunk_hash \<Rightarrow> chunk_storage \<Rightarrow> bool \<times> chunk_storage" where
  "storage_promote_to_pinned hash st =
     (case hget (st_chunks st) hash of
        None \<Rightarrow> (False, st)
      | Some entry \<Rightarrow>
          if ent_pinned entry then (True, st)
          else if st_pinned_bytes st + vec_len (ent_data entry) > st_max_pinned_bytes st then (False, st)
          else
            (let sz = vec_len (ent_data entry) in
             (True,
              st\<lparr>st_chunks := hmodify hash (\<lambda>e. e\<lparr>ent_pinned := True\<rparr>) (st_chunks st),
                 st_pinned_bytes := st_pinned_bytes st + sz,
                 st_cached_bytes := st_cached_bytes st - sz,
                 st_lru := filter (\<lambda>cached. cached \<noteq> hash) (st_lru st)\<rparr>)))"

definition storage_evict :: "chunk_hash \<Rightarrow> chunk_storage \<Rightarrow> bool \<times> chunk_storage" where
  "storage_evict hash st =
     (case hget (st_chunks st) hash of
        None \<Rightarrow> (False, st)
      | Some entry \<Rightarrow>
          (True,
           (let st' = st\<lparr>st_chunks := hremove hash (st_chunks st)\<rparr> in
            if ent_pinned entry
            then st'\<lparr>st_pinned_bytes := st_pinned_bytes st - vec_len (ent_data entry)\<rparr>
            else st'\<lparr>st_cached_bytes := st_cached_bytes st - vec_len (ent_data entry),
                     st_lru := filter (\<lambda>cached. cached \<noteq> hash) (st_lru st)\<rparr>)))"

section \<open>The invariant\<close>

definition pinned_len :: "chunk_hash \<Rightarrow> chunk_entry \<Rightarrow> nat" where
  "pinned_len h e = (if ent_pinned e then length (ent_data e) else 0)"

definition cached_len :: "chunk_hash \<Rightarrow> chunk_entry \<Rightarrow> nat" where
  "cached_len h e = (if ent_pinned e then 0 else length (ent_data e))"

definition pinned_total :: "chunk_storage \<Rightarrow> nat" where
  "pinned_total st = hsum pinned_len (st_chunks st)"

definition cached_total :: "chunk_storage \<Rightarrow> nat" where
  "cached_total st = hsum cached_len (st_chunks st)"

text \<open>The bookkeeping (counters modulo the word size, the queue lists the cached hashes), and
  the limits that make the counters exact.\<close>

definition storage_core :: "chunk_storage \<Rightarrow> bool" where
  "storage_core st \<longleftrightarrow>
     hwf (st_chunks st) \<and>
     st_pinned_bytes st = of_nat (pinned_total st) \<and>
     st_cached_bytes st = of_nat (cached_total st) \<and>
     distinct (st_lru st) \<and>
     set (st_lru st) = {h. storage_is_cached st h}"

definition storage_limits :: "chunk_storage \<Rightarrow> bool" where
  "storage_limits st \<longleftrightarrow>
     pinned_total st \<le> unat (st_max_pinned_bytes st) \<and>
     cached_total st \<le> unat (st_max_cached_bytes st) \<and>
     unat (st_max_cached_bytes st) < 2 ^ 63"

definition storage_inv :: "chunk_storage \<Rightarrow> bool" where
  "storage_inv st \<longleftrightarrow> storage_core st \<and> storage_limits st"

text \<open>Content addressing: every chunk is stored under the hash of its data.\<close>

definition chunk_ok :: "(bytes \<Rightarrow> bytes) \<Rightarrow> chunk \<Rightarrow> bool" where
  "chunk_ok sha c \<longleftrightarrow> ch_hash c = hash_of sha (ch_data c)"

definition content_addressed :: "(bytes \<Rightarrow> bytes) \<Rightarrow> chunk_storage \<Rightarrow> bool" where
  "content_addressed sha st \<longleftrightarrow>
     (\<forall>h e. hget (st_chunks st) h = Some e \<longrightarrow> h = hash_of sha (ent_data e))"

text \<open>What \<open>try_pin\<close> still has to pin: each hash once, at the size it would be stored at.\<close>

fun firsts :: "chunk list \<Rightarrow> chunk_hash set \<Rightarrow> chunk list" where
  "firsts [] seen = []"
| "firsts (c # cs) seen =
     (if ch_hash c \<in> seen then firsts cs seen else c # firsts cs (insert (ch_hash c) seen))"

definition pin_cost :: "(chunk_hash, chunk_entry) hmap \<Rightarrow> chunk \<Rightarrow> nat" where
  "pin_cost m c =
     (case hget m (ch_hash c) of None \<Rightarrow> length (ch_data c)
      | Some e \<Rightarrow> if ent_pinned e then 0 else length (ent_data e))"

definition required_bytes :: "chunk_storage \<Rightarrow> chunk list \<Rightarrow> nat" where
  "required_bytes st cs = (\<Sum>c\<leftarrow>firsts cs {}. pin_cost (st_chunks st) c)"

section \<open>Bookkeeping of each primitive step\<close>

lemma is_cached_iff: "storage_is_cached st h \<longleftrightarrow> (\<exists>e. hget (st_chunks st) h = Some e \<and> \<not> ent_pinned e)"
  by (auto simp: storage_is_cached_def split: option.splits)

lemma is_pinned_iff: "storage_is_pinned st h \<longleftrightarrow> (\<exists>e. hget (st_chunks st) h = Some e \<and> ent_pinned e)"
  by (auto simp: storage_is_pinned_def split: option.splits)

lemma core_hwf: "storage_core st \<Longrightarrow> hwf (st_chunks st)"
  by (simp add: storage_core_def)

lemma core_lru: "storage_core st \<Longrightarrow> h \<in> set (st_lru st) \<longleftrightarrow> storage_is_cached st h"
  by (simp add: storage_core_def)

lemma total_limits:
  "storage_core st \<Longrightarrow> hget (st_chunks st) h = Some e \<Longrightarrow> \<not> ent_pinned e \<Longrightarrow> length (ent_data e) \<le> cached_total st"
  "storage_core st \<Longrightarrow> hget (st_chunks st) h = Some e \<Longrightarrow> ent_pinned e \<Longrightarrow> length (ent_data e) \<le> pinned_total st"
  using hsum_le [of "st_chunks st" h e cached_len] hsum_le [of "st_chunks st" h e pinned_len]
  by (simp_all add: core_hwf cached_total_def pinned_total_def cached_len_def pinned_len_def)

lemma inv_counters:
  assumes "storage_inv st"
  shows "unat (st_pinned_bytes st) = pinned_total st" and "unat (st_cached_bytes st) = cached_total st"
  using assms unat_lt_2_64 [of "st_max_pinned_bytes st"] unat_lt_2_64 [of "st_max_cached_bytes st"]
  by (auto simp: storage_inv_def storage_core_def storage_limits_def intro!: unat_of_nat_u64)

lemma storage_core_new: "storage_core (storage_new m)"
  by (simp add: storage_core_def storage_new_def pinned_total_def cached_total_def is_cached_iff)

lemma pin_new_core:
  assumes "storage_core st" and "hget (st_chunks st) (ch_hash c) = None"
  shows "storage_core (pin_new c st)"
    and "pinned_total (pin_new c st) = pinned_total st + length (ch_data c)"
    and "cached_total (pin_new c st) = cached_total st"
proof -
  show p: "pinned_total (pin_new c st) = pinned_total st + length (ch_data c)"
    and q: "cached_total (pin_new c st) = cached_total st"
    using assms(2) by (simp_all add: pin_new_def pinned_total_def cached_total_def hsum_insert_fresh
      pinned_len_def cached_len_def)
  show "storage_core (pin_new c st)"
    using assms p q by (auto simp: storage_core_def pin_new_def is_cached_iff vec_len_def)
qed

lemma promote_core:
  assumes "storage_core st" and "hget (st_chunks st) h = Some e" and "\<not> ent_pinned e"
  shows "storage_core (pin_cached h st)"
    and "pinned_total (pin_cached h st) = pinned_total st + length (ent_data e)"
    and "cached_total (pin_cached h st) + length (ent_data e) = cached_total st"
proof -
  show p: "pinned_total (pin_cached h st) = pinned_total st + length (ent_data e)"
    and q: "cached_total (pin_cached h st) + length (ent_data e) = cached_total st"
    using assms(2,3)
      hsum_modify [OF core_hwf [OF assms(1)] assms(2), of pinned_len "\<lambda>e. e\<lparr>ent_pinned := True\<rparr>"]
      hsum_modify [OF core_hwf [OF assms(1)] assms(2), of cached_len "\<lambda>e. e\<lparr>ent_pinned := True\<rparr>"]
    by (simp_all add: pin_cached_def pinned_total_def cached_total_def pinned_len_def cached_len_def)
  have "st_cached_bytes (pin_cached h st) = of_nat (cached_total (pin_cached h st))"
    using of_nat_minus_len [OF q] assms by (simp add: storage_core_def pin_cached_def)
  moreover have "st_pinned_bytes (pin_cached h st) = of_nat (pinned_total (pin_cached h st))"
    unfolding p using assms by (simp add: storage_core_def pin_cached_def vec_len_def)
  moreover have "set (st_lru (pin_cached h st)) = {h'. storage_is_cached (pin_cached h st) h'}"
    using assms by (auto simp: storage_core_def pin_cached_def is_cached_iff)
  ultimately show "storage_core (pin_cached h st)"
    using assms(1,2) by (simp add: storage_core_def pin_cached_def)
qed

lemma remove_cached_core:
  assumes "storage_core st" and "hget (st_chunks st) h = Some e" and "\<not> ent_pinned e"
  defines "st' \<equiv> st\<lparr>st_chunks := hremove h (st_chunks st),
      st_cached_bytes := st_cached_bytes st - vec_len (ent_data e),
      st_lru := filter (\<lambda>c. c \<noteq> h) (st_lru st)\<rparr>"
  shows "storage_core st'" and "pinned_total st' = pinned_total st"
    and "cached_total st' + length (ent_data e) = cached_total st"
proof -
  show p: "pinned_total st' = pinned_total st"
    and q: "cached_total st' + length (ent_data e) = cached_total st"
    using assms(3) hsum_remove [OF core_hwf [OF assms(1)] assms(2)]
    by (simp_all add: st'_def pinned_total_def cached_total_def pinned_len_def cached_len_def)
  from of_nat_minus_len [OF q] have "st_cached_bytes st - vec_len (ent_data e) = of_nat (cached_total st')"
    using assms(1) by (simp add: storage_core_def)
  then show "storage_core st'"
    using assms(1) p by (auto simp: storage_core_def st'_def is_cached_iff)
qed

lemma remove_pinned_core:
  assumes "storage_core st" and "hget (st_chunks st) h = Some e" and "ent_pinned e"
  defines "st' \<equiv> st\<lparr>st_chunks := hremove h (st_chunks st),
      st_pinned_bytes := st_pinned_bytes st - vec_len (ent_data e)\<rparr>"
  shows "storage_core st'" and "pinned_total st' + length (ent_data e) = pinned_total st"
    and "cached_total st' = cached_total st"
proof -
  show p: "pinned_total st' + length (ent_data e) = pinned_total st"
    and q: "cached_total st' = cached_total st"
    using assms(3) hsum_remove [OF core_hwf [OF assms(1)] assms(2)]
    by (simp_all add: st'_def pinned_total_def cached_total_def pinned_len_def cached_len_def)
  from of_nat_minus_len [OF p] have "st_pinned_bytes st - vec_len (ent_data e) = of_nat (pinned_total st')"
    using assms(1) by (simp add: storage_core_def)
  then show "storage_core st'"
    using assms(1-3) q by (auto simp: storage_core_def st'_def is_cached_iff)
qed

section \<open>Pinning\<close>

text \<open>The scan, in closed form: each hash once, new chunks apart from cached ones.\<close>

definition scan_new :: "(chunk_hash, chunk_entry) hmap \<Rightarrow> chunk list \<Rightarrow> chunk list" where
  "scan_new m cs = filter (\<lambda>c. hget m (ch_hash c) = None) cs"

definition scan_cached :: "(chunk_hash, chunk_entry) hmap \<Rightarrow> chunk list \<Rightarrow> chunk_hash list" where
  "scan_cached m cs =
     map ch_hash (filter (\<lambda>c. \<exists>e. hget m (ch_hash c) = Some e \<and> \<not> ent_pinned e) cs)"

lemma pin_scan_eq:
  "pin_scan m cs seen req new cached =
    (req + of_nat (\<Sum>c\<leftarrow>firsts cs seen. pin_cost m c),
     new @ scan_new m (firsts cs seen), cached @ scan_cached m (firsts cs seen))"
  by (induction m cs seen req new cached rule: pin_scan.induct)
    (auto simp: Let_def scan_new_def scan_cached_def pin_cost_def vec_len_def split: option.splits)

lemma firsts_set: "ch_hash ` set (firsts cs seen) = ch_hash ` set cs - seen"
  by (induction cs seen rule: firsts.induct) auto

lemma firsts_subset: "set (firsts cs seen) \<subseteq> set cs"
  by (induction cs seen rule: firsts.induct) auto

lemma firsts_distinct: "distinct (map ch_hash (firsts cs seen))"
  using firsts_set by (induction cs seen rule: firsts.induct) fastforce+

lemma firsts_find:
  "h \<notin> seen \<Longrightarrow> find (\<lambda>c. ch_hash c = h) (firsts cs seen) = find (\<lambda>c. ch_hash c = h) cs"
  by (induction cs seen rule: firsts.induct) auto

lemma fold_pin_new:
  assumes "storage_core st" and "distinct (map ch_hash cs)"
    and "\<forall>c \<in> set cs. hget (st_chunks st) (ch_hash c) = None"
  defines "st' \<equiv> fold pin_new cs st"
  shows "storage_core st'" and "pinned_total st' = pinned_total st + (\<Sum>c\<leftarrow>cs. length (ch_data c))"
    and "cached_total st' = cached_total st" and "st_lru st' = st_lru st"
    and "st_max_pinned_bytes st' = st_max_pinned_bytes st"
    and "st_max_cached_bytes st' = st_max_cached_bytes st"
    and "hget (st_chunks st') h = (case find (\<lambda>c. ch_hash c = h) cs of
      Some c \<Rightarrow> Some \<lparr>ent_data = ch_data c, ent_pinned = True\<rparr> | None \<Rightarrow> hget (st_chunks st) h)"
proof -
  have "storage_core st' \<and> pinned_total st' = pinned_total st + (\<Sum>c\<leftarrow>cs. length (ch_data c)) \<and>
    cached_total st' = cached_total st \<and> st_lru st' = st_lru st \<and>
    st_max_pinned_bytes st' = st_max_pinned_bytes st \<and>
    st_max_cached_bytes st' = st_max_cached_bytes st \<and>
    hget (st_chunks st') h = (case find (\<lambda>c. ch_hash c = h) cs of
      Some c \<Rightarrow> Some \<lparr>ent_data = ch_data c, ent_pinned = True\<rparr> | None \<Rightarrow> hget (st_chunks st) h)"
    unfolding st'_def using assms(1-3)
  proof (induction cs arbitrary: st)
    case (Cons c cs)
    let ?st = "pin_new c st"
    have fields: "st_lru ?st = st_lru st" "st_max_pinned_bytes ?st = st_max_pinned_bytes st"
      "st_max_cached_bytes ?st = st_max_cached_bytes st"
      "\<And>k. hget (st_chunks ?st) k = (if k = ch_hash c
         then Some \<lparr>ent_data = ch_data c, ent_pinned = True\<rparr> else hget (st_chunks st) k)"
      by (simp_all add: pin_new_def)
    have fresh: "find (\<lambda>d. ch_hash d = ch_hash c) cs = None"
      using Cons.prems(2) by (simp add: find_None_iff) (metis image_eqI)
    have absent: "\<forall>d \<in> set cs. hget (st_chunks ?st) (ch_hash d) = None"
      using Cons.prems(3) fresh by (auto simp: fields find_None_iff)
    note core = pin_new_core [OF Cons.prems(1), of c]
    from Cons.IH [OF core(1) _ absent] Cons.prems(2,3) core(2,3) fresh fields show ?case
      by (auto split: option.splits)
  qed simp
  then show "storage_core st'" "pinned_total st' = pinned_total st + (\<Sum>c\<leftarrow>cs. length (ch_data c))"
    "cached_total st' = cached_total st" "st_lru st' = st_lru st"
    "st_max_pinned_bytes st' = st_max_pinned_bytes st"
    "st_max_cached_bytes st' = st_max_cached_bytes st"
    "hget (st_chunks st') h = (case find (\<lambda>c. ch_hash c = h) cs of
      Some c \<Rightarrow> Some \<lparr>ent_data = ch_data c, ent_pinned = True\<rparr> | None \<Rightarrow> hget (st_chunks st) h)"
    by blast+
qed

definition entry_len :: "chunk_storage \<Rightarrow> chunk_hash \<Rightarrow> nat" where
  "entry_len st h = (case hget (st_chunks st) h of None \<Rightarrow> 0 | Some e \<Rightarrow> length (ent_data e))"

lemma fold_pin_cached:
  assumes "storage_core st" and "distinct hs" and "\<forall>h \<in> set hs. storage_is_cached st h"
  defines "st' \<equiv> fold pin_cached hs st"
  shows "storage_core st'" and "pinned_total st' = pinned_total st + (\<Sum>h\<leftarrow>hs. entry_len st h)"
    and "cached_total st' \<le> cached_total st" and "st_lru st' = filter (\<lambda>h. h \<notin> set hs) (st_lru st)"
    and "st_max_pinned_bytes st' = st_max_pinned_bytes st"
    and "st_max_cached_bytes st' = st_max_cached_bytes st"
    and "hget (st_chunks st') h = (if h \<in> set hs
      then map_option (\<lambda>e. e\<lparr>ent_pinned := True\<rparr>) (hget (st_chunks st) h) else hget (st_chunks st) h)"
proof -
  have "storage_core st' \<and> pinned_total st' = pinned_total st + (\<Sum>h\<leftarrow>hs. entry_len st h) \<and>
    cached_total st' \<le> cached_total st \<and> st_lru st' = filter (\<lambda>h. h \<notin> set hs) (st_lru st) \<and>
    st_max_pinned_bytes st' = st_max_pinned_bytes st \<and>
    st_max_cached_bytes st' = st_max_cached_bytes st \<and>
    hget (st_chunks st') h = (if h \<in> set hs
      then map_option (\<lambda>e. e\<lparr>ent_pinned := True\<rparr>) (hget (st_chunks st) h) else hget (st_chunks st) h)"
    unfolding st'_def using assms(1-3)
  proof (induction hs arbitrary: st)
    case (Cons k hs)
    let ?st = "pin_cached k st"
    from Cons.prems(3) obtain e where e: "hget (st_chunks st) k = Some e" "\<not> ent_pinned e"
      by (auto simp: is_cached_iff)
    have fields: "st_lru ?st = filter (\<lambda>h. h \<noteq> k) (st_lru st)"
      "st_max_pinned_bytes ?st = st_max_pinned_bytes st"
      "st_max_cached_bytes ?st = st_max_cached_bytes st"
      "\<And>j. hget (st_chunks ?st) j = (if j = k then Some (e\<lparr>ent_pinned := True\<rparr>) else hget (st_chunks st) j)"
      using e by (simp_all add: pin_cached_def)
    have len: "entry_len ?st j = entry_len st j" for j
      using e by (simp add: entry_len_def fields)
    have others: "\<forall>j \<in> set hs. storage_is_cached ?st j"
      using Cons.prems(2,3) by (auto simp: is_cached_iff fields)
    from Cons.IH [OF promote_core(1) [OF Cons.prems(1) e] _ others] Cons.prems(2)
      promote_core(2,3) [OF Cons.prems(1) e]
    show ?case by (auto simp: fields len e entry_len_def [of st k] conj_commute)
  qed simp
  then show "storage_core st'" "pinned_total st' = pinned_total st + (\<Sum>h\<leftarrow>hs. entry_len st h)"
    "cached_total st' \<le> cached_total st" "st_lru st' = filter (\<lambda>h. h \<notin> set hs) (st_lru st)"
    "st_max_pinned_bytes st' = st_max_pinned_bytes st"
    "st_max_cached_bytes st' = st_max_cached_bytes st"
    "hget (st_chunks st') h = (if h \<in> set hs
      then map_option (\<lambda>e. e\<lparr>ent_pinned := True\<rparr>) (hget (st_chunks st) h) else hget (st_chunks st) h)"
    by blast+
qed

text \<open>The bytes to pin are those of the new chunks and those of the cached entries.\<close>

lemma sum_pin_cost:
  "(\<Sum>c\<leftarrow>cs. pin_cost (st_chunks st) c) =
    (\<Sum>c\<leftarrow>scan_new (st_chunks st) cs. length (ch_data c)) +
    (\<Sum>h\<leftarrow>scan_cached (st_chunks st) cs. entry_len st h)"
  by (induction cs)
    (auto simp: pin_cost_def scan_new_def scan_cached_def entry_len_def split: option.splits)

lemma find_scan_new:
  "hget m h = None \<Longrightarrow> find (\<lambda>c. ch_hash c = h) (scan_new m cs) = find (\<lambda>c. ch_hash c = h) cs"
  "hget m h = Some e \<Longrightarrow> find (\<lambda>c. ch_hash c = h) (scan_new m cs) = None"
  by (induction cs) (auto simp: scan_new_def)

lemma scan_cached_set:
  "set (scan_cached m cs) = {h \<in> ch_hash ` set cs. \<exists>e. hget m h = Some e \<and> \<not> ent_pinned e}"
  by (auto simp: scan_cached_def)

text \<open>What a successful \<open>try_pin\<close> leaves behind.\<close>

lemma try_pin_effect:
  fixes cs :: "chunk list"
  assumes "storage_core st"
  defines "st1 \<equiv> fold pin_new (scan_new (st_chunks st) (firsts cs {})) st"
  defines "st' \<equiv> fold pin_cached (scan_cached (st_chunks st) (firsts cs {})) st1"
  shows "storage_core st'" and "pinned_total st' = pinned_total st + required_bytes st cs"
    and "cached_total st' \<le> cached_total st"
    and "st_lru st' = filter (\<lambda>h. h \<notin> ch_hash ` set cs) (st_lru st)"
    and "st_max_pinned_bytes st' = st_max_pinned_bytes st"
    and "st_max_cached_bytes st' = st_max_cached_bytes st"
    and "hget (st_chunks st') h = (case hget (st_chunks st) h of
        Some e \<Rightarrow> Some (if h \<in> ch_hash ` set cs then e\<lparr>ent_pinned := True\<rparr> else e)
      | None \<Rightarrow> map_option (\<lambda>c. \<lparr>ent_data = ch_data c, ent_pinned = True\<rparr>) (find (\<lambda>c. ch_hash c = h) cs))"
proof -
  let ?m = "st_chunks st" and ?fs = "firsts cs {}"
  have new: "distinct (map ch_hash (scan_new ?m ?fs))"
      "\<forall>c \<in> set (scan_new ?m ?fs). hget ?m (ch_hash c) = None"
    and dc: "distinct (scan_cached ?m ?fs)"
    using firsts_distinct [of cs "{}"] by (auto simp: scan_new_def scan_cached_def distinct_map_filter)
  note one = fold_pin_new [OF assms(1) new, folded st1_def]
  have lookup1: "hget (st_chunks st1) k = (case hget ?m k of Some e \<Rightarrow> Some e
    | None \<Rightarrow> map_option (\<lambda>c. \<lparr>ent_data = ch_data c, ent_pinned = True\<rparr>) (find (\<lambda>c. ch_hash c = k) cs))" for k
    unfolding one(7) by (cases "hget ?m k") (auto simp: find_scan_new firsts_find split: option.splits)
  have cached: "k \<in> set (scan_cached ?m ?fs) \<longleftrightarrow> k \<in> ch_hash ` set cs \<and> storage_is_cached st k" for k
    by (simp add: scan_cached_set firsts_set is_cached_iff)
  have c1: "\<forall>k \<in> set (scan_cached ?m ?fs). storage_is_cached st1 k"
    by (auto simp: cached is_cached_iff lookup1)
  have len: "entry_len st1 k = entry_len st k" if "k \<in> set (scan_cached ?m ?fs)" for k
    using that unfolding cached by (auto simp: entry_len_def lookup1 is_cached_iff)
  note two = fold_pin_cached [OF one(1) dc c1, folded st'_def]
  show "storage_core st'" by (rule two(1))
  show "pinned_total st' = pinned_total st + required_bytes st cs"
    unfolding two(2) one(2) required_bytes_def sum_pin_cost
    using len by (simp cong: map_cong)
  show "cached_total st' \<le> cached_total st" using two(3) one(3) by simp
  show "st_lru st' = filter (\<lambda>h. h \<notin> ch_hash ` set cs) (st_lru st)"
    unfolding two(4) one(4) using core_lru [OF assms(1)] by (auto simp: cached intro!: filter_cong)
  show "st_max_pinned_bytes st' = st_max_pinned_bytes st"
    "st_max_cached_bytes st' = st_max_cached_bytes st" by (simp_all add: one two)
  have pin_id: "e\<lparr>ent_pinned := True\<rparr> = e" if "ent_pinned e" for e :: chunk_entry
    using that by (cases e) simp
  show "hget (st_chunks st') h = (case hget (st_chunks st) h of
        Some e \<Rightarrow> Some (if h \<in> ch_hash ` set cs then e\<lparr>ent_pinned := True\<rparr> else e)
      | None \<Rightarrow> map_option (\<lambda>c. \<lparr>ent_data = ch_data c, ent_pinned = True\<rparr>) (find (\<lambda>c. ch_hash c = h) cs))"
    unfolding two(7) cached by (auto simp: lookup1 is_cached_iff pin_id split: option.splits)
qed

text \<open>The bytes in play fit the address space; then the check of \<open>try_pin\<close> is exact.\<close>

definition pin_addressable :: "chunk_storage \<Rightarrow> chunk list \<Rightarrow> bool" where
  "pin_addressable st cs \<longleftrightarrow> pinned_total st + required_bytes st cs < 2 ^ 64"

lemma try_pin_cases:
  assumes "storage_inv st" and "pin_addressable st cs"
  shows "storage_try_pin cs st =
    (if pinned_total st + required_bytes st cs \<le> unat (st_max_pinned_bytes st)
     then (Ok (), fold pin_cached (scan_cached (st_chunks st) (firsts cs {}))
             (fold pin_new (scan_new (st_chunks st) (firsts cs {})) st))
     else (Err StoreFull, st))"
proof -
  have "st_pinned_bytes st + of_nat (required_bytes st cs) = of_nat (pinned_total st + required_bytes st cs)"
    using assms(1) by (simp add: storage_inv_def storage_core_def)
  then have "unat (st_pinned_bytes st + of_nat (required_bytes st cs)) = pinned_total st + required_bytes st cs"
    using assms(2) by (simp only: pin_addressable_def unat_of_nat_u64)
  then show ?thesis
    by (auto simp: storage_try_pin_def pin_scan_eq word_less_nat_alt required_bytes_def)
qed

lemma try_pin_inv:
  assumes "storage_inv st" and "pin_addressable st cs"
  shows "storage_inv (snd (storage_try_pin cs st))"
  using try_pin_effect [of st cs] assms
  by (auto simp: try_pin_cases storage_inv_def storage_limits_def)

lemma try_pin_Ok:
  assumes "storage_inv st" and "pin_addressable st cs" and "storage_try_pin cs st = (Ok (), st')"
  shows "hget (st_chunks st') h = (case hget (st_chunks st) h of
        Some e \<Rightarrow> Some (if h \<in> ch_hash ` set cs then e\<lparr>ent_pinned := True\<rparr> else e)
      | None \<Rightarrow> map_option (\<lambda>c. \<lparr>ent_data = ch_data c, ent_pinned = True\<rparr>) (find (\<lambda>c. ch_hash c = h) cs))"
    and "pinned_total st' = pinned_total st + required_bytes st cs"
    and "st_lru st' = filter (\<lambda>h. h \<notin> ch_hash ` set cs) (st_lru st)"
    and "st_max_pinned_bytes st' = st_max_pinned_bytes st"
    and "st_max_cached_bytes st' = st_max_cached_bytes st"
  using try_pin_effect [of st cs] assms by (auto simp: try_pin_cases storage_inv_def split: if_splits)

lemma try_pin_Err:
  "storage_try_pin cs st = (Err e, st') \<Longrightarrow> st' = st"
  by (auto simp: storage_try_pin_def split: prod.splits if_splits)

lemma find_hash_Some:
  "h \<in> ch_hash ` set cs \<Longrightarrow> \<exists>c. find (\<lambda>c. ch_hash c = h) cs = Some c \<and> c \<in> set cs \<and> ch_hash c = h"
  by (induction cs) auto

lemma find_hash_None: "h \<notin> ch_hash ` set cs \<Longrightarrow> find (\<lambda>c. ch_hash c = h) cs = None"
  by (induction cs) auto

lemma try_pin_content:
  assumes "content_addressed sha st" and "\<forall>c \<in> set cs. chunk_ok sha c"
    and "storage_inv st" and "pin_addressable st cs"
  shows "content_addressed sha (snd (storage_try_pin cs st))"
proof (cases "storage_try_pin cs st")
  case (Pair r st')
  show ?thesis
  proof (cases r)
    case (Inr u)
    with Pair have ok: "storage_try_pin cs st = (Ok (), st')" by simp
    have "h = hash_of sha (ent_data e)" if e: "hget (st_chunks st') h = Some e" for h e
    proof (cases "hget (st_chunks st) h")
      case None
      with e try_pin_Ok(1) [OF assms(3,4) ok, of h] obtain c where
        "find (\<lambda>c. ch_hash c = h) cs = Some c" "ent_data e = ch_data c" by auto
      then have "c \<in> set cs" "ch_hash c = h" by (auto simp: find_Some_iff)
      with assms(2) \<open>ent_data e = ch_data c\<close> show ?thesis by (auto simp: chunk_ok_def)
    next
      case (Some e')
      with e try_pin_Ok(1) [OF assms(3,4) ok, of h] have "ent_data e = ent_data e'" by auto
      with assms(1) Some show ?thesis by (simp add: content_addressed_def)
    qed
    with Pair show ?thesis by (simp add: content_addressed_def)
  qed (use Pair try_pin_Err assms(1) in auto)
qed

section \<open>The cache and its eviction order\<close>

lemma cached_total_lru:
  assumes "storage_core st"
  shows "cached_total st = (\<Sum>h\<leftarrow>st_lru st. entry_len st h)"
proof -
  let ?m = "st_chunks st"
  have "cached_total st = (\<Sum>k\<in>fst ` set ?m. cached_len k (the (hget ?m k)))"
    using assms by (simp add: cached_total_def hsum_keys core_hwf)
  also have "\<dots> = (\<Sum>k\<in>set (st_lru st). cached_len k (the (hget ?m k)))"
    using core_lru [OF assms]
    by (intro sum.mono_neutral_right) (auto simp: hkeys_iff is_cached_iff cached_len_def)
  also have "\<dots> = (\<Sum>k\<in>set (st_lru st). entry_len st k)"
    using core_lru [OF assms]
    by (intro sum.cong refl) (auto simp: is_cached_iff cached_len_def entry_len_def)
  also have "\<dots> = (\<Sum>h\<leftarrow>st_lru st. entry_len st h)"
    using assms by (simp add: storage_core_def sum_list_distinct_conv_sum_set)
  finally show ?thesis .
qed

text \<open>The longest suffix of a queue of chunks that fits a limit: what eviction keeps.\<close>

fun lru_fit :: "nat \<Rightarrow> (chunk_hash \<times> bytes) list \<Rightarrow> (chunk_hash \<times> bytes) list" where
  "lru_fit limit [] = []"
| "lru_fit limit (x # xs) =
     (if (\<Sum>(h, d)\<leftarrow>x # xs. length d) \<le> limit then x # xs else lru_fit limit xs)"

lemma lru_fit_minimal:
  "\<exists>ys. xs = ys @ lru_fit limit xs \<and>
    (ys \<noteq> [] \<longrightarrow> limit < (\<Sum>(h, d)\<leftarrow>last ys # lru_fit limit xs. length d))"
proof (induction xs)
  case (Cons x xs)
  show ?case
  proof (cases "(\<Sum>(h, d)\<leftarrow>x # xs. length d) \<le> limit")
    case False
    from Cons obtain ys where ys: "xs = ys @ lru_fit limit xs"
      "ys \<noteq> [] \<longrightarrow> limit < (\<Sum>(h, d)\<leftarrow>last ys # lru_fit limit xs. length d)" by blast
    have eq: "lru_fit limit (x # xs) = lru_fit limit xs" using False by simp
    show ?thesis
      unfolding eq
    proof (intro exI [of _ "x # ys"] conjI impI)
      show "x # xs = (x # ys) @ lru_fit limit xs" using ys(1) by simp
      show "limit < (\<Sum>(h, d)\<leftarrow>last (x # ys) # lru_fit limit xs. length d)"
        using ys False by (cases "ys = []") auto
    qed
  qed simp
qed simp

lemma lru_fit_total: "(\<Sum>(h, d)\<leftarrow>lru_fit limit xs. length d) \<le> limit"
  by (induction xs) auto

definition entry_data :: "chunk_storage \<Rightarrow> chunk_hash \<Rightarrow> bytes" where
  "entry_data st h = (case hget (st_chunks st) h of None \<Rightarrow> [] | Some e \<Rightarrow> ent_data e)"

definition cache_view :: "chunk_storage \<Rightarrow> (chunk_hash \<times> bytes) list" where
  "cache_view st = map (\<lambda>h. (h, entry_data st h)) (st_lru st)"

lemma entry_len_data: "entry_len st h = length (entry_data st h)"
  by (simp add: entry_len_def entry_data_def split: option.splits)

lemma cache_view_total:
  "storage_core st \<Longrightarrow> (\<Sum>(h, d)\<leftarrow>cache_view st. length d) = cached_total st"
  by (simp add: cached_total_lru cache_view_def comp_def entry_len_data)

lemma make_room_effect:
  assumes "storage_core (st\<lparr>st_lru := lru\<rparr>)" and "cached_total st \<le> unat (st_max_cached_bytes st)"
    and "unat sz \<le> unat (st_max_cached_bytes st)" and "unat (st_max_cached_bytes st) < 2 ^ 63"
    and "cache_make_room sz lru st = (room, st')"
  shows "room \<and> storage_core st' \<and>
    cache_view st' = lru_fit (unat (st_max_cached_bytes st) - unat sz) (cache_view (st\<lparr>st_lru := lru\<rparr>)) \<and>
    hget (st_chunks st') h =
      (if h \<in> set lru - set (st_lru st') then None else hget (st_chunks st) h) \<and>
    set (st_lru st') \<subseteq> set lru \<and>
    st_max_cached_bytes st' = st_max_cached_bytes st \<and> st_max_pinned_bytes st' = st_max_pinned_bytes st \<and>
    pinned_total st' = pinned_total st \<and> st_pinned_bytes st' = st_pinned_bytes st"
  using assms
proof (induction sz lru st rule: cache_make_room.induct)
  case (1 sz st)
  from "1.prems"(1) have "cached_total st = 0" "st_cached_bytes st = 0"
    using cached_total_lru [of "st\<lparr>st_lru := []\<rparr>"]
    by (simp_all add: storage_core_def cached_total_def)
  with "1.prems" show ?case
    by (auto simp: cache_view_def word_less_nat_alt pinned_total_def)
next
  case (2 sz k lru st)
  let ?s = "st\<lparr>st_lru := k # lru\<rparr>" and ?max = "unat (st_max_cached_bytes st)"
  have tot: "cached_total ?s = cached_total st" by (simp add: cached_total_def)
  from "2.prems"(1) have cb: "st_cached_bytes st = of_nat (cached_total st)"
    by (simp add: storage_core_def tot)
  have ct: "cached_total st < 2 ^ 63" using "2.prems"(2,4) by simp
  then have "unat (st_cached_bytes st) = cached_total st" by (simp add: cb unat_of_nat_u64)
  then have sum: "unat (st_cached_bytes st + sz) = cached_total st + unat sz"
    using ct "2.prems"(3,4) by (intro trans [OF unat_add_no_overflow]) auto
  have view: "(\<Sum>(h, d)\<leftarrow>cache_view ?s. length d) = cached_total st"
    using cache_view_total [OF "2.prems"(1)] tot by simp
  have cons: "cache_view ?s = (k, entry_data st k) # cache_view (st\<lparr>st_lru := lru\<rparr>)"
    by (simp add: cache_view_def entry_data_def)
  show ?case
  proof (cases "st_cached_bytes st + sz > st_max_cached_bytes st")
    case False
    then have "cached_total st + unat sz \<le> ?max" by (simp add: word_less_nat_alt sum)
    then have "cached_total st \<le> ?max - unat sz" by linarith
    then have "lru_fit (?max - unat sz) (cache_view ?s) = cache_view ?s"
      using view unfolding cons by simp
    with False "2.prems"(1,5) show ?thesis by (auto simp: pinned_total_def)
  next
    case True
    then have over: "?max < cached_total st + unat sz" by (simp add: word_less_nat_alt sum)
    then have drop: "lru_fit (?max - unat sz) (cache_view ?s)
        = lru_fit (?max - unat sz) (cache_view (st\<lparr>st_lru := lru\<rparr>))"
      using view "2.prems"(3) unfolding cons by auto
    have "storage_is_cached ?s k" using core_lru [OF "2.prems"(1), of k] by simp
    then obtain e where e: "hget (st_chunks st) k = Some e" "\<not> ent_pinned e" by (auto simp: is_cached_iff)
    let ?t = "st\<lparr>st_chunks := hremove k (st_chunks st),
        st_cached_bytes := st_cached_bytes st - vec_len (ent_data e)\<rparr>"
    have klru: "k \<notin> set lru" "distinct lru" using "2.prems"(1) by (simp_all add: storage_core_def)
    then have flt: "filter (\<lambda>c. c \<noteq> k) lru = lru" by (auto simp: filter_id_conv)
    from remove_cached_core [OF "2.prems"(1), of k e] e have
      core: "storage_core (?t\<lparr>st_lru := lru\<rparr>)" and pt: "pinned_total ?t = pinned_total st"
      and ctt: "cached_total ?t \<le> cached_total st"
      by (simp_all add: flt pinned_total_def cached_total_def)
    have view': "cache_view (?t\<lparr>st_lru := lru\<rparr>) = cache_view (st\<lparr>st_lru := lru\<rparr>)"
      using klru(1) by (auto simp: cache_view_def entry_data_def)
    from True e have "cache_make_room sz lru ?t = (room, st')" using "2.prems"(5) by simp
    with "2.IH"(2) [OF True e(1) core] ctt "2.prems"(2-4) have
      ih: "room \<and> storage_core st' \<and> cache_view st' = lru_fit (?max - unat sz) (cache_view (?t\<lparr>st_lru := lru\<rparr>)) \<and>
        hget (st_chunks st') h = (if h \<in> set lru - set (st_lru st') then None else hget (st_chunks ?t) h) \<and>
        set (st_lru st') \<subseteq> set lru \<and> st_max_cached_bytes st' = st_max_cached_bytes st \<and>
        st_max_pinned_bytes st' = st_max_pinned_bytes st \<and>
        pinned_total st' = pinned_total ?t \<and> st_pinned_bytes st' = st_pinned_bytes st"
      by simp
    with klru pt view' drop show ?thesis by (auto split: if_splits)
  qed
qed

text \<open>\<open>cache\<close> as a whole, when it inserts.\<close>

lemma storage_cache_skip:
  "storage_contains st (ch_hash c) \<or> vec_len (ch_data c) > st_max_cached_bytes st \<Longrightarrow> storage_cache c st = st"
  by (auto simp: storage_cache_def storage_contains_def)

lemma storage_cache_effect:
  assumes "storage_inv st" and "vec_ok (ch_data c)" and "\<not> storage_contains st (ch_hash c)"
    and "length (ch_data c) \<le> unat (st_max_cached_bytes st)"
  defines "st' \<equiv> storage_cache c st"
  shows "storage_inv st'"
    and "cache_view st' =
      lru_fit (unat (st_max_cached_bytes st) - length (ch_data c)) (cache_view st) @ [(ch_hash c, ch_data c)]"
    and "hget (st_chunks st') h = (if h = ch_hash c then Some \<lparr>ent_data = ch_data c, ent_pinned = False\<rparr>
      else if h \<in> set (st_lru st) - set (st_lru st') then None else hget (st_chunks st) h)"
    and "set (st_lru st') \<subseteq> insert (ch_hash c) (set (st_lru st))"
    and "st_max_cached_bytes st' = st_max_cached_bytes st"
    and "st_max_pinned_bytes st' = st_max_pinned_bytes st"
    and "pinned_total st' = pinned_total st"
proof -
  let ?k = "ch_hash c" and ?sz = "vec_len (ch_data c)" and ?max = "unat (st_max_cached_bytes st)"
  have len: "unat ?sz = length (ch_data c)" using assms(2) by (rule unat_vec_len)
  have lims: "cached_total st \<le> ?max" "?max < 2 ^ 63" and core: "storage_core st"
    using assms(1) by (simp_all add: storage_inv_def storage_limits_def)
  obtain room s where s: "cache_make_room ?sz (st_lru st) st = (room, s)" by force
  have "unat ?sz \<le> ?max" using assms(4) len by simp
  from make_room_effect [OF _ lims(1) this lims(2) s] core have
    room: "room" and cs: "storage_core s"
    and view: "cache_view s = lru_fit (?max - length (ch_data c)) (cache_view st)"
    and look: "\<And>h. hget (st_chunks s) h =
        (if h \<in> set (st_lru st) - set (st_lru s) then None else hget (st_chunks st) h)"
    and sub: "set (st_lru s) \<subseteq> set (st_lru st)"
    and maxs: "st_max_cached_bytes s = st_max_cached_bytes st" "st_max_pinned_bytes s = st_max_pinned_bytes st"
    and pt: "pinned_total s = pinned_total st" "st_pinned_bytes s = st_pinned_bytes st"
    by (simp_all add: len)
  let ?s' = "s\<lparr>st_lru := st_lru s @ [?k],
      st_chunks := hinsert ?k \<lparr>ent_data = ch_data c, ent_pinned = False\<rparr> (st_chunks s),
      st_cached_bytes := st_cached_bytes s + ?sz\<rparr>"
  have st': "st' = ?s'"
    using assms(3) room s \<open>unat ?sz \<le> ?max\<close>
    by (simp add: st'_def storage_cache_def storage_contains_def word_less_nat_alt not_less)
  have absent: "hget (st_chunks s) ?k = None" "?k \<notin> set (st_lru st)"
    using assms(3) core_lru [OF core, of ?k]
    by (auto simp: look storage_contains_def hcontains_def is_cached_iff)
  then have klru: "?k \<notin> set (st_lru s)" using sub by blast
  have pt': "pinned_total ?s' = pinned_total s"
    and ct': "cached_total ?s' = cached_total s + length (ch_data c)"
    using absent(1) by (simp_all add: pinned_total_def cached_total_def hsum_insert_fresh pinned_len_def cached_len_def)
  have core': "storage_core ?s'"
    unfolding storage_core_def pt' ct'
    using cs absent klru by (auto simp: storage_core_def is_cached_iff vec_len_def)
  have "(\<Sum>(h, d)\<leftarrow>cache_view s. length d) \<le> ?max - length (ch_data c)"
    unfolding view by (rule lru_fit_total)
  then have "cached_total s \<le> ?max - length (ch_data c)" using cache_view_total [OF cs] by simp
  with core' show "storage_inv st'"
    using assms(1,4) pt' ct' pt by (simp add: st' storage_inv_def storage_limits_def maxs)
  show "cache_view st' = lru_fit (?max - length (ch_data c)) (cache_view st) @ [(?k, ch_data c)]"
    unfolding view [symmetric] using klru by (auto simp: st' cache_view_def entry_data_def)
  show "hget (st_chunks st') h = (if h = ?k then Some \<lparr>ent_data = ch_data c, ent_pinned = False\<rparr>
      else if h \<in> set (st_lru st) - set (st_lru st') then None else hget (st_chunks st) h)"
    by (auto simp: st' look)
  show "set (st_lru st') \<subseteq> insert ?k (set (st_lru st))" using sub by (auto simp: st')
  show "st_max_cached_bytes st' = st_max_cached_bytes st"
    "st_max_pinned_bytes st' = st_max_pinned_bytes st" "pinned_total st' = pinned_total st"
    using pt pt' by (simp_all add: st' maxs)
qed

section \<open>The other operations\<close>

lemma get_inv:
  assumes "storage_inv st"
  shows "storage_inv (snd (storage_get h st))"
    and "st_chunks (snd (storage_get h st)) = st_chunks st"
    and "fst (storage_get h st) = map_option ent_data (hget (st_chunks st) h)"
proof -
  show ch: "st_chunks (snd (storage_get h st)) = st_chunks st"
    by (simp add: storage_get_def split: option.splits)
  show "fst (storage_get h st) = map_option ent_data (hget (st_chunks st) h)"
    by (simp add: storage_get_def split: option.splits)
  show "storage_inv (snd (storage_get h st))"
  proof (cases "storage_is_cached st h")
    case True
    then obtain e where e: "hget (st_chunks st) h = Some e" "\<not> ent_pinned e" by (auto simp: is_cached_iff)
    then show ?thesis
      using assms core_lru [of st h] True
      by (auto simp: storage_inv_def storage_core_def storage_limits_def storage_get_def
          pinned_total_def cached_total_def is_cached_iff)
  next
    case False
    then have "snd (storage_get h st) = st"
      by (auto simp: storage_get_def is_cached_iff split: option.splits)
    with assms show ?thesis by simp
  qed
qed

lemma promote_cases:
  assumes "storage_inv st" and "pinned_total st + entry_len st h < 2 ^ 64"
  shows "storage_promote_to_pinned h st =
    (case hget (st_chunks st) h of None \<Rightarrow> (False, st)
     | Some e \<Rightarrow> if ent_pinned e then (True, st)
        else if pinned_total st + length (ent_data e) \<le> unat (st_max_pinned_bytes st)
        then (True, pin_cached h st) else (False, st))"
proof (cases "hget (st_chunks st) h")
  case (Some e)
  have "st_pinned_bytes st + vec_len (ent_data e) = of_nat (pinned_total st + length (ent_data e))"
    using assms(1) by (simp add: storage_inv_def storage_core_def vec_len_def)
  then have "unat (st_pinned_bytes st + vec_len (ent_data e)) = pinned_total st + length (ent_data e)"
    using assms(2) Some by (simp only: entry_len_def option.case unat_of_nat_u64)
  with Some show ?thesis
    by (auto simp: storage_promote_to_pinned_def pin_cached_def word_less_nat_alt Let_def)
qed (simp add: storage_promote_to_pinned_def)

lemma promote_inv:
  assumes "storage_inv st" and "pinned_total st + entry_len st h < 2 ^ 64"
  shows "storage_inv (snd (storage_promote_to_pinned h st))"
proof -
  have "storage_inv (pin_cached h st)"
    if "hget (st_chunks st) h = Some e" "\<not> ent_pinned e"
      "pinned_total st + length (ent_data e) \<le> unat (st_max_pinned_bytes st)" for e
    using promote_core [of st h e] that assms(1)
    by (auto simp: storage_inv_def storage_limits_def) (auto simp: pin_cached_def)
  with assms show ?thesis by (auto simp: promote_cases split: option.splits)
qed

lemma evict_inv:
  assumes "storage_inv st"
  shows "storage_inv (snd (storage_evict h st))"
    and "hget (st_chunks (snd (storage_evict h st))) k = (if k = h then None else hget (st_chunks st) k)"
    and "pinned_total (snd (storage_evict h st)) + (if storage_is_pinned st h then entry_len st h else 0)
       = pinned_total st"
    and "fst (storage_evict h st) = storage_contains st h"
proof -
  have core: "storage_core st" using assms by (simp add: storage_inv_def)
  have "storage_inv (snd (storage_evict h st)) \<and>
    pinned_total (snd (storage_evict h st)) + (if storage_is_pinned st h then entry_len st h else 0)
       = pinned_total st"
  proof (cases "hget (st_chunks st) h")
    case (Some e)
    then show ?thesis
      using remove_cached_core [OF core Some] remove_pinned_core [OF core Some] assms
      by (cases "ent_pinned e")
        (auto simp: storage_evict_def storage_inv_def storage_limits_def is_pinned_iff entry_len_def
           pinned_total_def cached_total_def)
  qed (use assms in \<open>simp add: storage_evict_def is_pinned_iff\<close>)
  then show "storage_inv (snd (storage_evict h st))"
    "pinned_total (snd (storage_evict h st)) + (if storage_is_pinned st h then entry_len st h else 0)
       = pinned_total st" by auto
  show "hget (st_chunks (snd (storage_evict h st))) k = (if k = h then None else hget (st_chunks st) k)"
    by (auto simp: storage_evict_def Let_def split: option.splits)
  show "fst (storage_evict h st) = storage_contains st h"
    by (simp add: storage_evict_def storage_contains_def hcontains_def split: option.splits)
qed

section \<open>Abstract store and refinement\<close>

text \<open>
  What the store promises, without entries, flags and machine counters: a finite amount of
  capacity filled by pinned chunks, and a queue of cached chunks, least recently used first.
\<close>

record chunk_view =
  v_pinned :: "chunk_hash \<rightharpoonup> bytes"
  v_used :: nat
  v_cache :: "(chunk_hash \<times> bytes) list"
  v_capacity :: nat
  v_cache_limit :: nat

definition v_lookup :: "chunk_view \<Rightarrow> chunk_hash \<Rightarrow> bytes option" where
  "v_lookup v h = (case v_pinned v h of Some d \<Rightarrow> Some d | None \<Rightarrow> map_of (v_cache v) h)"

definition v_drop :: "chunk_hash set \<Rightarrow> (chunk_hash \<times> bytes) list \<Rightarrow> (chunk_hash \<times> bytes) list" where
  "v_drop H q = filter (\<lambda>(h, _). h \<notin> H) q"

definition v_cost :: "chunk_view \<Rightarrow> chunk \<Rightarrow> nat" where
  "v_cost v c = (case v_pinned v (ch_hash c) of Some _ \<Rightarrow> 0
     | None \<Rightarrow> (case map_of (v_cache v) (ch_hash c) of Some d \<Rightarrow> length d | None \<Rightarrow> length (ch_data c)))"

datatype storage_op =
    TryPin "chunk list" | CacheChunk chunk | GetChunk chunk_hash | Promote chunk_hash | Evict chunk_hash

datatype storage_reply = PinReply "(unit, storage_error) result" | DataReply "bytes option" | BoolReply bool | NoReply

fun storage_step :: "storage_op \<Rightarrow> chunk_storage \<Rightarrow> storage_reply \<times> chunk_storage" where
  "storage_step (TryPin cs) st = (let (r, st') = storage_try_pin cs st in (PinReply r, st'))"
| "storage_step (CacheChunk c) st = (NoReply, storage_cache c st)"
| "storage_step (GetChunk h) st = (let (r, st') = storage_get h st in (DataReply r, st'))"
| "storage_step (Promote h) st = (let (r, st') = storage_promote_to_pinned h st in (BoolReply r, st'))"
| "storage_step (Evict h) st = (let (r, st') = storage_evict h st in (BoolReply r, st'))"

fun view_step :: "storage_op \<Rightarrow> chunk_view \<Rightarrow> storage_reply \<times> chunk_view" where
  "view_step (TryPin cs) v =
     (let need = (\<Sum>c\<leftarrow>firsts cs {}. v_cost v c); H = ch_hash ` set cs in
      if v_used v + need \<le> v_capacity v
      then (PinReply (Ok ()),
        v\<lparr>v_pinned := (\<lambda>h. if h \<in> H
             then (case v_lookup v h of Some d \<Rightarrow> Some d
                   | None \<Rightarrow> map_option ch_data (find (\<lambda>c. ch_hash c = h) cs))
             else v_pinned v h),
          v_used := v_used v + need, v_cache := v_drop H (v_cache v)\<rparr>)
      else (PinReply (Err StoreFull), v))"
| "view_step (CacheChunk c) v =
     (NoReply,
      if v_lookup v (ch_hash c) \<noteq> None \<or> length (ch_data c) > v_cache_limit v then v
      else v\<lparr>v_cache := lru_fit (v_cache_limit v - length (ch_data c)) (v_cache v) @ [(ch_hash c, ch_data c)]\<rparr>)"
| "view_step (GetChunk h) v =
     (DataReply (v_lookup v h),
      case map_of (v_cache v) h of None \<Rightarrow> v | Some d \<Rightarrow> v\<lparr>v_cache := v_drop {h} (v_cache v) @ [(h, d)]\<rparr>)"
| "view_step (Promote h) v =
     (case v_pinned v h of Some _ \<Rightarrow> (BoolReply True, v)
      | None \<Rightarrow> (case map_of (v_cache v) h of None \<Rightarrow> (BoolReply False, v)
          | Some d \<Rightarrow> if v_used v + length d \<le> v_capacity v
              then (BoolReply True, v\<lparr>v_pinned := (v_pinned v)(h \<mapsto> d), v_used := v_used v + length d,
                      v_cache := v_drop {h} (v_cache v)\<rparr>)
              else (BoolReply False, v)))"
| "view_step (Evict h) v =
     (BoolReply (v_lookup v h \<noteq> None),
      v\<lparr>v_pinned := (v_pinned v)(h := None),
        v_used := v_used v - (case v_pinned v h of Some d \<Rightarrow> length d | None \<Rightarrow> 0),
        v_cache := v_drop {h} (v_cache v)\<rparr>)"

text \<open>The bytes an operation brings fit the address space (Rust bounds each \<open>Vec\<close> and the memory).\<close>

fun op_addressable :: "chunk_storage \<Rightarrow> storage_op \<Rightarrow> bool" where
  "op_addressable st (TryPin cs) = pin_addressable st cs"
| "op_addressable st (CacheChunk c) = vec_ok (ch_data c)"
| "op_addressable st (Promote h) = (pinned_total st + entry_len st h < 2 ^ 64)"
| "op_addressable st _ = True"

lemma storage_step_inv:
  assumes "storage_inv st" and "op_addressable st a"
  shows "storage_inv (snd (storage_step a st))"
proof (cases a)
  case (TryPin cs)
  with assms try_pin_inv [of st cs] show ?thesis by (simp add: split_def Let_def)
next
  case (CacheChunk c)
  have len: "unat (vec_len (ch_data c)) = length (ch_data c)"
    using assms(2) CacheChunk by (simp add: unat_vec_len)
  show ?thesis
  proof (cases "storage_contains st (ch_hash c) \<or> vec_len (ch_data c) > st_max_cached_bytes st")
    case True
    with CacheChunk assms storage_cache_skip [of st c] show ?thesis by simp
  next
    case False
    with len CacheChunk assms storage_cache_effect(1) [of st c] show ?thesis
      by (simp add: word_less_nat_alt)
  qed
next
  case (GetChunk h)
  with assms get_inv(1) [of st h] show ?thesis by (simp add: split_def Let_def)
next
  case (Promote h)
  with assms promote_inv [of st h] show ?thesis by (simp add: split_def Let_def)
next
  case (Evict h)
  with assms evict_inv(1) [of st h] show ?thesis by (simp add: split_def Let_def)
qed

definition store_view :: "chunk_storage \<Rightarrow> chunk_view" where
  "store_view st =
     \<lparr>v_pinned = (\<lambda>h. if storage_is_pinned st h then Some (entry_data st h) else None),
      v_used = pinned_total st, v_cache = cache_view st,
      v_capacity = unat (st_max_pinned_bytes st), v_cache_limit = unat (st_max_cached_bytes st)\<rparr>"

lemma store_view_simps [simp]:
  "v_pinned (store_view st) h = (if storage_is_pinned st h then Some (entry_data st h) else None)"
  "v_used (store_view st) = pinned_total st" "v_cache (store_view st) = cache_view st"
  "v_capacity (store_view st) = unat (st_max_pinned_bytes st)"
  "v_cache_limit (store_view st) = unat (st_max_cached_bytes st)"
  by (simp_all add: store_view_def)

lemma map_of_cache_view:
  "map_of (cache_view st) h = (if h \<in> set (st_lru st) then Some (entry_data st h) else None)"
  unfolding cache_view_def by (induction "st_lru st") (auto simp: map_of_map_restrict restrict_map_def)

lemma view_cases:
  assumes "storage_core st"
  obtains (absent) "hget (st_chunks st) h = None" "\<not> storage_is_pinned st h" "h \<notin> set (st_lru st)"
    | (pinned) e where "hget (st_chunks st) h = Some e" "ent_pinned e" "storage_is_pinned st h"
        "h \<notin> set (st_lru st)" "entry_data st h = ent_data e"
    | (cached) e where "hget (st_chunks st) h = Some e" "\<not> ent_pinned e" "\<not> storage_is_pinned st h"
        "h \<in> set (st_lru st)" "entry_data st h = ent_data e"
  using core_lru [OF assms, of h]
  by (cases "hget (st_chunks st) h") (auto simp: is_cached_iff is_pinned_iff entry_data_def)

lemma v_lookup_view:
  "storage_core st \<Longrightarrow> v_lookup (store_view st) h = map_option ent_data (hget (st_chunks st) h)"
  by (erule view_cases [of st h]) (simp_all add: v_lookup_def map_of_cache_view)

lemma v_cost_view: "storage_core st \<Longrightarrow> v_cost (store_view st) c = pin_cost (st_chunks st) c"
  by (erule view_cases [of st "ch_hash c"]) (simp_all add: v_cost_def pin_cost_def map_of_cache_view)

lemma v_drop_view:
  "v_drop H (cache_view st) = map (\<lambda>h. (h, entry_data st h)) (filter (\<lambda>h. h \<notin> H) (st_lru st))"
  by (simp add: v_drop_def cache_view_def filter_map comp_def)

lemma v_drop_absent: "h \<notin> set (st_lru st) \<Longrightarrow> v_drop {h} (cache_view st) = cache_view st"
  unfolding v_drop_def cache_view_def by (auto simp: filter_id_conv)

lemma try_pin_refines:
  assumes "storage_inv st" and "pin_addressable st cs"
  shows "view_step (TryPin cs) (store_view st) =
    (PinReply (fst (storage_try_pin cs st)), store_view (snd (storage_try_pin cs st)))"
proof -
  have core: "storage_core st" using assms(1) by (simp add: storage_inv_def)
  have need: "(\<Sum>c\<leftarrow>firsts cs {}. v_cost (store_view st) c) = required_bytes st cs"
    by (simp add: required_bytes_def v_cost_view [OF core])
  show ?thesis
  proof (cases "pinned_total st + required_bytes st cs \<le> unat (st_max_pinned_bytes st)")
    case False
    then show ?thesis by (simp add: need Let_def try_pin_cases [OF assms])
  next
    case True
    then obtain st' where ok: "storage_try_pin cs st = (Ok (), st')"
      by (simp add: try_pin_cases [OF assms])
    note eff = try_pin_Ok [OF assms ok]
    have pinned: "v_pinned (store_view st') h = (if h \<in> ch_hash ` set cs
        then (case v_lookup (store_view st) h of Some d \<Rightarrow> Some d
              | None \<Rightarrow> map_option ch_data (find (\<lambda>c. ch_hash c = h) cs))
        else v_pinned (store_view st) h)" for h
    proof (cases "h \<in> ch_hash ` set cs")
      case True
      then obtain c where "find (\<lambda>c. ch_hash c = h) cs = Some c" using find_hash_Some by blast
      with True eff(1) [of h] show ?thesis
        by (auto simp: v_lookup_view [OF core] is_pinned_iff entry_data_def split: option.splits)
    next
      case False
      with eff(1) [of h] find_hash_None [OF False] show ?thesis
        by (auto simp: is_pinned_iff entry_data_def split: option.splits)
    qed
    have "cache_view st' = v_drop (ch_hash ` set cs) (cache_view st)"
      unfolding v_drop_view unfolding cache_view_def eff(3)
      using core_lru [OF core] eff(1) by (auto simp: entry_data_def is_cached_iff)
    with pinned have "store_view st' = (store_view st)\<lparr>v_pinned := (\<lambda>h. if h \<in> ch_hash ` set cs
        then (case v_lookup (store_view st) h of Some d \<Rightarrow> Some d
              | None \<Rightarrow> map_option ch_data (find (\<lambda>c. ch_hash c = h) cs))
        else v_pinned (store_view st) h), v_used := pinned_total st + required_bytes st cs,
        v_cache := v_drop (ch_hash ` set cs) (cache_view st)\<rparr>"
      by (intro chunk_view.equality) (simp_all add: fun_eq_iff eff(2,4,5) del: store_view_simps(1))
    with True ok need show ?thesis by (simp only: view_step.simps Let_def store_view_simps if_True fst_conv snd_conv)
  qed
qed

lemma cache_refines:
  assumes "storage_inv st" and "vec_ok (ch_data c)"
  shows "view_step (CacheChunk c) (store_view st) = (NoReply, store_view (storage_cache c st))"
proof -
  have core: "storage_core st" using assms(1) by (simp add: storage_inv_def)
  have len: "unat (vec_len (ch_data c)) = length (ch_data c)" using assms(2) by (rule unat_vec_len)
  have known: "v_lookup (store_view st) (ch_hash c) \<noteq> None \<longleftrightarrow> storage_contains st (ch_hash c)"
    by (simp add: v_lookup_view [OF core] storage_contains_def hcontains_def)
  show ?thesis
  proof (cases "storage_contains st (ch_hash c) \<or> vec_len (ch_data c) > st_max_cached_bytes st")
    case True
    with known len storage_cache_skip [OF True] show ?thesis by (auto simp: word_less_nat_alt)
  next
    case False
    then have le: "length (ch_data c) \<le> unat (st_max_cached_bytes st)"
      and new: "\<not> storage_contains st (ch_hash c)" by (auto simp: word_less_nat_alt len)
    note eff = storage_cache_effect [OF assms new le]
    let ?st' = "storage_cache c st"
    have "(storage_is_pinned ?st' h, entry_data ?st' h) = (storage_is_pinned st h, entry_data st h)"
      if "storage_is_pinned st h \<or> storage_is_pinned ?st' h" for h
      using that eff(3) [of h] new core_lru [OF core, of h]
      by (auto simp: is_pinned_iff is_cached_iff entry_data_def storage_contains_def hcontains_def
          split: if_splits)
    then have "v_pinned (store_view ?st') = v_pinned (store_view st)" by (auto simp: fun_eq_iff)
    with eff(2,5-7) have "store_view ?st' = (store_view st)\<lparr>v_cache :=
        lru_fit (unat (st_max_cached_bytes st) - length (ch_data c)) (cache_view st) @ [(ch_hash c, ch_data c)]\<rparr>"
      by simp
    with known new le show ?thesis by simp
  qed
qed

lemma get_refines:
  assumes "storage_inv st"
  shows "view_step (GetChunk h) (store_view st) =
    (DataReply (fst (storage_get h st)), store_view (snd (storage_get h st)))"
proof -
  have core: "storage_core st" using assms by (simp add: storage_inv_def)
  show ?thesis
    using core
  proof (cases rule: view_cases [where h = h])
    case (cached e)
    let ?st = "st\<lparr>st_lru := filter (\<lambda>k. k \<noteq> h) (st_lru st) @ [h]\<rparr>"
    have "snd (storage_get h st) = ?st" "fst (storage_get h st) = Some (ent_data e)"
      using cached by (simp_all add: storage_get_def)
    moreover have "entry_data ?st = entry_data st" "storage_is_pinned ?st = storage_is_pinned st"
      "pinned_total ?st = pinned_total st"
      by (simp_all add: fun_eq_iff entry_data_def storage_is_pinned_def pinned_total_def)
    moreover have "cache_view ?st = v_drop {h} (cache_view st) @ [(h, ent_data e)]"
      unfolding v_drop_view using cached by (simp add: cache_view_def entry_data_def)
    ultimately have "store_view ?st = (store_view st)\<lparr>v_cache := v_drop {h} (cache_view st) @ [(h, ent_data e)]\<rparr>"
      by (auto simp: store_view_def)
    with cached \<open>snd (storage_get h st) = ?st\<close> \<open>fst (storage_get h st) = Some (ent_data e)\<close> show ?thesis
      by (simp add: map_of_cache_view v_lookup_view [OF core])
  qed (auto simp: map_of_cache_view v_lookup_view [OF core] storage_get_def)
qed

lemma promote_refines:
  assumes "storage_inv st" and "pinned_total st + entry_len st h < 2 ^ 64"
  shows "view_step (Promote h) (store_view st) =
    (BoolReply (fst (storage_promote_to_pinned h st)), store_view (snd (storage_promote_to_pinned h st)))"
proof -
  have core: "storage_core st" using assms by (simp add: storage_inv_def)
  show ?thesis
    using core
  proof (cases rule: view_cases [where h = h])
    case (cached e)
    let ?st = "pin_cached h st"
    have "storage_is_pinned ?st = (\<lambda>k. k = h \<or> storage_is_pinned st k)" "entry_data ?st = entry_data st"
      using cached by (auto simp: fun_eq_iff pin_cached_def storage_is_pinned_def entry_data_def split: option.splits)
    moreover have "st_lru ?st = filter (\<lambda>k. k \<noteq> h) (st_lru st)" "st_max_pinned_bytes ?st = st_max_pinned_bytes st"
      "st_max_cached_bytes ?st = st_max_cached_bytes st"
      using cached by (simp_all add: pin_cached_def)
    moreover have "pinned_total ?st = pinned_total st + length (ent_data e)"
      using promote_core(2) [OF core] cached by blast
    moreover from calculation have "cache_view ?st = v_drop {h} (cache_view st)"
      unfolding v_drop_view by (simp add: cache_view_def)
    ultimately have "store_view ?st = (store_view st)\<lparr>
        v_pinned := (v_pinned (store_view st))(h \<mapsto> ent_data e),
        v_used := pinned_total st + length (ent_data e), v_cache := v_drop {h} (cache_view st)\<rparr>"
      using cached by (auto simp: store_view_def)
    with cached show ?thesis
      by (simp add: map_of_cache_view promote_cases [OF assms])
  qed (auto simp: map_of_cache_view promote_cases [OF assms])
qed

lemma evict_refines:
  assumes "storage_inv st"
  shows "view_step (Evict h) (store_view st) =
    (BoolReply (fst (storage_evict h st)), store_view (snd (storage_evict h st)))"
proof -
  have core: "storage_core st" using assms by (simp add: storage_inv_def)
  let ?st = "snd (storage_evict h st)"
  have look: "hget (st_chunks ?st) k = (if k = h then None else hget (st_chunks st) k)" for k
    by (rule evict_inv(2) [OF assms])
  have maxs: "st_max_pinned_bytes ?st = st_max_pinned_bytes st"
    "st_max_cached_bytes ?st = st_max_cached_bytes st"
    by (simp_all add: storage_evict_def Let_def split: option.splits)
  have lru: "st_lru ?st = filter (\<lambda>k. k \<noteq> h) (st_lru st)"
    using core
  proof (cases rule: view_cases [where h = h])
    case absent
    then show ?thesis by (simp add: storage_evict_def)
  next
    case (pinned e)
    then show ?thesis by (simp add: storage_evict_def Let_def)
  next
    case (cached e)
    then show ?thesis by (simp add: storage_evict_def Let_def)
  qed
  have "cache_view ?st = v_drop {h} (cache_view st)"
    unfolding v_drop_view by (auto simp: cache_view_def lru entry_data_def look)
  moreover have "v_pinned (store_view ?st) = (v_pinned (store_view st))(h := None)"
    by (auto simp: fun_eq_iff is_pinned_iff look entry_data_def)
  moreover have "pinned_total ?st = pinned_total st - (if storage_is_pinned st h then entry_len st h else 0)"
    using evict_inv(3) [OF assms, of h] by simp
  moreover have "fst (storage_evict h st) = (v_lookup (store_view st) h \<noteq> None)"
    by (simp add: evict_inv(4) [OF assms] v_lookup_view [OF core] storage_contains_def hcontains_def)
  ultimately show ?thesis
    using maxs by (auto simp: store_view_def entry_len_data)
qed

lemma storage_step_refines:
  assumes "storage_inv st" and "op_addressable st a"
  shows "view_step a (store_view st) = (fst (storage_step a st), store_view (snd (storage_step a st)))"
  using assms try_pin_refines cache_refines get_refines promote_refines evict_refines
  by (cases a) (simp_all add: split_def Let_def del: view_step.simps)

section \<open>Runs of the store\<close>

fun storage_run :: "storage_op list \<Rightarrow> chunk_storage \<Rightarrow> chunk_storage" where
  "storage_run [] st = st"
| "storage_run (a # as) st = storage_run as (snd (storage_step a st))"

fun storage_replies :: "storage_op list \<Rightarrow> chunk_storage \<Rightarrow> storage_reply list" where
  "storage_replies [] st = []"
| "storage_replies (a # as) st = fst (storage_step a st) # storage_replies as (snd (storage_step a st))"

text \<open>The abstract store: it begins empty, and runs through the same operations.\<close>

definition view_new :: "nat \<Rightarrow> chunk_view" where
  "view_new capacity = \<lparr>v_pinned = (\<lambda>_. None), v_used = 0, v_cache = [], v_capacity = capacity,
     v_cache_limit = 16 * 1024 * 1024\<rparr>"

fun view_run :: "storage_op list \<Rightarrow> chunk_view \<Rightarrow> storage_reply list \<times> chunk_view" where
  "view_run [] v = ([], v)"
| "view_run (a # as) v =
     (case view_step a v of (reply, v) \<Rightarrow> case view_run as v of (replies, v) \<Rightarrow> (reply # replies, v))"

fun run_addressable :: "chunk_storage \<Rightarrow> storage_op list \<Rightarrow> bool" where
  "run_addressable st [] = True"
| "run_addressable st (a # as) = (op_addressable st a \<and> run_addressable (snd (storage_step a st)) as)"

lemma storage_inv_new: "storage_inv (storage_new m)"
  using storage_core_new [of m]
  by (simp add: storage_inv_def storage_limits_def)
    (simp add: storage_new_def pinned_total_def cached_total_def MAX_CACHED_BYTES_def FASTCDC_MAX_CHUNK_SIZE_def)

lemma storage_run_inv: "storage_inv st \<Longrightarrow> run_addressable st as \<Longrightarrow> storage_inv (storage_run as st)"
  by (induction as arbitrary: st) (auto intro: storage_step_inv)

lemma view_new: "store_view (storage_new m) = view_new (unat m)"
  by (intro chunk_view.equality)
    (simp_all add: view_new_def store_view_def storage_new_def storage_is_pinned_def hget_def pinned_total_def hsum_def
      cache_view_def fun_eq_iff MAX_CACHED_BYTES_def FASTCDC_MAX_CHUNK_SIZE_def)

lemma view_run_refines:
  "storage_inv st \<Longrightarrow> run_addressable st as \<Longrightarrow>
    view_run as (store_view st) = (storage_replies as st, store_view (storage_run as st))"
  by (induction as arbitrary: st) (simp_all add: storage_step_refines storage_step_inv)

fun op_chunks_ok :: "(bytes \<Rightarrow> bytes) \<Rightarrow> storage_op \<Rightarrow> bool" where
  "op_chunks_ok sha (TryPin cs) = list_all (chunk_ok sha) cs"
| "op_chunks_ok sha (CacheChunk c) = chunk_ok sha c"
| "op_chunks_ok sha _ = True"

lemma cache_content:
  assumes "content_addressed sha st" and "chunk_ok sha c" and "storage_inv st" and "vec_ok (ch_data c)"
  shows "content_addressed sha (storage_cache c st)"
proof (cases "storage_contains st (ch_hash c) \<or> vec_len (ch_data c) > st_max_cached_bytes st")
  case True
  with assms(1) storage_cache_skip show ?thesis by metis
next
  case False
  then have "length (ch_data c) \<le> unat (st_max_cached_bytes st)" "\<not> storage_contains st (ch_hash c)"
    using unat_vec_len [OF assms(4)] by (auto simp: word_less_nat_alt)
  from storage_cache_effect(3) [OF assms(3,4) this(2,1)] assms(1,2) show ?thesis
    by (auto simp: content_addressed_def chunk_ok_def split: if_splits)
qed

lemma storage_step_content:
  assumes "content_addressed sha st" and "storage_inv st" and "op_addressable st a" and "op_chunks_ok sha a"
  shows "content_addressed sha (snd (storage_step a st))"
proof (cases a)
  case (TryPin cs)
  with assms try_pin_content [of sha st cs] show ?thesis by (simp add: split_def Let_def list_all_iff)
next
  case (CacheChunk c)
  with assms cache_content [of sha st c] show ?thesis by simp
next
  case (GetChunk h)
  with assms get_inv(2) [of st h] show ?thesis by (simp add: split_def Let_def content_addressed_def)
next
  case (Promote h)
  then show ?thesis
    using assms by (auto simp: split_def Let_def content_addressed_def storage_promote_to_pinned_def split: option.splits)
next
  case (Evict h)
  with assms evict_inv(2) [of st h] show ?thesis
    by (auto simp: split_def Let_def content_addressed_def split: if_splits)
qed

lemma storage_run_content:
  "content_addressed sha st \<Longrightarrow> storage_inv st \<Longrightarrow> run_addressable st as \<Longrightarrow> list_all (op_chunks_ok sha) as \<Longrightarrow>
    content_addressed sha (storage_run as st)"
  by (induction as arbitrary: st) (auto intro: storage_step_inv storage_step_content)

lemma make_room_max:
  "st_max_pinned_bytes (snd (cache_make_room sz lru st)) = st_max_pinned_bytes st \<and>
   st_max_cached_bytes (snd (cache_make_room sz lru st)) = st_max_cached_bytes st"
  by (induction sz lru st rule: cache_make_room.induct) (auto split: option.splits)

lemma fold_max:
  "st_max_pinned_bytes (fold pin_new cs st) = st_max_pinned_bytes st"
  "st_max_cached_bytes (fold pin_new cs st) = st_max_cached_bytes st"
  "st_max_pinned_bytes (fold pin_cached hs st) = st_max_pinned_bytes st"
  "st_max_cached_bytes (fold pin_cached hs st) = st_max_cached_bytes st"
  by (induction cs arbitrary: st, simp_all add: pin_new_def)
    (induction hs arbitrary: st, simp_all add: pin_cached_def split: option.splits)+

lemma storage_step_max:
  "st_max_pinned_bytes (snd (storage_step a st)) = st_max_pinned_bytes st \<and>
   st_max_cached_bytes (snd (storage_step a st)) = st_max_cached_bytes st"
  using make_room_max [of _ "st_lru st" st]
  by (cases a)
    (auto simp: split_def Let_def storage_try_pin_def pin_scan_eq fold_max storage_cache_def
       storage_get_def storage_promote_to_pinned_def storage_evict_def split: option.splits)

lemma storage_run_max:
  "st_max_pinned_bytes (storage_run as st) = st_max_pinned_bytes st"
  "st_max_cached_bytes (storage_run as st) = st_max_cached_bytes st"
  by (induction as arbitrary: st) (simp_all add: storage_step_max)

lemmas storage_eval = storage_try_pin_def storage_cache_def storage_get_def storage_promote_to_pinned_def
  storage_evict_def pin_new_def pin_cached_def storage_new_def MAX_CACHED_BYTES_def
  FASTCDC_MAX_CHUNK_SIZE_def vec_len_def hget_def hinsert_def hremove_def hmodify_def hcontains_def
  pin_addressable_def pinned_total_def required_bytes_def hsum_def pinned_len_def pin_cost_def
  entry_len_def vec_ok_def Let_def

section \<open>Properties\<close>

text \<open>In every state the store can reach from an empty one of capacity \<open>m\<close>, whatever
  operations ran and whatever they answered, the two byte counters are exact (they never wrapped),
  the pinned chunks fit the capacity, \<open>free_bytes\<close> is what is left of it, the cached chunks
  fit the 16 MiB cache, and the eviction queue lists exactly the cached chunks, each once.\<close>

theorem storage_reachable_accounting:
  assumes "run_addressable (storage_new m) as" and "storage_run as (storage_new m) = st"
  shows "unat (st_pinned_bytes st) = pinned_total st \<and> unat (st_cached_bytes st) = cached_total st \<and>
    pinned_total st \<le> unat (storage_capacity_bytes st) \<and> storage_capacity_bytes st = m \<and>
    unat (storage_free_bytes st) = unat m - pinned_total st \<and>
    cached_total st \<le> 16 * 1024 * 1024 \<and>
    distinct (st_lru st) \<and> (\<forall>h. h \<in> set (st_lru st) \<longleftrightarrow> storage_is_cached st h)"
proof -
  have inv: "storage_inv st" using storage_run_inv [OF storage_inv_new assms(1)] assms(2) by simp
  have max: "st_max_pinned_bytes st = m" "st_max_cached_bytes st = MAX_CACHED_BYTES"
    using storage_run_max [of as "storage_new m"] assms(2) by (simp_all add: storage_new_def)
  have "pinned_total st \<le> unat m" "cached_total st \<le> unat MAX_CACHED_BYTES" and core: "storage_core st"
    using inv max by (auto simp: storage_inv_def storage_limits_def)
  with inv_counters [OF inv] core_lru [OF core] max show ?thesis
    by (simp add: storage_capacity_bytes_def storage_free_bytes_def unat_sub word_le_nat_alt
        storage_core_def MAX_CACHED_BYTES_def FASTCDC_MAX_CHUNK_SIZE_def)
qed

theorem storage_reachable_accounting_witness:
  defines "sha \<equiv> \<lambda>d. take 4 d"
  defines "as \<equiv> [CacheChunk (chunk_new sha [1, 2]), TryPin [chunk_new sha [3], chunk_new sha [3]],
      GetChunk (hash_of sha [1, 2]), Promote (hash_of sha [1, 2]), Evict (hash_of sha [3])]"
  shows "unat (storage_free_bytes (storage_run as (storage_new 10))) = 8"
proof -
  have ok: "run_addressable (storage_new 10) as"
    by (simp add: as_def sha_def storage_eval hash_of_def)
  have "pinned_total (storage_run as (storage_new 10)) = 2"
    by (simp add: as_def sha_def storage_eval hash_of_def)
  with storage_reachable_accounting [OF ok refl] show ?thesis by simp
qed

text \<open>C7: The detailed store (hash map of flagged entries, recency queue, machine counters)
  implements the abstract one (a partial map of pinned chunks within a capacity, and a queue of
  cached chunks of which caching evicts the oldest until the new one fits). Whatever operations run
  on an empty store of capacity \<open>m\<close>, they give the answers the abstract store gives, and the store is left in
  the state the abstract one is in. (\<open>run_addressable\<close>: what an operation brings fits the address space.)\<close>

theorem storage_refines_view:
  assumes "run_addressable (storage_new m) as"
  shows "view_run as (view_new (unat m)) = (storage_replies as (storage_new m), store_view (storage_run as (storage_new m)))"
  using view_run_refines [OF storage_inv_new assms] by (simp only: view_new)

text \<open>A store of ten bytes: a chunk is cached, another pinned twice in one call, the first promoted, nine bytes
  refused, the second given back.\<close>

theorem storage_refines_view_witness:
  defines "as \<equiv> [CacheChunk (chunk_new id [1, 2]), TryPin [chunk_new id [3], chunk_new id [3]], GetChunk (ChunkHash [1, 2]),
      Promote (ChunkHash [1, 2]), TryPin [chunk_new id (replicate 9 4)], Evict (ChunkHash [3]), GetChunk (ChunkHash [3])]"
  shows "fst (view_run as (view_new 10)) = [NoReply, PinReply (Ok ()), DataReply (Some [1, 2]), BoolReply True,
      PinReply (Err StoreFull), BoolReply True, DataReply None]"
proof -
  have "run_addressable (storage_new 10) as"
    by (simp add: as_def storage_eval hash_of_def)
  from storage_refines_view [OF this] have "fst (view_run as (view_new 10)) = storage_replies as (storage_new 10)" by simp
  also have "\<dots> = [NoReply, PinReply (Ok ()), DataReply (Some [1, 2]), BoolReply True,
      PinReply (Err StoreFull), BoolReply True, DataReply None]"
    unfolding as_def by code_simp
  finally show ?thesis .
qed

text \<open>Pinning is all or nothing. It fails exactly when the chunks that are not pinned yet,
  each counted once, do not fit the free capacity, and then nothing changes. Otherwise every given
  chunk is pinned, every other entry is as it was, and the pinned bytes grow by exactly those of
  the newly pinned chunks.\<close>

theorem try_pin_all_or_nothing:
  assumes "storage_inv st" and "pin_addressable st cs" and "storage_try_pin cs st = (r, st')"
  shows "(r = Err StoreFull \<longleftrightarrow> unat (storage_free_bytes st) < required_bytes st cs) \<and>
    (r = Err StoreFull \<longrightarrow> st' = st) \<and>
    (r = Ok () \<longrightarrow> (\<forall>c \<in> set cs. storage_is_pinned st' (ch_hash c)) \<and>
       (\<forall>h. h \<notin> ch_hash ` set cs \<longrightarrow> hget (st_chunks st') h = hget (st_chunks st) h) \<and>
       (\<forall>h e. hget (st_chunks st) h = Some e \<longrightarrow> entry_data st' h = ent_data e) \<and>
       pinned_total st' = pinned_total st + required_bytes st cs)"
proof -
  have le: "pinned_total st \<le> unat (st_max_pinned_bytes st)"
    using assms(1) by (simp add: storage_inv_def storage_limits_def)
  then have free: "unat (storage_free_bytes st) = unat (st_max_pinned_bytes st) - pinned_total st"
    by (simp add: storage_free_bytes_def unat_sub word_le_nat_alt inv_counters [OF assms(1)])
  have "(\<forall>c \<in> set cs. storage_is_pinned st' (ch_hash c)) \<and>
       (\<forall>h. h \<notin> ch_hash ` set cs \<longrightarrow> hget (st_chunks st') h = hget (st_chunks st) h) \<and>
       (\<forall>h e. hget (st_chunks st) h = Some e \<longrightarrow> entry_data st' h = ent_data e) \<and>
       pinned_total st' = pinned_total st + required_bytes st cs" if "r = Ok ()"
  proof -
    note eff = try_pin_Ok [OF assms(1,2) assms(3) [unfolded that]]
    have "storage_is_pinned st' (ch_hash c)" if "c \<in> set cs" for c
      using eff(1) [of "ch_hash c"] find_hash_Some [of "ch_hash c" cs] that
      by (auto simp: is_pinned_iff split: option.splits)
    with eff show ?thesis
      using find_hash_None by (auto simp: entry_data_def split: option.splits)
  qed
  with assms(3) free le try_pin_cases [OF assms(1,2)] show ?thesis by (auto split: if_splits)
qed

theorem try_pin_all_or_nothing_witness:
  "fst (storage_try_pin [chunk_new id [1, 2], chunk_new id [1, 2], chunk_new id [3]] (storage_new 2)) = Err StoreFull"
proof -
  let ?cs = "[chunk_new id [1, 2], chunk_new id [1, 2], chunk_new id [3 :: byte]]"
  have ok: "pin_addressable (storage_new 2) ?cs" and
    full: "unat (storage_free_bytes (storage_new 2)) < required_bytes (storage_new 2) ?cs"
    by (simp_all add: storage_eval storage_free_bytes_def hash_of_def)
  obtain r st' where r: "storage_try_pin ?cs (storage_new 2) = (r, st')" by force
  from try_pin_all_or_nothing [OF storage_inv_new ok r] full r show ?thesis by simp
qed

text \<open>Caching never touches a pinned chunk or the pinned byte count. A chunk that is already
  stored, or larger than the whole cache, changes nothing. Otherwise the chunk becomes readable
  and most recently used, and what is evicted for it is a prefix of the queue, so the least
  recently used chunks, no longer than needed: keeping the last evicted one would have
  exceeded the limit.\<close>

theorem cache_evicts_oldest_only:
  assumes "storage_inv st" and "vec_ok (ch_data c)" and "storage_cache c st = st'"
  shows "(\<forall>h. storage_is_pinned st h \<longrightarrow> hget (st_chunks st') h = hget (st_chunks st) h) \<and>
    pinned_total st' = pinned_total st \<and>
    (storage_contains st (ch_hash c) \<or> length (ch_data c) > unat (st_max_cached_bytes st) \<longrightarrow> st' = st) \<and>
    (\<not> storage_contains st (ch_hash c) \<and> length (ch_data c) \<le> unat (st_max_cached_bytes st) \<longrightarrow>
       fst (storage_get (ch_hash c) st') = Some (ch_data c) \<and>
       (\<exists>evicted kept. st_lru st = evicted @ kept \<and> st_lru st' = kept @ [ch_hash c] \<and>
          (\<forall>h \<in> set evicted. hget (st_chunks st') h = None) \<and>
          (\<forall>h \<in> set kept. hget (st_chunks st') h = hget (st_chunks st) h) \<and>
          (evicted \<noteq> [] \<longrightarrow> unat (st_max_cached_bytes st) <
             (\<Sum>h\<leftarrow>last evicted # kept. entry_len st h) + length (ch_data c))))"
proof (cases "storage_contains st (ch_hash c) \<or> vec_len (ch_data c) > st_max_cached_bytes st")
  case True
  with storage_cache_skip [OF True] assms(3) unat_vec_len [OF assms(2)] show ?thesis
    by (auto simp: word_less_nat_alt)
next
  case False
  let ?max = "unat (st_max_cached_bytes st)" and ?len = "length (ch_data c)"
  have core: "storage_core st" using assms(1) by (simp add: storage_inv_def)
  from False have new: "\<not> storage_contains st (ch_hash c)" and le: "?len \<le> ?max"
    using unat_vec_len [OF assms(2)] by (auto simp: word_less_nat_alt)
  note eff = storage_cache_effect [OF assms(1,2) new le, unfolded assms(3)]
  have knew: "ch_hash c \<notin> set (st_lru st)" "hget (st_chunks st) (ch_hash c) = None"
    using new core_lru [OF core, of "ch_hash c"]
    by (auto simp: storage_contains_def hcontains_def is_cached_iff)
  obtain ys where ys: "cache_view st = ys @ lru_fit (?max - ?len) (cache_view st)"
    "ys \<noteq> [] \<longrightarrow> ?max - ?len < (\<Sum>(h, d)\<leftarrow>last ys # lru_fit (?max - ?len) (cache_view st). length d)"
    using lru_fit_minimal by blast
  let ?zs = "lru_fit (?max - ?len) (cache_view st)"
  have fst_view: "map fst (cache_view s) = st_lru s" for s by (simp add: cache_view_def comp_def)
  have split: "st_lru st = map fst ys @ map fst ?zs"
    using arg_cong [OF ys(1), of "map fst"] by (simp add: fst_view)
  have lru': "st_lru st' = map fst ?zs @ [ch_hash c]"
    using arg_cong [OF eff(2), of "map fst"] by (simp add: fst_view)
  have "distinct (st_lru st)" using core by (simp add: storage_core_def)
  then have disj: "set (map fst ys) \<inter> set (map fst ?zs) = {}" using split by simp
  have snd_len: "length d = entry_len st h" if "(h, d) \<in> set (cache_view st)" for h d
    using that by (auto simp: cache_view_def entry_len_data)
  have kept_len: "(\<Sum>(h, d)\<leftarrow>?zs. length d) = (\<Sum>h\<leftarrow>map fst ?zs. entry_len st h)"
    using snd_len ys(1) by (auto simp: comp_def intro!: arg_cong [where f = sum_list] map_cong) (metis Un_iff set_append)
  have tight: "?max < (\<Sum>h\<leftarrow>last (map fst ys) # map fst ?zs. entry_len st h) + ?len" if "ys \<noteq> []"
  proof -
    have "last ys \<in> set (cache_view st)" using ys(1) that by (metis UnI1 last_in_set set_append)
    then have "length (snd (last ys)) = entry_len st (fst (last ys))" using snd_len by (metis prod.collapse)
    with ys(2) that kept_len le show ?thesis by (simp add: last_map split_def)
  qed
  define A K where "A = map fst ys" and "K = map fst ?zs"
  note lists = split [folded A_def K_def] lru' [folded K_def] and disjA = disj [folded A_def K_def]
  have tightA: "A \<noteq> [] \<longrightarrow> ?max < (\<Sum>h\<leftarrow>last A # K. entry_len st h) + ?len"
    using tight by (simp add: A_def K_def)
  have gone: "\<forall>h \<in> set A. hget (st_chunks st') h = None"
  proof
    fix h
    assume h: "h \<in> set A"
    then have "h \<in> set (st_lru st)" "h \<noteq> ch_hash c" "h \<notin> set (st_lru st')"
      using disjA knew(1) unfolding lists by auto
    then show "hget (st_chunks st') h = None" by (simp add: eff(3))
  qed
  have stay: "\<forall>h \<in> set K. hget (st_chunks st') h = hget (st_chunks st) h"
  proof
    fix h
    assume h: "h \<in> set K"
    then have "h \<noteq> ch_hash c" "h \<in> set (st_lru st')" using knew(1) unfolding lists by auto
    then show "hget (st_chunks st') h = hget (st_chunks st) h" by (simp add: eff(3))
  qed
  have pinned: "\<forall>h. storage_is_pinned st h \<longrightarrow> hget (st_chunks st') h = hget (st_chunks st) h"
    using knew core_lru [OF core] by (auto simp: eff(3) is_cached_iff is_pinned_iff)
  have "\<exists>evicted kept. st_lru st = evicted @ kept \<and> st_lru st' = kept @ [ch_hash c] \<and>
      (\<forall>h \<in> set evicted. hget (st_chunks st') h = None) \<and>
      (\<forall>h \<in> set kept. hget (st_chunks st') h = hget (st_chunks st) h) \<and>
      (evicted \<noteq> [] \<longrightarrow> ?max < (\<Sum>h\<leftarrow>last evicted # kept. entry_len st h) + ?len)"
    using lists gone stay tightA by blast
  moreover have "fst (storage_get (ch_hash c) st') = Some (ch_data c)"
    using get_inv(3) [OF eff(1)] by (simp add: eff(3))
  moreover have "\<not> (storage_contains st (ch_hash c) \<or> ?len > ?max)" using new le by simp
  ultimately show ?thesis using pinned eff(7) by blast
qed

theorem cache_evicts_oldest_only_witness:
  defines "st \<equiv> storage_cache (chunk_new id [1, 2]) ((storage_new 5)\<lparr>st_max_cached_bytes := 3\<rparr>)"
  shows "fst (storage_get (ChunkHash [7, 8]) (storage_cache (chunk_new id [7, 8]) st)) = Some [7, 8]"
proof -
  have inv: "storage_inv st"
    by (simp add: st_def storage_inv_def storage_core_def storage_limits_def storage_eval cached_total_def
        cached_len_def storage_is_cached_def hash_of_def hwf_def Collect_conv_if)
  have ok: "vec_ok (ch_data (chunk_new id [7, 8 :: byte]))" by (simp add: vec_ok_def)
  have "\<not> storage_contains st (ch_hash (chunk_new id [7, 8]))"
    "length (ch_data (chunk_new id [7, 8 :: byte])) \<le> unat (st_max_cached_bytes st)"
    by (simp_all add: st_def storage_contains_def storage_eval hash_of_def)
  with cache_evicts_oldest_only [OF inv ok refl] show ?thesis by (simp add: hash_of_def)
qed

text \<open>The store is content addressed in every reachable state: as long as every chunk handed to
  it was made by \<open>Chunk::new\<close>, whatever a \<open>get\<close> returns for a hash has that hash.\<close>

theorem get_returns_content_of_hash:
  assumes "run_addressable (storage_new m) as" and "list_all (op_chunks_ok sha) as"
    and "fst (storage_get h (storage_run as (storage_new m))) = Some d"
  shows "hash_of sha d = h"
proof -
  have "content_addressed sha (storage_new m)" by (simp add: content_addressed_def storage_new_def)
  from storage_run_content [OF this storage_inv_new assms(1,2)] assms(3) show ?thesis
    by (auto simp: content_addressed_def storage_get_def split: option.splits)
qed

theorem get_returns_content_of_hash_witness:
  defines "sha \<equiv> \<lambda>d. map (\<lambda>b. b + 1) d"
  shows "hash_of sha [1, 2] = ChunkHash [2, 3]"
proof (rule get_returns_content_of_hash)
  let ?as = "[TryPin [chunk_new sha [1, 2]], CacheChunk (chunk_new sha [9])]"
  show "run_addressable (storage_new 10) ?as" by (simp add: storage_eval sha_def hash_of_def)
  show "list_all (op_chunks_ok sha) ?as" by (simp add: chunk_ok_def)
  show "fst (storage_get (ChunkHash [2, 3]) (storage_run ?as (storage_new 10))) = Some [1, 2]"
    by (simp add: storage_eval sha_def hash_of_def)
qed

end
