(* ===== verification/Replica.thy ===== *)
theory Replica
  imports Domain "HOL-Library.Multiset"
begin

text \<open>
  The replicated tree the code is built on: the crate \<open>crdt_tree\<close>, which is not part of the
  repository. Its interface is the parameter \<open>replica_api\<close>; what the crate documents of it
  (it implements the move operation of Kleppmann et al., \<open>A highly-available move operation for
  replicated trees\<close>) is the locale \<open>replica\<close>: the tree is the one obtained by replaying the
  operations of the log in timestamp order, where a move that would make a node its own ancestor
  is skipped, and an operation whose timestamp is already in the log is ignored.

  \<open>ref_api\<close> is a replica that satisfies the laws. It serves the witnesses and shows that the
  hypotheses can be met; no theorem about the code depends on it.
\<close>

section \<open>Timestamps and operations\<close>

datatype clock = Clock (actor_id: peer_id) (counter: u64)

instantiation clock :: linorder
begin

definition less_eq_clock :: "clock \<Rightarrow> clock \<Rightarrow> bool" where
  "less_eq_clock a b = (counter a < counter b \<or> counter a = counter b \<and> actor_id a \<le> actor_id b)"

definition less_clock :: "clock \<Rightarrow> clock \<Rightarrow> bool" where
  "less_clock a b = (counter a < counter b \<or> counter a = counter b \<and> actor_id a < actor_id b)"

instance
  by standard (auto simp: less_eq_clock_def less_clock_def clock.expand)

end

record node_operation =
  op_timestamp :: clock
  op_parent :: node_id
  op_metadata :: node_meta
  op_child :: node_id

type_synonym op_id = "peer_id \<times> u64"

record 't replica_api =
  r_new :: "peer_id \<Rightarrow> 't"
  r_apply_op :: "node_operation \<Rightarrow> 't \<Rightarrow> 't"
  r_apply_ops :: "node_operation list \<Rightarrow> 't \<Rightarrow> 't"
  r_find :: "'t \<Rightarrow> node_id \<Rightarrow> (node_id \<times> node_meta) option"
  r_children :: "'t \<Rightarrow> node_id \<Rightarrow> node_id list"
  r_log :: "'t \<Rightarrow> node_operation list"

section \<open>The documented move algorithm\<close>

type_synonym tree_map = "(node_id, node_id \<times> node_meta) hmap"

fun is_above :: "tree_map \<Rightarrow> nat \<Rightarrow> node_id \<Rightarrow> node_id \<Rightarrow> bool" where
  "is_above t 0 a n = False"
| "is_above t (Suc k) a n = (case hget t n of None \<Rightarrow> False | Some (p, _) \<Rightarrow> p = a \<or> is_above t k a p)"

definition is_ancestor :: "tree_map \<Rightarrow> node_id \<Rightarrow> node_id \<Rightarrow> bool" where
  "is_ancestor t a n = is_above t (length t) a n"

definition do_op :: "node_operation \<Rightarrow> tree_map \<Rightarrow> tree_map" where
  "do_op x t =
     (if op_child x = op_parent x \<or> is_ancestor t (op_child x) (op_parent x) then t
      else hinsert (op_child x) (op_parent x, op_metadata x) t)"

definition replay :: "node_operation list \<Rightarrow> tree_map" where
  "replay ops = fold do_op ops []"

subsection \<open>Ancestors as a transitive closure\<close>

definition parent_rel :: "(node_id \<Rightarrow> (node_id \<times> node_meta) option) \<Rightarrow> (node_id \<times> node_id) set" where
  "parent_rel f = {(c, p). \<exists>m. f c = Some (p, m)}"

lemma parent_rel_iff: "(c, p) \<in> parent_rel f \<longleftrightarrow> (\<exists>m. f c = Some (p, m))"
  by (simp add: parent_rel_def)

lemma relpow_Suc_left: "(x, z) \<in> R ^^ Suc i \<longleftrightarrow> (\<exists>y. (x, y) \<in> R \<and> (y, z) \<in> R ^^ i)"
  by (auto intro: relpow_Suc_I2 elim!: relpow_Suc_E2 simp del: relpow.simps)

lemma is_above_relpow: "is_above t k a n \<longleftrightarrow> (\<exists>i. 0 < i \<and> i \<le> k \<and> (n, a) \<in> parent_rel (hget t) ^^ i)"
proof (induction k arbitrary: n)
  case (Suc k)
  show ?case
  proof (cases "hget t n")
    case None
    then have "(n, a) \<notin> parent_rel (hget t) ^^ i" if "0 < i" for i
      using that by (cases i) (auto simp: relpow_Suc_left parent_rel_iff simp del: relpow.simps)
    with None show ?thesis by auto
  next
    case (Some pm)
    obtain p m where pm: "pm = (p, m)" by force
    let ?R = "parent_rel (hget t)"
    have step: "(n, a) \<in> ?R ^^ Suc i \<longleftrightarrow> (p, a) \<in> ?R ^^ i" for i
      using Some pm unfolding relpow_Suc_left by (auto simp: parent_rel_iff)
    have "(\<exists>i. 0 < i \<and> i \<le> Suc k \<and> (n, a) \<in> ?R ^^ i) \<longleftrightarrow> (\<exists>i. i \<le> k \<and> (p, a) \<in> ?R ^^ i)"
      using step by (metis Suc_le_mono Suc_pred zero_less_Suc)
    also have "\<dots> \<longleftrightarrow> p = a \<or> (\<exists>i. 0 < i \<and> i \<le> k \<and> (p, a) \<in> ?R ^^ i)"
      by (metis neq0_conv pair_in_Id_conv relpow.simps(1) zero_le)
    finally show ?thesis using Some pm Suc.IH [of p] by simp
  qed
qed simp

lemma parent_rel_finite: "finite (parent_rel (hget t))" "card (parent_rel (hget t)) \<le> length t"
proof -
  have sub: "parent_rel (hget t) \<subseteq> (\<lambda>(c, p, m). (c, p)) ` set t"
    by (force simp: parent_rel_def hget_def dest: map_of_SomeD)
  then show "finite (parent_rel (hget t))" by (rule finite_subset) simp
  have "card (parent_rel (hget t)) \<le> card ((\<lambda>(c, p, m). (c, p)) ` set t)"
    using sub by (intro card_mono) simp_all
  also have "\<dots> \<le> card (set t)" by (rule card_image_le) simp
  also have "\<dots> \<le> length t" by (rule card_length)
  finally show "card (parent_rel (hget t)) \<le> length t" .
qed

lemma is_ancestor_iff: "is_ancestor t a n \<longleftrightarrow> (n, a) \<in> (parent_rel (hget t))\<^sup>+"
proof
  assume "is_ancestor t a n"
  then show "(n, a) \<in> (parent_rel (hget t))\<^sup>+"
    by (auto simp: is_ancestor_def is_above_relpow trancl_power)
next
  let ?R = "parent_rel (hget t)"
  assume "(n, a) \<in> ?R\<^sup>+"
  then have "(n, a) \<in> ntrancl (card ?R - 1) ?R"
    using finite_trancl_ntranl [OF parent_rel_finite(1)] by simp
  then obtain i where i: "0 < i" "i \<le> Suc (card ?R - 1)" "(n, a) \<in> ?R ^^ i"
    by (auto simp: ntrancl_def)
  have "?R \<noteq> {}" using i(1,3) by (cases i) auto
  then have "card ?R \<noteq> 0" using parent_rel_finite(1) by simp
  with i parent_rel_finite(2) [of t] have "i \<le> length t" by linarith
  with i show "is_ancestor t a n" by (auto simp: is_ancestor_def is_above_relpow)
qed

subsection \<open>One move\<close>

text \<open>A move takes effect unless it puts a node under itself or below one of its descendants.\<close>

definition move_effective :: "(node_id \<Rightarrow> (node_id \<times> node_meta) option) \<Rightarrow> node_id \<Rightarrow> node_id \<Rightarrow> bool" where
  "move_effective f child parent \<longleftrightarrow> child \<noteq> parent \<and> (parent, child) \<notin> (parent_rel f)\<^sup>+"

lemma hget_do_op:
  "hget (do_op x t) n =
    (if move_effective (hget t) (op_child x) (op_parent x) \<and> n = op_child x
     then Some (op_parent x, op_metadata x) else hget t n)"
  by (simp add: do_op_def move_effective_def is_ancestor_iff)

lemma parent_rel_update:
  "parent_rel (f(c \<mapsto> (p, m))) = insert (c, p) {(x, y) \<in> parent_rel f. x \<noteq> c}"
  by (auto simp: parent_rel_def split: if_splits)

lemma do_op_acyclic:
  assumes "acyclic (parent_rel (hget t))"
  shows "acyclic (parent_rel (hget (do_op x t)))"
proof (cases "move_effective (hget t) (op_child x) (op_parent x)")
  case False
  then have "hget (do_op x t) = hget t" by (simp add: fun_eq_iff hget_do_op)
  with assms show ?thesis by simp
next
  case True
  let ?R = "parent_rel (hget t)"
  let ?S = "{(a, b) \<in> ?R. a \<noteq> op_child x}"
  have sub: "?S \<subseteq> ?R" by auto
  have "(op_parent x, op_child x) \<notin> ?S\<^sup>*"
    using True trancl_mono [OF _ sub] by (auto simp: move_effective_def rtrancl_eq_or_trancl)
  moreover have "acyclic ?S" using assms sub by (rule acyclic_subset)
  moreover have "hget (do_op x t) = (hget t)(op_child x \<mapsto> (op_parent x, op_metadata x))"
    using True by (simp add: fun_eq_iff hget_do_op)
  ultimately show ?thesis by (simp add: parent_rel_update)
qed

lemma replay_snoc: "replay (xs @ [x]) = do_op x (replay xs)"
  by (simp add: replay_def)

lemma replay_acyclic: "acyclic (parent_rel (hget (replay ops)))"
proof (induction ops rule: rev_induct)
  case Nil
  then show ?case by (simp add: replay_def parent_rel_def acyclic_def)
qed (simp add: replay_snoc do_op_acyclic)

text \<open>In a tree without cycles a node can always be put back under its own parent.\<close>

lemma acyclic_keep_parent:
  "acyclic (parent_rel f) \<Longrightarrow> f c = Some (p, m) \<Longrightarrow> move_effective f c p"
  unfolding move_effective_def acyclic_def parent_rel_def
  by (metis (mono_tags, lifting) case_prodI mem_Collect_eq r_into_trancl' trancl_into_trancl2)

section \<open>The laws\<close>

lemma distinct_map_sort_key: "distinct (map f (sort_key f xs)) = distinct (map f xs)"
  by (rule mset_eq_imp_distinct_iff) simp

lemma distinct_map_insort_key:
  "distinct (map f (insort_key f x xs)) \<longleftrightarrow> f x \<notin> f ` set xs \<and> distinct (map f xs)"
  by (induction xs) (auto simp: set_insort_key)

definition log_stamps :: "node_operation list \<Rightarrow> clock set" where
  "log_stamps ops = op_timestamp ` set ops"

locale replica =
  fixes R :: "'t replica_api" and valid :: "'t \<Rightarrow> bool"
  assumes valid_new: "valid (r_new R peer)"
    and log_new: "r_log R (r_new R peer) = []"
    and valid_apply: "valid t \<Longrightarrow> valid (r_apply_op R x t)"
    and log_apply: "valid t \<Longrightarrow> set (r_log R (r_apply_op R x t)) =
      (if op_timestamp x \<in> log_stamps (r_log R t) then set (r_log R t) else insert x (set (r_log R t)))"
    and apply_ops: "valid t \<Longrightarrow> r_apply_ops R ops t = fold (r_apply_op R) ops t"
    and log_distinct: "valid t \<Longrightarrow> distinct (map op_timestamp (r_log R t))"
    and find_replay: "valid t \<Longrightarrow> r_find R t n = hget (replay (sort_key op_timestamp (r_log R t))) n"
    and children_distinct: "valid t \<Longrightarrow> distinct (r_children R t p)"
    and children_find: "valid t \<Longrightarrow> c \<in> set (r_children R t p) \<longleftrightarrow> (\<exists>m. r_find R t c = Some (p, m))"
begin

lemma find_eq: "valid t \<Longrightarrow> r_find R t = hget (replay (sort_key op_timestamp (r_log R t)))"
  by (simp add: fun_eq_iff find_replay)

lemma find_acyclic: "valid t \<Longrightarrow> acyclic (parent_rel (r_find R t))"
  by (simp add: find_eq replay_acyclic)

lemma log_new_set [simp]: "r_find R (r_new R p) n = None"
  by (simp add: find_replay valid_new log_new replay_def)

text \<open>Two sorted logs with the same operations are the same list.\<close>

lemma sorted_log_unique:
  assumes "distinct (map op_timestamp xs)" and "distinct (map op_timestamp ys)" and "set xs = set ys"
  shows "sort_key op_timestamp xs = sort_key op_timestamp ys"
proof (rule map_sorted_distinct_set_unique)
  show "inj_on op_timestamp (set (sort_key op_timestamp xs) \<union> set (sort_key op_timestamp ys))"
    using assms by (simp add: distinct_map)
  show "distinct (map op_timestamp (sort_key op_timestamp xs))"
    "distinct (map op_timestamp (sort_key op_timestamp ys))"
    using assms(1,2) by (simp_all only: distinct_map_sort_key)
qed (use assms(3) in simp_all)

text \<open>Convergence: the tree is determined by the set of operations in the log.\<close>

lemma find_converges:
  "valid t \<Longrightarrow> valid t' \<Longrightarrow> set (r_log R t) = set (r_log R t') \<Longrightarrow> r_find R t = r_find R t'"
  using sorted_log_unique log_distinct by (metis find_eq)

lemma children_converge:
  "valid t \<Longrightarrow> valid t' \<Longrightarrow> set (r_log R t) = set (r_log R t') \<Longrightarrow>
    set (r_children R t p) = set (r_children R t' p)"
  using find_converges [of t t'] by (auto simp: children_find)

text \<open>An operation newer than the whole log acts on the tree directly.\<close>

lemma find_newest:
  assumes "valid t" and "\<forall>y \<in> set (r_log R t). op_timestamp y < op_timestamp x"
  shows "r_find R (r_apply_op R x t) n =
    (if move_effective (r_find R t) (op_child x) (op_parent x) \<and> n = op_child x
     then Some (op_parent x, op_metadata x) else r_find R t n)"
proof -
  let ?t = "r_apply_op R x t" and ?old = "sort_key op_timestamp (r_log R t)"
  have new: "op_timestamp x \<notin> log_stamps (r_log R t)" using assms(2) by (auto simp: log_stamps_def)
  have d: "distinct (map op_timestamp (r_log R t @ [x]))"
    using log_distinct [OF assms(1)] new by (simp add: log_stamps_def)
  have "set (r_log R ?t) = set (r_log R t @ [x])" using log_apply [OF assms(1)] new by simp
  then have "sort_key op_timestamp (r_log R ?t) = sort_key op_timestamp (r_log R t @ [x])"
    using sorted_log_unique d log_distinct valid_apply assms(1) by blast
  also have "\<dots> = ?old @ [x]"
  proof -
    have "sorted (map op_timestamp (?old @ [x]))"
      using assms(2) by (auto simp: sorted_append less_imp_le)
    then have "sort_key op_timestamp (?old @ [x]) = ?old @ [x]" by (rule sort_key_id_if_sorted)
    moreover have "sort_key op_timestamp (r_log R t @ [x]) = sort_key op_timestamp (?old @ [x])"
    proof (rule sorted_log_unique [OF d])
      have "mset (map op_timestamp (?old @ [x])) = mset (map op_timestamp (r_log R t @ [x]))" by simp
      with d show "distinct (map op_timestamp (?old @ [x]))" using mset_eq_imp_distinct_iff by blast
    qed simp
    ultimately show ?thesis by simp
  qed
  finally have "r_find R ?t n = hget (do_op x (replay ?old)) n"
    using assms(1) valid_apply by (simp add: find_replay replay_snoc)
  then show ?thesis using assms(1) by (simp add: hget_do_op find_eq)
qed

lemma fold_apply_valid: "valid t \<Longrightarrow> valid (fold (r_apply_op R) ops t)"
  by (induction ops arbitrary: t) (auto intro: valid_apply)

lemma apply_ops_valid: "valid t \<Longrightarrow> valid (r_apply_ops R ops t)"
  by (simp add: apply_ops fold_apply_valid)

text \<open>Applying operations that do not clash with the log adds exactly them.\<close>

lemma apply_ops_log:
  assumes "valid t" and "inj_on op_timestamp (set (r_log R t) \<union> set ops)"
  shows "set (r_log R (r_apply_ops R ops t)) = set (r_log R t) \<union> set ops"
  unfolding apply_ops [OF assms(1)] using assms
proof (induction ops arbitrary: t)
  case (Cons x ops)
  let ?t = "r_apply_op R x t"
  have "set (r_log R ?t) = insert x (set (r_log R t))"
  proof (cases "op_timestamp x \<in> log_stamps (r_log R t)")
    case True
    then obtain y where "y \<in> set (r_log R t)" "op_timestamp y = op_timestamp x"
      by (auto simp: log_stamps_def)
    with Cons.prems(2) have "y = x" by (intro inj_onD [OF Cons.prems(2)]) simp_all
    with \<open>y \<in> _\<close> show ?thesis using log_apply [OF Cons.prems(1), of x] True by auto
  qed (use log_apply [OF Cons.prems(1), of x] in simp)
  with Cons.IH [OF valid_apply [OF Cons.prems(1)], of x] Cons.prems(2) show ?case
    by (simp add: insert_commute)
qed simp

lemma apply_ops_stamps:
  assumes "valid t"
  shows "log_stamps (r_log R (r_apply_ops R ops t)) = log_stamps (r_log R t) \<union> op_timestamp ` set ops"
    and "set (r_log R t) \<subseteq> set (r_log R (r_apply_ops R ops t))"
    and "set (r_log R (r_apply_ops R ops t)) \<subseteq> set (r_log R t) \<union> set ops"
proof -
  have "log_stamps (r_log R (fold (r_apply_op R) ops t)) = log_stamps (r_log R t) \<union> op_timestamp ` set ops \<and>
    set (r_log R t) \<subseteq> set (r_log R (fold (r_apply_op R) ops t)) \<and>
    set (r_log R (fold (r_apply_op R) ops t)) \<subseteq> set (r_log R t) \<union> set ops"
    using assms
  proof (induction ops arbitrary: t)
    case (Cons x ops)
    from Cons.IH [OF valid_apply [OF Cons.prems], of x] log_apply [OF Cons.prems, of x] show ?case
      by (auto simp: log_stamps_def split: if_splits)
  qed simp
  then show "log_stamps (r_log R (r_apply_ops R ops t)) = log_stamps (r_log R t) \<union> op_timestamp ` set ops"
    "set (r_log R t) \<subseteq> set (r_log R (r_apply_ops R ops t))"
    "set (r_log R (r_apply_ops R ops t)) \<subseteq> set (r_log R t) \<union> set ops"
    by (simp_all add: apply_ops [OF assms])
qed

end

section \<open>A replica that satisfies the laws\<close>

text \<open>The log in timestamp order; the tree is its replay.\<close>

definition ref_apply_op :: "node_operation \<Rightarrow> node_operation list \<Rightarrow> node_operation list" where
  "ref_apply_op x log =
     (if op_timestamp x \<in> log_stamps log then log else insort_key op_timestamp x log)"

definition ref_api :: "node_operation list replica_api" where
  "ref_api =
     \<lparr>r_new = (\<lambda>peer. []), r_apply_op = ref_apply_op, r_apply_ops = fold ref_apply_op,
      r_find = (\<lambda>log. hget (replay log)),
      r_children = (\<lambda>log p. map fst (filter (\<lambda>(c, p', m). p' = p) (replay log))),
      r_log = (\<lambda>log. log)\<rparr>"

definition ref_valid :: "node_operation list \<Rightarrow> bool" where
  "ref_valid log \<longleftrightarrow> sorted (map op_timestamp log) \<and> distinct (map op_timestamp log)"

lemma hwf_replay: "hwf (replay ops)"
  by (induction ops rule: rev_induct) (simp_all add: replay_snoc do_op_def, simp add: replay_def)

interpretation ref: replica ref_api ref_valid
proof unfold_locales
  fix t :: "node_operation list" and x :: node_operation
  assume t: "ref_valid t"
  show "ref_valid (r_apply_op ref_api x t)"
    using t by (auto simp: ref_valid_def ref_api_def ref_apply_op_def log_stamps_def sorted_insort_key
        set_insort_key distinct_map_insort_key)
  show "set (r_log ref_api (r_apply_op ref_api x t)) = (if op_timestamp x \<in> log_stamps (r_log ref_api t)
      then set (r_log ref_api t) else insert x (set (r_log ref_api t)))"
    by (simp add: ref_api_def ref_apply_op_def set_insort_key)
  show "distinct (map op_timestamp (r_log ref_api t))"
    using t by (simp add: ref_valid_def ref_api_def)
  show "r_find ref_api t n = hget (replay (sort_key op_timestamp (r_log ref_api t))) n" for n
    using t by (simp add: ref_valid_def ref_api_def sort_key_id_if_sorted)
  show "distinct (r_children ref_api t p)" for p
    using hwf_replay [of t] by (simp add: ref_api_def hwf_def distinct_map_filter)
  show "c \<in> set (r_children ref_api t p) \<longleftrightarrow> (\<exists>m. r_find ref_api t c = Some (p, m))" for c p
    by (force simp: ref_api_def hget_Some_in [OF hwf_replay, symmetric])
qed (simp_all add: ref_api_def ref_valid_def)

end
