(* ===== verification/NodeTree.thy ===== *)
theory NodeTree
  imports Replica Hlc
begin

text \<open>
  The metadata tree of \<open>src/src/filesystem/tree/mod.rs\<close>: a replica of the operation log
  (parameter \<open>R\<close>, see \<open>Replica\<close>) and the hybrid logical clock that stamps local operations.

  Every operation that issues a stamp takes the system time it reads as its argument;
  \<open>nt_apply_operations\<close> takes one reading per operation, as the code reads the time once per
  observed operation.
\<close>

section \<open>The code\<close>

record 't node_tree =
  nt_peer_id :: peer_id
  nt_tree :: 't
  nt_clock :: hlc

definition nt_new :: "'t replica_api \<Rightarrow> peer_id \<Rightarrow> 't node_tree" where
  "nt_new R peer_id = \<lparr>nt_peer_id = peer_id, nt_tree = r_new R peer_id, nt_clock = hlc_new\<rparr>"

definition nt_move_operation ::
  "nat option \<Rightarrow> node_id \<Rightarrow> node_id \<Rightarrow> node_meta \<Rightarrow> 't node_tree \<Rightarrow> node_operation \<times> 't node_tree"
where
  "nt_move_operation now node_id parent_id metadata nt =
     (let (stamp, clk) = hlc_next now (nt_clock nt) in
      (\<lparr>op_timestamp = Clock (nt_peer_id nt) stamp, op_parent = parent_id,
        op_metadata = metadata, op_child = node_id\<rparr>,
       nt\<lparr>nt_clock := clk\<rparr>))"

definition nt_metadata :: "'t replica_api \<Rightarrow> 't node_tree \<Rightarrow> node_id \<Rightarrow> node_meta option" where
  "nt_metadata R nt node_id = map_option snd (r_find R (nt_tree nt) node_id)"

definition nt_parent_id :: "'t replica_api \<Rightarrow> 't node_tree \<Rightarrow> node_id \<Rightarrow> node_id option" where
  "nt_parent_id R nt node_id = map_option fst (r_find R (nt_tree nt) node_id)"

definition nt_children ::
  "'t replica_api \<Rightarrow> 't node_tree \<Rightarrow> node_id \<Rightarrow> (node_id list, node_tree_error) result"
where
  "nt_children R nt parent_id =
     (if \<not> is_reserved parent_id \<and> r_find R (nt_tree nt) parent_id = None then Err TreeNotFound
      else Ok (r_children R (nt_tree nt) parent_id))"

definition nt_is_trashed :: "'t replica_api \<Rightarrow> 't node_tree \<Rightarrow> node_id \<Rightarrow> bool" where
  "nt_is_trashed R nt node_id = (nt_parent_id R nt node_id = Some TRASH)"

definition nt_create_node ::
  "'t replica_api \<Rightarrow> nat option \<Rightarrow> node_id \<Rightarrow> node_id \<Rightarrow> node_meta \<Rightarrow> 't node_tree \<Rightarrow>
    node_operation \<times> 't node_tree"
where
  "nt_create_node R now parent_id node_id metadata nt =
     (let (operation, nt') = nt_move_operation now node_id parent_id metadata nt
      in (operation, nt'\<lparr>nt_tree := r_apply_op R operation (nt_tree nt')\<rparr>))"

definition nt_move_node ::
  "'t replica_api \<Rightarrow> nat option \<Rightarrow> node_id \<Rightarrow> node_id \<Rightarrow> node_meta \<Rightarrow> 't node_tree \<Rightarrow>
    (node_operation, node_tree_error) result \<times> 't node_tree"
where
  "nt_move_node R now node_id parent_id metadata nt =
     (if nt_metadata R nt node_id = None then (Err TreeNotFound, nt)
      else
        (let (operation, nt') = nt_move_operation now node_id parent_id metadata nt
         in (Ok operation, nt'\<lparr>nt_tree := r_apply_op R operation (nt_tree nt')\<rparr>)))"

definition nt_delete_node ::
  "'t replica_api \<Rightarrow> nat option \<Rightarrow> node_id \<Rightarrow> 't node_tree \<Rightarrow>
    (node_operation, node_tree_error) result \<times> 't node_tree"
where
  "nt_delete_node R now node_id nt =
     (if is_reserved node_id then (Err TreeReservedNode, nt)
      else
        (case nt_metadata R nt node_id of
           None \<Rightarrow> (Err TreeNotFound, nt)
         | Some metadata \<Rightarrow>
             (let (operation, nt') = nt_move_operation now node_id TRASH metadata nt
              in (Ok operation, nt'\<lparr>nt_tree := r_apply_op R operation (nt_tree nt')\<rparr>))))"

text \<open>The observations of a batch: the \<open>i\<close>-th operation with the \<open>i\<close>-th reading of the time.\<close>

definition observations :: "(nat \<Rightarrow> nat option) \<Rightarrow> node_operation list \<Rightarrow> (nat option \<times> u64) list" where
  "observations readings ops = map (\<lambda>(i, x). (readings i, counter (op_timestamp x))) (enumerate 0 ops)"

definition nt_apply_operations ::
  "'t replica_api \<Rightarrow> (nat \<Rightarrow> nat option) \<Rightarrow> node_operation list \<Rightarrow> 't node_tree \<Rightarrow> 't node_tree"
where
  "nt_apply_operations R readings ops nt =
     nt\<lparr>nt_clock := absorb_all hlc_observe (observations readings ops) (nt_clock nt),
        nt_tree := r_apply_ops R ops (nt_tree nt)\<rparr>"

definition op_id_of :: "node_operation \<Rightarrow> op_id" where
  "op_id_of x = (actor_id (op_timestamp x), counter (op_timestamp x))"

definition nt_operation_ids :: "'t replica_api \<Rightarrow> 't node_tree \<Rightarrow> op_id list" where
  "nt_operation_ids R nt = map op_id_of (r_log R (nt_tree nt))"

definition nt_operations_missing_from ::
  "'t replica_api \<Rightarrow> 't node_tree \<Rightarrow> op_id set \<Rightarrow> node_operation list"
where
  "nt_operations_missing_from R nt ids = filter (\<lambda>x. op_id_of x \<notin> ids) (r_log R (nt_tree nt))"

section \<open>The invariant\<close>

text \<open>The clock is at least every stamp in the log, so the next stamp is above them all.\<close>

definition tree_inv :: "'t replica_api \<Rightarrow> ('t \<Rightarrow> bool) \<Rightarrow> 't node_tree \<Rightarrow> bool" where
  "tree_inv R valid nt \<longleftrightarrow>
     valid (nt_tree nt) \<and> hlc_ok (nt_clock nt) \<and>
     (\<forall>x \<in> set (r_log R (nt_tree nt)). counter (op_timestamp x) \<le> hlc_pack (nt_clock nt))"

definition can_stamp :: "nat option \<Rightarrow> 't node_tree \<Rightarrow> bool" where
  "can_stamp now nt \<longleftrightarrow> time_ok now \<and> hlc_room now (nt_clock nt)"

definition tree_find :: "'t replica_api \<Rightarrow> 't node_tree \<Rightarrow> node_id \<Rightarrow> (node_id \<times> node_meta) option" where
  "tree_find R nt = r_find R (nt_tree nt)"

definition op_ids_unique :: "node_operation set \<Rightarrow> bool" where
  "op_ids_unique S \<longleftrightarrow> inj_on op_id_of S"

lemma op_id_of_timestamp: "op_id_of x = op_id_of y \<longleftrightarrow> op_timestamp x = op_timestamp y"
  by (cases "op_timestamp x"; cases "op_timestamp y") (auto simp: op_id_of_def)

lemma op_ids_unique_iff: "op_ids_unique S \<longleftrightarrow> inj_on op_timestamp S"
  by (simp add: op_ids_unique_def inj_on_def op_id_of_timestamp)

lemma observations_set:
  "(t, r) \<in> set (observations readings ops) \<Longrightarrow> \<exists>i. t = readings i"
  "x \<in> set ops \<Longrightarrow> \<exists>t. (t, counter (op_timestamp x)) \<in> set (observations readings ops)"
proof -
  show "(t, r) \<in> set (observations readings ops) \<Longrightarrow> \<exists>i. t = readings i"
    by (auto simp: observations_def)
  assume "x \<in> set ops"
  then obtain i where "i < length ops" "ops ! i = x" by (auto simp: in_set_conv_nth)
  then have "(i, x) \<in> set (enumerate 0 ops)" by (simp add: in_set_enumerate_eq)
  then show "\<exists>t. (t, counter (op_timestamp x)) \<in> set (observations readings ops)"
    unfolding observations_def by force
qed

text \<open>Issuing one local operation.\<close>

definition issue_op ::
  "'t replica_api \<Rightarrow> nat option \<Rightarrow> node_id \<Rightarrow> node_id \<Rightarrow> node_meta \<Rightarrow> 't node_tree \<Rightarrow>
    node_operation \<times> 't node_tree"
where
  "issue_op R now n p m nt =
     (let (x, nt') = nt_move_operation now n p m nt in (x, nt'\<lparr>nt_tree := r_apply_op R x (nt_tree nt')\<rparr>))"

lemma nt_create_issue: "nt_create_node R now p n m nt = issue_op R now n p m nt"
  by (simp add: nt_create_node_def issue_op_def)

lemma nt_move_issue:
  "nt_move_node R now n p m nt =
    (if nt_metadata R nt n = None then (Err TreeNotFound, nt)
     else (let (x, nt') = issue_op R now n p m nt in (Ok x, nt')))"
  by (simp add: nt_move_node_def issue_op_def split_def Let_def)

lemma nt_delete_issue:
  "nt_delete_node R now n nt =
    (if is_reserved n then (Err TreeReservedNode, nt)
     else case nt_metadata R nt n of None \<Rightarrow> (Err TreeNotFound, nt)
       | Some m \<Rightarrow> (let (x, nt') = issue_op R now n TRASH m nt in (Ok x, nt')))"
  by (simp add: nt_delete_node_def issue_op_def split_def Let_def split: option.splits)

context replica begin

lemma issue_op_effect:
  assumes "tree_inv R valid nt" and "can_stamp now nt" and "issue_op R now n p m nt = (x, nt')"
  shows "tree_inv R valid nt'" and "nt_peer_id nt' = nt_peer_id nt"
    and "op_parent x = p" and "op_child x = n" and "op_metadata x = m"
    and "actor_id (op_timestamp x) = nt_peer_id nt"
    and "\<forall>y \<in> set (r_log R (nt_tree nt)). op_timestamp y < op_timestamp x"
    and "set (r_log R (nt_tree nt')) = insert x (set (r_log R (nt_tree nt)))"
    and "tree_find R nt' k = (if move_effective (tree_find R nt) n p \<and> k = n then Some (p, m) else tree_find R nt k)"
proof -
  obtain s clk where s: "hlc_next now (nt_clock nt) = (s, clk)" by force
  from assms(1,2) have ok: "hlc_ok (nt_clock nt)" "time_ok now" "hlc_room now (nt_clock nt)"
    and v: "valid (nt_tree nt)" by (simp_all add: tree_inv_def can_stamp_def)
  from clock.issue_law [OF ok s] have clk: "hlc_ok clk" "hlc_pack clk = s" "hlc_pack (nt_clock nt) < s"
    by simp_all
  have x: "x = \<lparr>op_timestamp = Clock (nt_peer_id nt) s, op_parent = p, op_metadata = m, op_child = n\<rparr>"
    and nt': "nt' = nt\<lparr>nt_clock := clk, nt_tree := r_apply_op R x (nt_tree nt)\<rparr>"
    using assms(3) s by (auto simp: issue_op_def nt_move_operation_def)
  show "nt_peer_id nt' = nt_peer_id nt" "op_parent x = p" "op_child x = n" "op_metadata x = m"
    "actor_id (op_timestamp x) = nt_peer_id nt" by (simp_all add: x nt')
  have below: "counter (op_timestamp y) < s" if "y \<in> set (r_log R (nt_tree nt))" for y
    using that assms(1) clk(3) by (auto simp: tree_inv_def intro: order.strict_trans1)
  then show newest: "\<forall>y \<in> set (r_log R (nt_tree nt)). op_timestamp y < op_timestamp x"
    by (simp add: x less_clock_def)
  then have "op_timestamp x \<notin> log_stamps (r_log R (nt_tree nt))" by (auto simp: log_stamps_def)
  then show log: "set (r_log R (nt_tree nt')) = insert x (set (r_log R (nt_tree nt)))"
    using log_apply [OF v] by (simp add: nt')
  have "counter (op_timestamp x) = s" by (simp add: x)
  with below log clk show "tree_inv R valid nt'"
    by (auto simp: tree_inv_def nt' valid_apply v less_imp_le)
  show "tree_find R nt' k = (if move_effective (tree_find R nt) n p \<and> k = n then Some (p, m) else tree_find R nt k)"
    using find_newest [OF v newest] by (simp add: tree_find_def nt' x)
qed

lemma nt_new_inv: "tree_inv R valid (nt_new R peer)"
  by (simp add: tree_inv_def nt_new_def valid_new log_new)

lemma apply_operations_inv:
  assumes "tree_inv R valid nt" and "\<And>i. time_ok (readings i)"
  shows "tree_inv R valid (nt_apply_operations R readings ops nt)"
proof -
  have v: "valid (nt_tree nt)" and ok: "hlc_ok (nt_clock nt)" using assms(1) by (simp_all add: tree_inv_def)
  let ?h = "absorb_all hlc_observe (observations readings ops) (nt_clock nt)"
  have good: "\<forall>(t, r) \<in> set (observations readings ops). time_ok t"
    using assms(2) observations_set(1) by blast
  note cover = clock.absorb_all_covers [OF ok good]
  have "counter (op_timestamp x) \<le> hlc_pack ?h"
    if "x \<in> set (r_log R (nt_tree nt)) \<union> set ops" for x
    using that
  proof
    assume "x \<in> set ops"
    then show ?thesis using observations_set(2) cover(3) by blast
  qed (use assms(1) cover(2) in \<open>auto simp: tree_inv_def intro: order_trans\<close>)
  then show ?thesis
    using apply_ops_stamps(3) [OF v, of ops] cover(1) apply_ops_valid [OF v]
    by (auto simp: tree_inv_def nt_apply_operations_def)
qed

lemma find_acyclic_inv: "tree_inv R valid nt \<Longrightarrow> acyclic (parent_rel (tree_find R nt))"
  by (simp add: tree_find_def find_acyclic tree_inv_def)

lemma children_iff:
  "tree_inv R valid nt \<Longrightarrow> c \<in> set (r_children R (nt_tree nt) p) \<longleftrightarrow> (\<exists>m. tree_find R nt c = Some (p, m))"
  by (simp add: tree_find_def children_find tree_inv_def)

end

lemma nt_metadata_find: "nt_metadata R nt n = map_option snd (tree_find R nt n)"
  by (simp add: nt_metadata_def tree_find_def)

lemma nt_parent_find: "nt_parent_id R nt n = map_option fst (tree_find R nt n)"
  by (simp add: nt_parent_id_def tree_find_def)

lemma nt_children_find:
  "nt_children R nt p = (if \<not> is_reserved p \<and> tree_find R nt p = None then Err TreeNotFound
     else Ok (r_children R (nt_tree nt) p))"
  by (simp add: nt_children_def tree_find_def)

section \<open>Reachable trees\<close>

text \<open>The states a node's tree can reach: local creations, moves and deletions, each with room for
  a stamp, and batches of operations received from peers, in any order.\<close>

inductive tree_reachable :: "'t replica_api \<Rightarrow> peer_id \<Rightarrow> 't node_tree \<Rightarrow> bool"
  for R :: "'t replica_api" and peer :: peer_id
where
  start: "tree_reachable R peer (nt_new R peer)"
| create: "tree_reachable R peer nt \<Longrightarrow> can_stamp now nt \<Longrightarrow>
    nt_create_node R now p n m nt = (x, nt') \<Longrightarrow> tree_reachable R peer nt'"
| move: "tree_reachable R peer nt \<Longrightarrow> can_stamp now nt \<Longrightarrow>
    nt_move_node R now n p m nt = (r, nt') \<Longrightarrow> tree_reachable R peer nt'"
| delete: "tree_reachable R peer nt \<Longrightarrow> can_stamp now nt \<Longrightarrow>
    nt_delete_node R now n nt = (r, nt') \<Longrightarrow> tree_reachable R peer nt'"
| remote: "tree_reachable R peer nt \<Longrightarrow> (\<And>i. time_ok (readings i)) \<Longrightarrow>
    tree_reachable R peer (nt_apply_operations R readings ops nt)"

context replica begin

lemma move_node_inv:
  assumes "tree_inv R valid nt" and "can_stamp now nt" and "nt_move_node R now n p m nt = (r, nt')"
  shows "tree_inv R valid nt'"
  using assms issue_op_effect(1) [OF assms(1,2)]
  by (auto simp: nt_move_issue split: if_splits prod.splits)

lemma delete_node_inv:
  assumes "tree_inv R valid nt" and "can_stamp now nt" and "nt_delete_node R now n nt = (r, nt')"
  shows "tree_inv R valid nt'"
  using assms issue_op_effect(1) [OF assms(1,2)]
  by (auto simp: nt_delete_issue split: if_splits prod.splits option.splits)

lemma tree_reachable_inv: "tree_reachable R peer nt \<Longrightarrow> tree_inv R valid nt"
proof (induction rule: tree_reachable.induct)
  case (create nt now p n m x nt')
  then show ?case using issue_op_effect(1) [of nt now n p m x nt'] by (simp add: nt_create_issue)
qed (auto intro: nt_new_inv move_node_inv delete_node_inv apply_operations_inv)

lemma missing_ops_set:
  "set (nt_operations_missing_from R a (set (nt_operation_ids R b))) =
    {x \<in> set (r_log R (nt_tree a)). op_timestamp x \<notin> log_stamps (r_log R (nt_tree b))}"
  by (auto simp: nt_operations_missing_from_def nt_operation_ids_def log_stamps_def op_id_of_timestamp image_iff)

lemma pull_log:
  assumes "valid (nt_tree a)" and "valid (nt_tree b)"
    and "op_ids_unique (set (r_log R (nt_tree a)) \<union> set (r_log R (nt_tree b)))"
  shows "set (r_log R (nt_tree (nt_apply_operations R readings
      (nt_operations_missing_from R a (set (nt_operation_ids R b))) b))) =
    set (r_log R (nt_tree a)) \<union> set (r_log R (nt_tree b))"
proof -
  let ?ops = "nt_operations_missing_from R a (set (nt_operation_ids R b))"
  let ?A = "set (r_log R (nt_tree a))" and ?B = "set (r_log R (nt_tree b))"
  have inj: "inj_on op_timestamp (?A \<union> ?B)" using assms(3) by (simp add: op_ids_unique_iff)
  have "set ?ops \<subseteq> ?A" by (auto simp: missing_ops_set)
  then have "inj_on op_timestamp (?B \<union> set ?ops)" by (intro inj_on_subset [OF inj]) auto
  from apply_ops_log [OF assms(2) this] have
    "set (r_log R (nt_tree (nt_apply_operations R readings ?ops b))) = ?B \<union> set ?ops"
    by (simp add: nt_apply_operations_def)
  moreover have "x \<in> ?B" if "x \<in> ?A" "op_timestamp x \<in> log_stamps (r_log R (nt_tree b))" for x
    using that inj by (auto simp: log_stamps_def dest: inj_onD)
  ultimately show ?thesis by (auto simp: missing_ops_set)
qed

end

section \<open>Properties\<close>

text \<open>In every state a node's tree can reach, whatever was created, moved, deleted or received in
  whatever order, the tree has no cycle, operation ids in the log are unique, and the operation
  the node issues next is newer than every operation it has applied, so a local edit is never
  overridden by one already seen.\<close>

theorem tree_reachable_invariant:
  assumes "replica R valid" and "tree_reachable R peer nt"
  shows "acyclic (parent_rel (tree_find R nt)) \<and> distinct (nt_operation_ids R nt) \<and>
    (\<forall>now n p m x nt'. can_stamp now nt \<and> nt_move_operation now n p m nt = (x, nt') \<longrightarrow>
       (\<forall>y \<in> set (r_log R (nt_tree nt)). op_timestamp y < op_timestamp x))"
proof -
  note inv = replica.tree_reachable_inv [OF assms]
  then have "valid (nt_tree nt)" by (simp add: tree_inv_def)
  from replica.log_distinct [OF assms(1) this] have "distinct (map op_id_of (r_log R (nt_tree nt)))"
    by (simp add: distinct_map inj_on_def op_id_of_timestamp)
  moreover have "\<forall>y \<in> set (r_log R (nt_tree nt)). op_timestamp y < op_timestamp x"
    if "can_stamp now nt" "nt_move_operation now n p m nt = (x, nt')" for now n p m x nt'
    using replica.issue_op_effect(7) [OF assms(1) inv that(1), of n p m x] that(2)
    by (simp add: issue_op_def)
  ultimately show ?thesis
    using replica.find_acyclic_inv [OF assms(1) inv] by (auto simp: nt_operation_ids_def)
qed

theorem tree_reachable_invariant_witness:
  "distinct (nt_operation_ids ref_api (snd (nt_create_node ref_api (Some 5) ROOT (NodeId 7)
     (Directory ''d'') (nt_new ref_api (PeerId 1)))))"
proof -
  obtain x nt' where c: "nt_create_node ref_api (Some 5) ROOT (NodeId 7) (Directory ''d'') (nt_new ref_api (PeerId 1))
      = (x, nt')" by force
  have "can_stamp (Some 5) (nt_new ref_api (PeerId 1))"
    by (simp add: can_stamp_def nt_new_def hlc_eval)
  from tree_reachable_invariant [OF ref.replica_axioms
      tree_reachable.create [OF tree_reachable.start this c]] c show ?thesis by simp
qed

text \<open>A local move (creating a node, writing its metadata, renaming it) is visible at once:
  unless it would put the node under itself or its own descendant, the node has the given parent
  and metadata afterwards; if it would, nothing changes. No other node is affected. Moving an
  unknown node is refused and leaves the state as it was.\<close>

theorem move_node_takes_effect:
  assumes "replica R valid" and "tree_inv R valid nt" and "can_stamp now nt"
    and "nt_move_node R now n p m nt = (r, nt')"
  shows "(nt_metadata R nt n = None \<longrightarrow> r = Err TreeNotFound \<and> nt' = nt) \<and>
    (nt_metadata R nt n \<noteq> None \<longrightarrow> (\<exists>x. r = Ok x \<and> op_child x = n \<and> op_parent x = p \<and> op_metadata x = m \<and>
         set (r_log R (nt_tree nt')) = insert x (set (r_log R (nt_tree nt)))) \<and>
       (\<forall>k. tree_find R nt' k =
         (if k = n \<and> n \<noteq> p \<and> (p, n) \<notin> (parent_rel (tree_find R nt))\<^sup>+ then Some (p, m) else tree_find R nt k)))"
proof (cases "nt_metadata R nt n")
  case None
  with assms(4) show ?thesis by (simp add: nt_move_issue)
next
  case (Some m')
  obtain x where "issue_op R now n p m nt = (x, nt')" "r = Ok x"
    using assms(4) Some by (auto simp: nt_move_issue split: prod.splits)
  with replica.issue_op_effect [OF assms(1-3) this(1)] Some show ?thesis
    by (auto simp: move_effective_def)
qed

theorem move_node_takes_effect_witness:
  "fst (nt_move_node ref_api (Some 3) (NodeId 7) ROOT (Directory ''d'') (nt_new ref_api (PeerId 1)))
    = Err TreeNotFound"
proof -
  let ?nt = "nt_new ref_api (PeerId 1)"
  obtain r nt' where m: "nt_move_node ref_api (Some 3) (NodeId 7) ROOT (Directory ''d'') ?nt = (r, nt')" by force
  have "can_stamp (Some 3) ?nt" by (simp add: can_stamp_def nt_new_def hlc_eval)
  from move_node_takes_effect [OF ref.replica_axioms ref.nt_new_inv this m] m show ?thesis
    by (simp add: nt_metadata_def nt_new_def)
qed

text \<open>Deleting a node moves it under the trash: afterwards it is trashed, keeps its metadata and
  is no longer listed among its old parent's children. A reserved or unknown node is refused,
  and then nothing changes.\<close>

theorem delete_node_trashes:
  assumes "replica R valid" and "tree_inv R valid nt" and "can_stamp now nt"
    and "nt_delete_node R now n nt = (r, nt')" and "tree_find R nt TRASH = None"
  shows "(is_reserved n \<longrightarrow> r = Err TreeReservedNode \<and> nt' = nt) \<and>
    (\<not> is_reserved n \<and> nt_metadata R nt n = None \<longrightarrow> r = Err TreeNotFound \<and> nt' = nt) \<and>
    (\<not> is_reserved n \<and> nt_metadata R nt n \<noteq> None \<longrightarrow>
       is_ok r \<and> nt_is_trashed R nt' n \<and> nt_metadata R nt' n = nt_metadata R nt n \<and>
       (\<forall>p. p \<noteq> TRASH \<longrightarrow> n \<notin> set (r_children R (nt_tree nt') p)) \<and>
       (\<forall>k. k \<noteq> n \<longrightarrow> tree_find R nt' k = tree_find R nt k))"
proof (cases "is_reserved n \<or> nt_metadata R nt n = None")
  case True
  with assms(4) show ?thesis by (auto simp: nt_delete_issue split: if_splits)
next
  case False
  then obtain m where m: "nt_metadata R nt n = Some m" by auto
  obtain x where x: "issue_op R now n TRASH m nt = (x, nt')" "r = Ok x"
    using assms(4) False m by (auto simp: nt_delete_issue split: prod.splits)
  note eff = replica.issue_op_effect [OF assms(1-3) x(1)]
  have "(TRASH, n) \<notin> (parent_rel (tree_find R nt))\<^sup>+"
    using assms(5) by (auto simp: parent_rel_def dest: tranclD)
  then have "move_effective (tree_find R nt) n TRASH"
    using False by (auto simp: move_effective_def is_reserved_def)
  with eff(9) have look: "tree_find R nt' k = (if k = n then Some (TRASH, m) else tree_find R nt k)" for k
    by simp
  then have "n \<notin> set (r_children R (nt_tree nt') p)" if "p \<noteq> TRASH" for p
    using that replica.children_iff [OF assms(1) eff(1)] by simp
  with look False m x(2) show ?thesis
    by (auto simp: nt_is_trashed_def nt_parent_find nt_metadata_find)
qed

theorem delete_node_trashes_witness:
  "fst (nt_delete_node ref_api (Some 3) ROOT (nt_new ref_api (PeerId 1))) = Err TreeReservedNode"
proof -
  let ?nt = "nt_new ref_api (PeerId 1)"
  obtain r nt' where d: "nt_delete_node ref_api (Some 3) ROOT ?nt = (r, nt')" by force
  have "can_stamp (Some 3) ?nt" "tree_find ref_api ?nt TRASH = None"
    by (simp_all add: can_stamp_def nt_new_def hlc_eval tree_find_def)
  from delete_node_trashes [OF ref.replica_axioms ref.nt_new_inv this(1) d this(2)] d show ?thesis by simp
qed

text \<open>Anti-entropy converges. When two nodes pull from each other the operations missing from
  their logs (\<open>operation_ids\<close> sent, \<open>operations_missing_from\<close> returned, \<open>apply_operations\<close> on
  arrival), both end with the union of the two logs and with the same tree: the same metadata
  and parent for every node and the same children for every directory. A further pull
  transfers nothing.\<close>

theorem sync_exchange_converges:
  assumes "replica R valid" and "tree_reachable R peer_a a" and "tree_reachable R peer_b b"
    and "op_ids_unique (set (r_log R (nt_tree a)) \<union> set (r_log R (nt_tree b)))"
    and "a' = nt_apply_operations R ra (nt_operations_missing_from R b (set (nt_operation_ids R a))) a"
    and "b' = nt_apply_operations R rb (nt_operations_missing_from R a (set (nt_operation_ids R b))) b"
  shows "set (r_log R (nt_tree a')) = set (r_log R (nt_tree a)) \<union> set (r_log R (nt_tree b)) \<and>
    set (r_log R (nt_tree b')) = set (r_log R (nt_tree a)) \<union> set (r_log R (nt_tree b)) \<and>
    (\<forall>n. nt_metadata R a' n = nt_metadata R b' n \<and> nt_parent_id R a' n = nt_parent_id R b' n) \<and>
    (\<forall>p. set (r_children R (nt_tree a') p) = set (r_children R (nt_tree b') p)) \<and>
    nt_operations_missing_from R a' (set (nt_operation_ids R b')) = []"
proof -
  have va: "valid (nt_tree a)" and vb: "valid (nt_tree b)"
    using replica.tree_reachable_inv [OF assms(1)] assms(2,3) by (auto simp: tree_inv_def)
  then have va': "valid (nt_tree a')" and vb': "valid (nt_tree b')"
    using replica.apply_ops_valid [OF assms(1)] by (simp_all add: assms(5,6) nt_apply_operations_def)
  have la: "set (r_log R (nt_tree a')) = set (r_log R (nt_tree a)) \<union> set (r_log R (nt_tree b))"
    using replica.pull_log [OF assms(1) vb va, of ra] assms(4) by (simp add: assms(5) Un_commute)
  have lb: "set (r_log R (nt_tree b')) = set (r_log R (nt_tree a)) \<union> set (r_log R (nt_tree b))"
    using replica.pull_log [OF assms(1) va vb, of rb] assms(4) by (simp add: assms(6))
  have find: "tree_find R a' = tree_find R b'"
    using replica.find_converges [OF assms(1) va' vb'] la lb by (simp add: tree_find_def)
  have "set (nt_operations_missing_from R a' (set (nt_operation_ids R b'))) = {}"
    using la lb by (auto simp: replica.missing_ops_set [OF assms(1)] log_stamps_def)
  then show ?thesis
    using la lb find replica.children_converge [OF assms(1) va' vb']
    by (simp add: nt_metadata_find nt_parent_find)
qed

theorem sync_exchange_converges_witness:
  "\<exists>a b x y. r_log ref_api (nt_tree a) = [x] \<and> r_log ref_api (nt_tree b) = [y] \<and> x \<noteq> y \<and>
    nt_metadata ref_api (nt_apply_operations ref_api (\<lambda>_. None)
        (nt_operations_missing_from ref_api b (set (nt_operation_ids ref_api a))) a) =
    nt_metadata ref_api (nt_apply_operations ref_api (\<lambda>_. None)
        (nt_operations_missing_from ref_api a (set (nt_operation_ids ref_api b))) b)"
proof -
  let ?a0 = "nt_new ref_api (PeerId 1)" and ?b0 = "nt_new ref_api (PeerId 2)"
  obtain x a where a: "nt_create_node ref_api (Some 5) ROOT (NodeId 7) (Directory ''d'') ?a0 = (x, a)" by force
  obtain y b where b: "nt_create_node ref_api (Some 5) ROOT (NodeId 7) (Directory ''e'') ?b0 = (y, b)" by force
  have st: "can_stamp (Some 5) ?a0" "can_stamp (Some 5) ?b0"
    by (simp_all add: can_stamp_def nt_new_def hlc_eval)
  note ra = tree_reachable.create [OF tree_reachable.start st(1) a]
    and rb = tree_reachable.create [OF tree_reachable.start st(2) b]
  have log: "r_log ref_api (nt_tree a) = [x]" "r_log ref_api (nt_tree b) = [y]"
    and xy: "op_id_of x = (PeerId 1, 5 * 65536)" "op_id_of y = (PeerId 2, 5 * 65536)"
    using a b by (auto simp: nt_create_node_def nt_move_operation_def nt_new_def ref_api_def ref_apply_op_def
        log_stamps_def op_id_of_def hlc_eval)
  then have "op_ids_unique (set (r_log ref_api (nt_tree a)) \<union> set (r_log ref_api (nt_tree b)))"
    by (auto simp: op_ids_unique_def)
  from sync_exchange_converges [OF ref.replica_axioms ra rb this refl refl] log xy show ?thesis
    by (intro exI [of _ a] exI [of _ b] exI [of _ x] exI [of _ y]) (auto simp: fun_eq_iff)
qed

text \<open>Delivery order and duplicates do not matter: two batches with the same operations, in any
  order and with any repetitions, produce the same tree, and delivering a batch again changes
  nothing in the tree.\<close>

theorem apply_operations_order_irrelevant:
  assumes "replica R valid" and "tree_inv R valid nt" and "set ops = set ops'"
    and "op_ids_unique (set (r_log R (nt_tree nt)) \<union> set ops)"
  shows "tree_find R (nt_apply_operations R r ops nt) = tree_find R (nt_apply_operations R r' ops' nt) \<and>
    tree_find R (nt_apply_operations R r' ops' (nt_apply_operations R r ops nt)) =
      tree_find R (nt_apply_operations R r ops nt)"
proof -
  have v: "valid (nt_tree nt)" using assms(2) by (simp add: tree_inv_def)
  have inj: "inj_on op_timestamp (set (r_log R (nt_tree nt)) \<union> set xs)" if "set xs = set ops" for xs
    using assms(4) that by (simp add: op_ids_unique_iff)
  let ?one = "nt_apply_operations R r ops nt"
  have l1: "set (r_log R (nt_tree ?one)) = set (r_log R (nt_tree nt)) \<union> set ops"
    and l2: "set (r_log R (nt_tree (nt_apply_operations R r' ops' nt))) = set (r_log R (nt_tree nt)) \<union> set ops"
    using replica.apply_ops_log [OF assms(1) v] inj assms(3) by (simp_all add: nt_apply_operations_def)
  have v1: "valid (nt_tree ?one)" "valid (nt_tree (nt_apply_operations R r' ops' nt))"
    "valid (nt_tree (nt_apply_operations R r' ops' ?one))"
    using v replica.apply_ops_valid [OF assms(1)] by (simp_all add: nt_apply_operations_def)
  have "set (r_log R (nt_tree (nt_apply_operations R r' ops' ?one))) = set (r_log R (nt_tree nt)) \<union> set ops"
    using replica.apply_ops_log [OF assms(1) v1(1), of ops'] inj [of ops] l1 assms(3)
    by (simp add: nt_apply_operations_def Un_assoc)
  with l1 l2 v1 show ?thesis
    using replica.find_converges [OF assms(1)] unfolding tree_find_def by metis
qed

theorem apply_operations_order_irrelevant_witness:
  defines "x \<equiv> \<lparr>op_timestamp = Clock (PeerId 2) 1, op_parent = ROOT, op_metadata = Directory ''x'', op_child = NodeId 7\<rparr>"
    and "y \<equiv> \<lparr>op_timestamp = Clock (PeerId 3) 1, op_parent = ROOT, op_metadata = Directory ''y'', op_child = NodeId 7\<rparr>"
  shows "tree_find ref_api (nt_apply_operations ref_api (\<lambda>_. None) [x, y, x] (nt_new ref_api (PeerId 1))) =
    tree_find ref_api (nt_apply_operations ref_api (\<lambda>_. None) [y, x] (nt_new ref_api (PeerId 1)))"
proof -
  have s: "set [x, y, x] = set [y, x]" by auto
  have "op_ids_unique (set (r_log ref_api (nt_tree (nt_new ref_api (PeerId 1)))) \<union> set [x, y, x])"
    by (auto simp: op_ids_unique_def op_id_of_def x_def y_def nt_new_def ref.log_new)
  from apply_operations_order_irrelevant [OF ref.replica_axioms ref.nt_new_inv s this]
  show ?thesis by blast
qed

end
