(* ===== verification/FileSystem.thy ===== *)
theory FileSystem
  imports NodeTree Storage
begin

text \<open>
  The file system core of \<open>src/src/filesystem/mod.rs\<close> (and \<open>mutation.rs\<close>): the metadata tree and
  the chunk store together. Operations that change the tree return the operations to broadcast.

  Parameters, in the record \<open>fs_env\<close>: the replica (see \<open>Replica\<close>), SHA-256, the chunker, and
  \<open>uuid5\<close>, the name-based \<open>Uuid::new_v5\<close>. An operation that issues a stamp takes the system time
  it reads (\<open>now\<close>). The functions that read chunks return the state too, because \<open>get\<close>
  reorders the cache queue. A \<open>HashSet\<close> result is a set: its iteration order is not modelled here.
\<close>

section \<open>State and parameters\<close>

record 't fs_env =
  e_replica :: "'t replica_api"
  e_sha :: "bytes \<Rightarrow> bytes"
  e_cdc :: chunker
  e_uuid5 :: "uuid \<Rightarrow> string \<Rightarrow> uuid"

record 't file_system =
  fs_tree :: "'t node_tree"
  fs_storage :: chunk_storage

record fs_entry =
  fe_node_id :: node_id
  fe_meta :: node_meta

record 'a tree_mutation =
  tm_result :: 'a
  tm_operations :: "node_operation list"

definition tree_mutation_new :: "'a \<Rightarrow> node_operation list \<Rightarrow> 'a tree_mutation" where
  "tree_mutation_new result operations = \<lparr>tm_result = result, tm_operations = operations\<rparr>"

text \<open>\<open>broadcast\<close> hands the operations to the sink, here a log of batches, and returns the result.\<close>

definition tree_mutation_broadcast ::
  "'a tree_mutation \<Rightarrow> node_operation list list \<Rightarrow> 'a \<times> node_operation list list"
where
  "tree_mutation_broadcast m sink = (tm_result m, sink @ [tm_operations m])"

definition fs_new :: "'t node_tree \<Rightarrow> chunk_storage \<Rightarrow> 't file_system" where
  "fs_new tree storage = \<lparr>fs_tree = tree, fs_storage = storage\<rparr>"

section \<open>Queries\<close>

definition fs_capacity_bytes :: "'t file_system \<Rightarrow> usize" where
  "fs_capacity_bytes fs = storage_capacity_bytes (fs_storage fs)"

definition fs_free_bytes :: "'t file_system \<Rightarrow> usize" where
  "fs_free_bytes fs = storage_free_bytes (fs_storage fs)"

definition fs_chunk :: "chunk_hash \<Rightarrow> 't file_system \<Rightarrow> bytes option \<times> 't file_system" where
  "fs_chunk hash fs = (let (d, st) = storage_get hash (fs_storage fs) in (d, fs\<lparr>fs_storage := st\<rparr>))"

definition fs_metadata :: "'t fs_env \<Rightarrow> 't file_system \<Rightarrow> node_id \<Rightarrow> (node_meta, fs_error) result" where
  "fs_metadata E fs node_id =
     (if node_id = ROOT then Ok (Directory [])
      else if nt_is_trashed (e_replica E) (fs_tree fs) node_id then Err NotFound
      else ok_or NotFound (nt_metadata (e_replica E) (fs_tree fs) node_id))"

definition fs_parent_id :: "'t fs_env \<Rightarrow> 't file_system \<Rightarrow> node_id \<Rightarrow> node_id" where
  "fs_parent_id E fs node_id =
     (case nt_parent_id (e_replica E) (fs_tree fs) node_id of None \<Rightarrow> ROOT | Some p \<Rightarrow> p)"

definition fs_children :: "'t fs_env \<Rightarrow> 't file_system \<Rightarrow> node_id \<Rightarrow> (node_id list, fs_error) result" where
  "fs_children E fs n = map_err from_tree_error (nt_children (e_replica E) (fs_tree fs) n)"

definition has_name :: "'t fs_env \<Rightarrow> 't file_system \<Rightarrow> string \<Rightarrow> node_id \<Rightarrow> bool" where
  "has_name E fs name c =
     (case nt_metadata (e_replica E) (fs_tree fs) c of None \<Rightarrow> False | Some m \<Rightarrow> meta_name m = name)"

definition fs_child_id ::
  "'t fs_env \<Rightarrow> 't file_system \<Rightarrow> node_id \<Rightarrow> string \<Rightarrow> (node_id, fs_error) result"
where
  "fs_child_id E fs parent_id name =
     (case fs_children E fs parent_id of
        Inl e \<Rightarrow> Err e
      | Inr cs \<Rightarrow> ok_or NotFound (find (has_name E fs name) cs))"

definition fs_list_directory ::
  "'t fs_env \<Rightarrow> 't file_system \<Rightarrow> node_id \<Rightarrow> ((node_id \<times> string \<times> node_meta) list, fs_error) result"
where
  "fs_list_directory E fs node_id =
     (case fs_metadata E fs node_id of
        Inl e \<Rightarrow> Err e
      | Inr (Directory _) \<Rightarrow>
          (case fs_children E fs node_id of
             Inl e \<Rightarrow> Err e
           | Inr cs \<Rightarrow>
               Ok (List.map_filter
                 (\<lambda>c. case fs_metadata E fs c of Inl _ \<Rightarrow> None | Inr m \<Rightarrow> Some (c, meta_name m, m)) cs))
      | Inr _ \<Rightarrow> Err NotADirectory)"

section \<open>Creating and deleting\<close>

definition fs_create_node ::
  "'t fs_env \<Rightarrow> nat option \<Rightarrow> node_id \<Rightarrow> string \<Rightarrow> node_meta \<Rightarrow> 't file_system \<Rightarrow>
    (fs_entry tree_mutation, fs_error) result \<times> 't file_system"
where
  "fs_create_node E now parent name meta fs =
     (if is_ok (fs_child_id E fs parent name) then (Err AlreadyExists, fs)
      else
        (let node_id = from_uuid (e_uuid5 E (as_uuid parent) name);
             (operation, tree) = nt_create_node (e_replica E) now parent node_id meta (fs_tree fs)
         in (Ok (tree_mutation_new \<lparr>fe_node_id = node_id, fe_meta = meta\<rparr> [operation]),
             fs\<lparr>fs_tree := tree\<rparr>)))"

definition fs_create_directory ::
  "'t fs_env \<Rightarrow> nat option \<Rightarrow> node_id \<Rightarrow> string \<Rightarrow> 't file_system \<Rightarrow>
    (fs_entry tree_mutation, fs_error) result \<times> 't file_system"
where
  "fs_create_directory E now parent_id name fs = fs_create_node E now parent_id name (Directory name) fs"

definition fs_create_file ::
  "'t fs_env \<Rightarrow> nat option \<Rightarrow> node_id \<Rightarrow> string \<Rightarrow> 't file_system \<Rightarrow>
    (fs_entry tree_mutation, fs_error) result \<times> 't file_system"
where
  "fs_create_file E now parent_id name fs = fs_create_node E now parent_id name (RegularFile name 0 []) fs"

definition fs_create_symlink ::
  "'t fs_env \<Rightarrow> nat option \<Rightarrow> node_id \<Rightarrow> string \<Rightarrow> string \<Rightarrow> 't file_system \<Rightarrow>
    (fs_entry tree_mutation, fs_error) result \<times> 't file_system"
where
  "fs_create_symlink E now parent_id name target fs =
     fs_create_node E now parent_id name (Symlink name target) fs"

text \<open>The last line of both deletions: \<open>Ok(TreeMutation::new((), vec![self.tree.delete_node(id)?]))\<close>.\<close>

definition fs_delete_node ::
  "'t fs_env \<Rightarrow> nat option \<Rightarrow> node_id \<Rightarrow> 't file_system \<Rightarrow>
    (unit tree_mutation, fs_error) result \<times> 't file_system"
where
  "fs_delete_node E now node_id fs =
     (case nt_delete_node (e_replica E) now node_id (fs_tree fs) of
        (Inl e, tree) \<Rightarrow> (Err (from_tree_error e), fs\<lparr>fs_tree := tree\<rparr>)
      | (Inr operation, tree) \<Rightarrow> (Ok (tree_mutation_new () [operation]), fs\<lparr>fs_tree := tree\<rparr>))"

definition fs_delete_directory ::
  "'t fs_env \<Rightarrow> nat option \<Rightarrow> node_id \<Rightarrow> string \<Rightarrow> 't file_system \<Rightarrow>
    (unit tree_mutation, fs_error) result \<times> 't file_system"
where
  "fs_delete_directory E now parent_id name fs =
     (case fs_child_id E fs parent_id name of
        Inl e \<Rightarrow> (Err e, fs)
      | Inr node_id \<Rightarrow>
          (case fs_metadata E fs node_id of
             Inl e \<Rightarrow> (Err e, fs)
           | Inr (Directory _) \<Rightarrow>
               (case fs_children E fs node_id of
                  Inl e \<Rightarrow> (Err e, fs)
                | Inr cs \<Rightarrow>
                    if cs \<noteq> [] then (Err DirectoryNotEmpty, fs) else fs_delete_node E now node_id fs)
           | Inr _ \<Rightarrow> (Err NotADirectory, fs)))"

definition fs_delete_file ::
  "'t fs_env \<Rightarrow> nat option \<Rightarrow> node_id \<Rightarrow> string \<Rightarrow> 't file_system \<Rightarrow>
    (unit tree_mutation, fs_error) result \<times> 't file_system"
where
  "fs_delete_file E now parent_id name fs =
     (case fs_child_id E fs parent_id name of
        Inl e \<Rightarrow> (Err e, fs)
      | Inr node_id \<Rightarrow>
          (case fs_metadata E fs node_id of
             Inl e \<Rightarrow> (Err e, fs)
           | Inr (Directory _) \<Rightarrow> (Err IsADirectory, fs)
           | Inr _ \<Rightarrow> fs_delete_node E now node_id fs))"

section \<open>Writing, truncating, renaming\<close>

text \<open>The common end of \<open>write_file\<close> and \<open>truncate_file\<close>: \<open>move_node\<close> under the current parent.\<close>

definition fs_replace_meta ::
  "'t fs_env \<Rightarrow> nat option \<Rightarrow> node_id \<Rightarrow> node_meta \<Rightarrow> 't file_system \<Rightarrow>
    (unit tree_mutation, fs_error) result \<times> 't file_system"
where
  "fs_replace_meta E now node_id new_meta fs =
     (case nt_parent_id (e_replica E) (fs_tree fs) node_id of
        None \<Rightarrow> (Err NotFound, fs)
      | Some parent_id \<Rightarrow>
          (case nt_move_node (e_replica E) now node_id parent_id new_meta (fs_tree fs) of
             (Inl e, tree) \<Rightarrow> (Err (from_tree_error e), fs\<lparr>fs_tree := tree\<rparr>)
           | (Inr operation, tree) \<Rightarrow> (Ok (tree_mutation_new () [operation]), fs\<lparr>fs_tree := tree\<rparr>)))"

definition fs_write_file ::
  "'t fs_env \<Rightarrow> nat option \<Rightarrow> node_id \<Rightarrow> bytes \<Rightarrow> 't file_system \<Rightarrow>
    (unit tree_mutation, fs_error) result \<times> 't file_system"
where
  "fs_write_file E now node_id data fs =
     (case fs_metadata E fs node_id of
        Inl e \<Rightarrow> (Err e, fs)
      | Inr (RegularFile name _ _) \<Rightarrow>
          (let chunks = chunk_split (e_sha E) (e_cdc E) data;
               chunk_refs = map chunk_reference chunks
           in (case storage_try_pin chunks (fs_storage fs) of
                 (Inl e, st) \<Rightarrow> (Err (from_storage_error e), fs\<lparr>fs_storage := st\<rparr>)
               | (Inr _, st) \<Rightarrow>
                   fs_replace_meta E now node_id (RegularFile name (vec_len data) chunk_refs)
                     (fs\<lparr>fs_storage := st\<rparr>)))
      | Inr _ \<Rightarrow> (Err IsADirectory, fs))"

definition fs_truncate_file ::
  "'t fs_env \<Rightarrow> nat option \<Rightarrow> node_id \<Rightarrow> u64 \<Rightarrow> 't file_system \<Rightarrow>
    (unit tree_mutation, fs_error) result \<times> 't file_system"
where
  "fs_truncate_file E now node_id new_size fs =
     (case fs_metadata E fs node_id of
        Inl e \<Rightarrow> (Err e, fs)
      | Inr (RegularFile name _ chunk_refs) \<Rightarrow>
          fs_replace_meta E now node_id (RegularFile name new_size (chunk_truncate chunk_refs new_size)) fs
      | Inr _ \<Rightarrow> (Err IsADirectory, fs))"

definition renamed :: "string \<Rightarrow> node_meta \<Rightarrow> node_meta" where
  "renamed new_name m =
     (case m of
        Directory _ \<Rightarrow> Directory new_name
      | RegularFile _ sz chunk_refs \<Rightarrow> RegularFile new_name sz chunk_refs
      | Symlink _ target \<Rightarrow> Symlink new_name target)"

definition fs_rename ::
  "'t fs_env \<Rightarrow> nat option \<Rightarrow> node_id \<Rightarrow> string \<Rightarrow> node_id \<Rightarrow> string \<Rightarrow> 't file_system \<Rightarrow>
    (unit tree_mutation, fs_error) result \<times> 't file_system"
where
  "fs_rename E now parent_id name new_parent_id new_name fs =
     (case fs_child_id E fs parent_id name of
        Inl e \<Rightarrow> (Err e, fs)
      | Inr node_id \<Rightarrow>
          if (case fs_child_id E fs new_parent_id new_name of Inl _ \<Rightarrow> False | Inr existing \<Rightarrow> existing \<noteq> node_id)
          then (Err AlreadyExists, fs)
          else if new_parent_id = parent_id \<and> new_name = name then (Ok (tree_mutation_new () []), fs)
          else
            (case fs_metadata E fs node_id of
               Inl e \<Rightarrow> (Err e, fs)
             | Inr m \<Rightarrow>
                 (case nt_move_node (e_replica E) now node_id new_parent_id (renamed new_name m) (fs_tree fs) of
                    (Inl e, tree) \<Rightarrow> (Err (from_tree_error e), fs\<lparr>fs_tree := tree\<rparr>)
                  | (Inr operation, tree) \<Rightarrow>
                      (Ok (tree_mutation_new () [operation]), fs\<lparr>fs_tree := tree\<rparr>))))"

section \<open>Reading\<close>

text \<open>\<open>get\<close> is the store's \<open>get\<close>, which the loop calls; \<open>fs_read_file\<close> passes \<open>storage_get\<close>. \<open>None\<close> is the panic of
  \<open>vec![0; size]\<close> for a chunk that is missing and too large to be filled in.\<close>

fun read_chunks ::
  "(chunk_hash \<Rightarrow> 's \<Rightarrow> bytes option \<times> 's) \<Rightarrow> u64 \<Rightarrow> u64 \<Rightarrow> chunk_ref list \<Rightarrow> u64 \<Rightarrow> bytes \<Rightarrow> 's \<Rightarrow>
    bytes option \<times> 's"
where
  "read_chunks get offset read_end [] chunk_start output st = (Some output, st)"
| "read_chunks get offset read_end (r # rs) chunk_start output st =
     (let chunk_end = chunk_start + ref_size r in
      if chunk_end \<le> offset then read_chunks get offset read_end rs chunk_end output st
      else if chunk_start \<ge> read_end then (Some output, st)
      else
        (let (got, st') = get (ref_hash r) st in
         if got = None \<and> capacity_overflow (ref_size r) then (None, st')
         else
        (let data = (case got of None \<Rightarrow> replicate (unat (ref_size r)) 0 | Some d \<Rightarrow> d);
             start_in_chunk = unat (saturating_sub offset chunk_start);
             end_in_chunk = unat (min (read_end - chunk_start) (ref_size r));
             available_end = min end_in_chunk (length data);
             output' = (if start_in_chunk < available_end
                        then output @ subslice data start_in_chunk available_end else output)
         in read_chunks get offset read_end rs chunk_end output' st')))"

definition fs_read_file ::
  "'t fs_env \<Rightarrow> node_id \<Rightarrow> u64 \<Rightarrow> u64 \<Rightarrow> 't file_system \<Rightarrow> (bytes, fs_error) result \<times> 't file_system"
where
  "fs_read_file E node_id offset len fs =
     (case fs_metadata E fs node_id of
        Inl e \<Rightarrow> (Err e, fs)
      | Inr (RegularFile _ sz chunk_refs) \<Rightarrow>
          (let read_end = min (saturating_add offset len) sz in
           if offset \<ge> read_end then (Ok [], fs)
           else if capacity_overflow (read_end - offset) then (Err CapacityOverflow, fs)
           else
             (let (output, st) = read_chunks storage_get offset read_end chunk_refs 0 [] (fs_storage fs)
              in (ok_or CapacityOverflow output, fs\<lparr>fs_storage := st\<rparr>)))
      | Inr _ \<Rightarrow> (Err IsADirectory, fs))"

definition fs_read_file_all ::
  "'t fs_env \<Rightarrow> node_id \<Rightarrow> 't file_system \<Rightarrow> (bytes, fs_error) result \<times> 't file_system"
where
  "fs_read_file_all E node_id fs =
     (case fs_metadata E fs node_id of
        Inl e \<Rightarrow> (Err e, fs)
      | Inr (RegularFile _ sz _) \<Rightarrow> fs_read_file E node_id 0 sz fs
      | Inr _ \<Rightarrow> (Err IsADirectory, fs))"

text \<open>\<open>present\<close> is the store's \<open>contains\<close>.\<close>

fun missing_loop :: "(chunk_hash \<Rightarrow> bool) \<Rightarrow> u64 \<Rightarrow> u64 \<Rightarrow> chunk_ref list \<Rightarrow> u64 \<Rightarrow> chunk_hash list \<Rightarrow> chunk_hash list" where
  "missing_loop present offset read_end [] chunk_start missing = missing"
| "missing_loop present offset read_end (r # rs) chunk_start missing =
     (let chunk_end = chunk_start + ref_size r;
          missing' = (if chunk_start < read_end \<and> chunk_end > offset \<and> \<not> present (ref_hash r)
                      then missing @ [ref_hash r] else missing)
      in if chunk_end \<ge> read_end then missing'
         else missing_loop present offset read_end rs chunk_end missing')"

definition fs_missing_chunk_hashes_for ::
  "'t fs_env \<Rightarrow> 't file_system \<Rightarrow> node_id \<Rightarrow> u64 \<Rightarrow> u64 \<Rightarrow> (chunk_hash list, fs_error) result"
where
  "fs_missing_chunk_hashes_for E fs node_id offset len =
     (case fs_metadata E fs node_id of
        Inl e \<Rightarrow> Err e
      | Inr (RegularFile _ sz chunk_refs) \<Rightarrow>
          Ok (missing_loop (storage_contains (fs_storage fs)) offset (min (saturating_add offset len) sz) chunk_refs 0 [])
      | Inr _ \<Rightarrow> Err IsADirectory)"

section \<open>Chunks\<close>

definition fs_pin_chunk ::
  "'t fs_env \<Rightarrow> bytes \<Rightarrow> 't file_system \<Rightarrow> (unit, fs_error) result \<times> 't file_system"
where
  "fs_pin_chunk E data fs =
     (let (r, st) = storage_try_pin [chunk_new (e_sha E) data] (fs_storage fs)
      in (map_err from_storage_error r, fs\<lparr>fs_storage := st\<rparr>))"

definition fs_cache_chunk :: "'t fs_env \<Rightarrow> bytes \<Rightarrow> 't file_system \<Rightarrow> 't file_system" where
  "fs_cache_chunk E data fs = fs\<lparr>fs_storage := storage_cache (chunk_new (e_sha E) data) (fs_storage fs)\<rparr>"

definition fs_is_pinned :: "'t file_system \<Rightarrow> chunk_hash \<Rightarrow> bool" where
  "fs_is_pinned fs hash = storage_is_pinned (fs_storage fs) hash"

definition fs_is_cached :: "'t file_system \<Rightarrow> chunk_hash \<Rightarrow> bool" where
  "fs_is_cached fs hash = storage_is_cached (fs_storage fs) hash"

definition fs_pinned_hashes :: "'t file_system \<Rightarrow> chunk_hash list" where
  "fs_pinned_hashes fs = storage_pinned_hashes (fs_storage fs)"

definition fs_promote_to_pinned :: "chunk_hash \<Rightarrow> 't file_system \<Rightarrow> bool \<times> 't file_system" where
  "fs_promote_to_pinned hash fs =
     (let (b, st) = storage_promote_to_pinned hash (fs_storage fs) in (b, fs\<lparr>fs_storage := st\<rparr>))"

definition fs_evict_chunk :: "chunk_hash \<Rightarrow> 't file_system \<Rightarrow> bool \<times> 't file_system" where
  "fs_evict_chunk hash fs =
     (let (b, st) = storage_evict hash (fs_storage fs) in (b, fs\<lparr>fs_storage := st\<rparr>))"

section \<open>Reachable chunks\<close>

text \<open>The body of the inner loop. \<open>visited.insert\<close> is not reached for the trash, by the short
  circuit of the condition.\<close>

definition visit_child ::
  "(node_id \<Rightarrow> node_meta option) \<Rightarrow> node_id \<Rightarrow> node_id set \<times> chunk_hash set \<times> node_id list \<Rightarrow>
    node_id set \<times> chunk_hash set \<times> node_id list"
where
  "visit_child metadata child s =
     (case s of (visited, reachable, queue) \<Rightarrow>
        if child = TRASH \<or> child \<in> visited then s
        else
          (case metadata child of
             Some (RegularFile _ _ chunk_refs) \<Rightarrow>
               (insert child visited, reachable \<union> ref_hash ` set chunk_refs, queue)
           | Some (Directory _) \<Rightarrow> (insert child visited, reachable, queue @ [child])
           | _ \<Rightarrow> (insert child visited, reachable, queue)))"

lemma visit_child_progress:
  assumes "visit_child metadata child (v, r, q) = (v', r', q')"
  shows "v \<subset> v' \<or> (v' = v \<and> q' = q)"
  using assms
  by (auto simp: visit_child_def split: if_splits option.splits node_meta.splits)

lemma visit_fold_progress:
  assumes "fold (visit_child metadata) cs (v, r, q) = (v', r', q')"
  shows "v \<subset> v' \<or> (v' = v \<and> q' = q)"
  using assms
proof (induction cs arbitrary: v r q)
  case (Cons c cs)
  obtain v1 r1 q1 where one: "visit_child metadata c (v, r, q) = (v1, r1, q1)" by (metis prod_cases3)
  with Cons.IH [of v1 r1 q1] Cons.prems visit_child_progress [OF one] show ?case by auto
qed simp

text \<open>Either a node is visited for the first time, of which there are finitely many, or the queue
  gets shorter.\<close>

function reach_loop ::
  "(node_id \<Rightarrow> (node_id list, node_tree_error) result) \<Rightarrow> (node_id \<Rightarrow> node_meta option) \<Rightarrow>
    node_id set \<Rightarrow> chunk_hash set \<Rightarrow> node_id list \<Rightarrow> chunk_hash set"
where
  "reach_loop children metadata visited reachable [] = reachable"
| "reach_loop children metadata visited reachable (node_id # queue) =
     (case children node_id of
        Inl _ \<Rightarrow> reach_loop children metadata visited reachable queue
      | Inr cs \<Rightarrow>
          (case fold (visit_child metadata) cs (visited, reachable, queue) of
             (visited', reachable', queue') \<Rightarrow> reach_loop children metadata visited' reachable' queue'))"
  by pat_completeness auto
termination
  by (relation "measures [\<lambda>(_, _, v, _, _). card (- v), \<lambda>(_, _, _, _, q). length q]")
    (auto split: prod.splits dest!: visit_fold_progress intro: psubset_card_mono)

definition fs_reachable_chunk_hashes :: "'t fs_env \<Rightarrow> 't file_system \<Rightarrow> chunk_hash set" where
  "fs_reachable_chunk_hashes E fs =
     reach_loop (nt_children (e_replica E) (fs_tree fs)) (nt_metadata (e_replica E) (fs_tree fs))
       {ROOT} {} [ROOT]"

section \<open>Operations of the log\<close>

definition fs_apply_operations ::
  "'t fs_env \<Rightarrow> (nat \<Rightarrow> nat option) \<Rightarrow> node_operation list \<Rightarrow> 't file_system \<Rightarrow> 't file_system"
where
  "fs_apply_operations E readings operations fs =
     fs\<lparr>fs_tree := nt_apply_operations (e_replica E) readings operations (fs_tree fs)\<rparr>"

definition fs_operation_ids :: "'t fs_env \<Rightarrow> 't file_system \<Rightarrow> op_id list" where
  "fs_operation_ids E fs = nt_operation_ids (e_replica E) (fs_tree fs)"

definition fs_operations_missing_from ::
  "'t fs_env \<Rightarrow> 't file_system \<Rightarrow> op_id set \<Rightarrow> node_operation list"
where
  "fs_operations_missing_from E fs ids = nt_operations_missing_from (e_replica E) (fs_tree fs) ids"

end
