(* ===== verification/Namespace.thy ===== *)
theory Namespace
  imports FileSystem
begin

text \<open>
  The names of the file system: lookup, listing, creation, deletion and renaming, in terms of the
  tree the replica shows (\<open>fs_find\<close>: a node's parent and metadata), and the invariant of the file
  system as a whole.
\<close>

section \<open>The invariant of the file system\<close>

definition fs_inv :: "'t fs_env \<Rightarrow> ('t \<Rightarrow> bool) \<Rightarrow> 't file_system \<Rightarrow> bool" where
  "fs_inv E valid fs \<longleftrightarrow>
     tree_inv (e_replica E) valid (fs_tree fs) \<and> storage_inv (fs_storage fs) \<and>
     content_addressed (e_sha E) (fs_storage fs)"

definition fs_find :: "'t fs_env \<Rightarrow> 't file_system \<Rightarrow> node_id \<Rightarrow> (node_id \<times> node_meta) option" where
  "fs_find E fs = tree_find (e_replica E) (fs_tree fs)"

definition chunk_look :: "(chunk_hash, chunk_entry) hmap \<Rightarrow> chunk_hash \<Rightarrow> bytes option" where
  "chunk_look m h = map_option ent_data (hget m h)"

definition fs_look :: "'t file_system \<Rightarrow> chunk_hash \<Rightarrow> bytes option" where
  "fs_look fs = chunk_look (st_chunks (fs_storage fs))"

definition fs_can_stamp :: "nat option \<Rightarrow> 't file_system \<Rightarrow> bool" where
  "fs_can_stamp now fs = can_stamp now (fs_tree fs)"

lemma fs_inv_parts:
  "fs_inv E valid fs \<Longrightarrow> tree_inv (e_replica E) valid (fs_tree fs)"
  "fs_inv E valid fs \<Longrightarrow> storage_inv (fs_storage fs)"
  "fs_inv E valid fs \<Longrightarrow> content_addressed (e_sha E) (fs_storage fs)"
  by (simp_all add: fs_inv_def)

lemma fs_metadata_Ok:
  "fs_metadata E fs n = Ok m \<longleftrightarrow>
    (if n = ROOT then m = Directory [] else \<exists>p. p \<noteq> TRASH \<and> fs_find E fs n = Some (p, m))"
  by (auto simp: fs_metadata_def fs_find_def nt_is_trashed_def nt_parent_find nt_metadata_find ok_or_Ok)

lemma fs_metadata_Err: "fs_metadata E fs n = Err e \<Longrightarrow> e = NotFound"
  by (auto simp: fs_metadata_def ok_or_def split: if_splits option.splits)

lemma fs_find_storage [simp]: "fs_find E (fs\<lparr>fs_storage := st\<rparr>) = fs_find E fs"
  by (simp add: fs_find_def)

lemma fs_metadata_storage [simp]: "fs_metadata E (fs\<lparr>fs_storage := st\<rparr>) n = fs_metadata E fs n"
  by (simp add: fs_metadata_def)

text \<open>Replacing the metadata of a known node.\<close>

lemma fs_replace_meta_effect:
  assumes "replica (e_replica E) valid" and "fs_inv E valid fs" and "fs_can_stamp now fs"
    and "fs_find E fs n = Some (p, m0)"
  obtains x fs' where "fs_replace_meta E now n m fs = (Ok (tree_mutation_new () [x]), fs')"
    and "fs_inv E valid fs'" and "fs_storage fs' = fs_storage fs"
    and "\<And>k. fs_find E fs' k = (if k = n then Some (p, m) else fs_find E fs k)"
    and "op_child x = n" and "op_parent x = p" and "op_metadata x = m"
proof -
  let ?R = "e_replica E" and ?t = "fs_tree fs"
  note inv = fs_inv_parts [OF assms(2)]
  obtain x t' where x: "issue_op ?R now n p m ?t = (x, t')" by force
  note eff = replica.issue_op_effect [OF assms(1) inv(1) assms(3) [unfolded fs_can_stamp_def] x]
  have "move_effective (tree_find ?R ?t) n p"
    using acyclic_keep_parent [OF replica.find_acyclic_inv [OF assms(1) inv(1)]] assms(4)
    by (simp add: fs_find_def)
  with eff(9) have look: "tree_find ?R t' k = (if k = n then Some (p, m) else tree_find ?R ?t k)" for k by simp
  have "fs_replace_meta E now n m fs = (Ok (tree_mutation_new () [x]), fs\<lparr>fs_tree := t'\<rparr>)"
    using assms(4) x by (simp add: fs_replace_meta_def fs_find_def nt_parent_find nt_move_issue nt_metadata_find)
  with look eff inv that [of x "fs\<lparr>fs_tree := t'\<rparr>"] show thesis
    by (simp add: fs_inv_def fs_find_def)
qed

section \<open>Lookup\<close>

definition child_named :: "'t fs_env \<Rightarrow> 't file_system \<Rightarrow> node_id \<Rightarrow> string \<Rightarrow> node_id \<Rightarrow> bool" where
  "child_named E fs p name c \<longleftrightarrow> (\<exists>m. fs_find E fs c = Some (p, m) \<and> meta_name m = name)"

definition listable :: "'t fs_env \<Rightarrow> 't file_system \<Rightarrow> node_id \<Rightarrow> bool" where
  "listable E fs p \<longleftrightarrow> is_reserved p \<or> fs_find E fs p \<noteq> None"

lemma fs_children_eq:
  "fs_children E fs p =
    (if listable E fs p then Ok (r_children (e_replica E) (nt_tree (fs_tree fs)) p) else Err NotFound)"
  by (simp add: fs_children_def nt_children_find listable_def fs_find_def)

lemma fs_children_set:
  assumes "replica (e_replica E) valid" and "fs_inv E valid fs" and "fs_children E fs p = Ok cs"
  shows "distinct cs" and "c \<in> set cs \<longleftrightarrow> (\<exists>m. fs_find E fs c = Some (p, m))"
proof -
  have cs: "cs = r_children (e_replica E) (nt_tree (fs_tree fs)) p" and v: "valid (nt_tree (fs_tree fs))"
    using assms(3) fs_inv_parts(1) [OF assms(2)] by (auto simp: fs_children_eq tree_inv_def split: if_splits)
  show "distinct cs" unfolding cs by (rule replica.children_distinct [OF assms(1) v])
  show "c \<in> set cs \<longleftrightarrow> (\<exists>m. fs_find E fs c = Some (p, m))"
    unfolding cs fs_find_def by (rule replica.children_iff [OF assms(1) fs_inv_parts(1) [OF assms(2)]])
qed

lemma has_name_iff: "has_name E fs name c \<longleftrightarrow> (\<exists>p m. fs_find E fs c = Some (p, m) \<and> meta_name m = name)"
  by (auto simp: has_name_def nt_metadata_find fs_find_def split: option.splits)

lemma child_id_Ok:
  assumes "replica (e_replica E) valid" and "fs_inv E valid fs" and "fs_child_id E fs p name = Ok c"
  shows "child_named E fs p name c" and "listable E fs p"
proof -
  obtain cs where cs: "fs_children E fs p = Ok cs" "find (has_name E fs name) cs = Some c"
    using assms(3) by (auto simp: fs_child_id_def ok_or_Ok split: sum.splits)
  then have "c \<in> set cs" "has_name E fs name c" by (auto simp: find_Some_iff)
  with fs_children_set(2) [OF assms(1,2) cs(1), of c] show "child_named E fs p name c"
    by (auto simp: child_named_def has_name_iff)
  show "listable E fs p" using cs(1) by (simp add: fs_children_eq split: if_splits)
qed

lemma child_id_Err:
  assumes "replica (e_replica E) valid" and "fs_inv E valid fs" and "fs_child_id E fs p name = Err e"
  shows "e = NotFound" and "listable E fs p \<Longrightarrow> \<not> child_named E fs p name c"
proof -
  show "e = NotFound"
    using assms(3) by (auto simp: fs_child_id_def fs_children_eq ok_or_def split: if_splits option.splits)
  assume "listable E fs p"
  then obtain cs where cs: "fs_children E fs p = Ok cs" by (simp add: fs_children_eq)
  with assms(3) have "find (has_name E fs name) cs = None"
    by (cases "find (has_name E fs name) cs") (simp_all add: fs_child_id_def)
  then have none: "\<forall>c \<in> set cs. \<not> has_name E fs name c" by (auto simp: find_None_iff)
  show "\<not> child_named E fs p name c"
  proof
    assume "child_named E fs p name c"
    then obtain m where m: "fs_find E fs c = Some (p, m)" "meta_name m = name" by (auto simp: child_named_def)
    then have "c \<in> set cs" using fs_children_set(2) [OF assms(1,2) cs] by blast
    with none m show False by (auto simp: has_name_iff)
  qed
qed

text \<open>When one child only has the name, the lookup finds it.\<close>

lemma child_id_unique:
  assumes "replica (e_replica E) valid" and "fs_inv E valid fs" and "listable E fs p"
    and "child_named E fs p name c" and "\<And>d. child_named E fs p name d \<Longrightarrow> d = c"
  shows "fs_child_id E fs p name = Ok c"
proof (cases "fs_child_id E fs p name")
  case (Inl e)
  with child_id_Err(2) [OF assms(1,2) Inl assms(3)] assms(4) show ?thesis by blast
next
  case (Inr d)
  with child_id_Ok(1) [OF assms(1,2) Inr] assms(5) show ?thesis by simp
qed

lemma child_id_known:
  assumes "replica (e_replica E) valid" and "fs_inv E valid fs"
  shows "listable E fs p \<longrightarrow> is_ok (fs_child_id E fs p name) = (\<exists>c. child_named E fs p name c)"
  using child_id_Ok(1) [OF assms] child_id_Err(2) [OF assms] by (cases "fs_child_id E fs p name") auto

text \<open>A lookup succeeds in one tree if it does in another that shows the same.\<close>

lemma child_id_same:
  assumes "replica (e_replica E) valid" and "fs_inv E valid fs" and "fs_inv E valid fs'"
    and "\<And>k. fs_find E fs' k = fs_find E fs k" and "fs_child_id E fs' p name = Ok c"
  shows "is_ok (fs_child_id E fs p name)"
proof -
  have find: "fs_find E fs' = fs_find E fs" using assms(4) by (simp add: fun_eq_iff)
  have "child_named E fs p name c" "listable E fs p"
    using child_id_Ok [OF assms(1,3,5)] by (simp_all add: listable_def child_named_def find)
  then show ?thesis using child_id_known [OF assms(1,2), of p name] by blast
qed

text \<open>The names after a node was moved.\<close>

lemma renamed_lookups:
  assumes "replica (e_replica E) valid" and "fs_inv E valid fs" and "fs_inv E valid fs'"
    and n: "fs_find E fs n = Some (p, m)" "meta_name m = name"
    and find: "\<And>k. fs_find E fs' k = (if k = n then Some (p', renamed name' m) else fs_find E fs k)"
    and free: "\<forall>d. fs_child_id E fs p' name' = Ok d \<longrightarrow> d = n" and ne: "\<not> (p' = p \<and> name' = name)"
  shows "listable E fs p' \<longrightarrow> fs_child_id E fs' p' name' = Ok n"
    and "fs_child_id E fs' p name = Ok c \<longrightarrow> c \<noteq> n \<and> child_named E fs p name c"
proof -
  have nm: "meta_name (renamed name' m) = name'" by (cases m) (simp_all add: renamed_def)
  show "listable E fs p' \<longrightarrow> fs_child_id E fs' p' name' = Ok n"
  proof
    assume lst: "listable E fs p'"
    have "\<not> is_ok (fs_child_id E fs p' name')"
    proof
      assume "is_ok (fs_child_id E fs p' name')"
      then have "child_named E fs p' name' n" using free child_id_Ok(1) [OF assms(1,2)] unfolding is_ok_iff by blast
      with n ne show False by (simp add: child_named_def)
    qed
    then have none: "\<not> child_named E fs p' name' d" for d
      using child_id_known [OF assms(1,2), of p' name'] lst by blast
    show "fs_child_id E fs' p' name' = Ok n"
    proof (rule child_id_unique [OF assms(1,3)])
      show "listable E fs' p'" using lst by (auto simp: listable_def find)
      show "child_named E fs' p' name' n" using nm by (simp add: child_named_def find)
      show "d = n" if "child_named E fs' p' name' d" for d
        using that none [of d] by (auto simp: child_named_def find split: if_splits)
    qed
  qed
  show "fs_child_id E fs' p name = Ok c \<longrightarrow> c \<noteq> n \<and> child_named E fs p name c"
    using child_id_Ok(1) [OF assms(1,3), of p name c] nm ne by (auto simp: child_named_def find split: if_splits)
qed

section \<open>The effect of each operation\<close>

definition placed :: "'t fs_env \<Rightarrow> 't file_system \<Rightarrow> node_id \<Rightarrow> node_id \<Rightarrow> bool" where
  "placed E fs n p \<longleftrightarrow> move_effective (fs_find E fs) n p"

lemma fs_issue_effect:
  assumes "replica (e_replica E) valid" and "fs_inv E valid fs" and "fs_can_stamp now fs"
    and "issue_op (e_replica E) now n p m (fs_tree fs) = (x, t')"
  shows "fs_inv E valid (fs\<lparr>fs_tree := t'\<rparr>)"
    and "fs_find E (fs\<lparr>fs_tree := t'\<rparr>) k = (if placed E fs n p \<and> k = n then Some (p, m) else fs_find E fs k)"
    and "op_child x = n" and "op_parent x = p" and "op_metadata x = m"
  using replica.issue_op_effect [OF assms(1) fs_inv_parts(1) [OF assms(2)] assms(3) [unfolded fs_can_stamp_def] assms(4)]
    assms(2) by (simp_all add: fs_inv_def fs_find_def placed_def)

lemma create_node_effect:
  assumes "replica (e_replica E) valid" and "fs_inv E valid fs" and "fs_can_stamp now fs"
    and "fs_create_node E now p name m fs = (r, fs')"
  defines "n \<equiv> from_uuid (e_uuid5 E (as_uuid p) name)"
  shows "is_ok (fs_child_id E fs p name) \<Longrightarrow> r = Err AlreadyExists \<and> fs' = fs"
    and "\<not> is_ok (fs_child_id E fs p name) \<Longrightarrow>
      \<exists>x. r = Ok (tree_mutation_new \<lparr>fe_node_id = n, fe_meta = m\<rparr> [x]) \<and>
        op_child x = n \<and> op_parent x = p \<and> op_metadata x = m"
    and "\<not> is_ok (fs_child_id E fs p name) \<Longrightarrow>
      fs_find E fs' k = (if placed E fs n p \<and> k = n then Some (p, m) else fs_find E fs k)"
    and "fs_inv E valid fs'" and "fs_storage fs' = fs_storage fs"
proof -
  obtain x t' where x: "issue_op (e_replica E) now n p m (fs_tree fs) = (x, t')" by force
  note eff = fs_issue_effect [OF assms(1-3) x]
  have run: "fs_create_node E now p name m fs =
      (if is_ok (fs_child_id E fs p name) then (Err AlreadyExists, fs)
       else (Ok (tree_mutation_new \<lparr>fe_node_id = n, fe_meta = m\<rparr> [x]), fs\<lparr>fs_tree := t'\<rparr>))"
    by (simp add: fs_create_node_def nt_create_issue n_def [symmetric] x)
  show "is_ok (fs_child_id E fs p name) \<Longrightarrow> r = Err AlreadyExists \<and> fs' = fs"
    "\<not> is_ok (fs_child_id E fs p name) \<Longrightarrow>
      \<exists>x. r = Ok (tree_mutation_new \<lparr>fe_node_id = n, fe_meta = m\<rparr> [x]) \<and>
        op_child x = n \<and> op_parent x = p \<and> op_metadata x = m"
    "\<not> is_ok (fs_child_id E fs p name) \<Longrightarrow>
      fs_find E fs' k = (if placed E fs n p \<and> k = n then Some (p, m) else fs_find E fs k)"
    "fs_inv E valid fs'" "fs_storage fs' = fs_storage fs"
    using run eff assms(2,4) by (auto split: if_splits)
qed

text \<open>A node with no entry in the tree can be placed under the root or any node that is not below it.\<close>

lemma placed_fresh:
  "n \<noteq> p \<Longrightarrow> \<forall>k m. fs_find E fs k \<noteq> Some (n, m) \<Longrightarrow> placed E fs n p"
  by (auto simp: placed_def move_effective_def parent_rel_def dest: tranclD2)

lemma placed_root: "n \<noteq> ROOT \<Longrightarrow> fs_find E fs ROOT = None \<Longrightarrow> placed E fs n ROOT"
  by (auto simp: placed_def move_effective_def parent_rel_def dest: tranclD)

lemma delete_node_effect:
  assumes "replica (e_replica E) valid" and "fs_inv E valid fs" and "fs_can_stamp now fs"
    and "fs_delete_node E now n fs = (r, fs')"
  shows "is_reserved n \<Longrightarrow> r = Err ReservedNode \<and> fs' = fs"
    and "\<not> is_reserved n \<Longrightarrow> fs_find E fs n = None \<Longrightarrow> r = Err NotFound \<and> fs' = fs"
    and "\<not> is_reserved n \<Longrightarrow> fs_find E fs n = Some (q, m) \<Longrightarrow>
      (\<exists>x. r = Ok (tree_mutation_new () [x]) \<and> op_child x = n \<and> op_parent x = TRASH \<and> op_metadata x = m) \<and>
      fs_find E fs' k = (if placed E fs n TRASH \<and> k = n then Some (TRASH, m) else fs_find E fs k)"
    and "fs_inv E valid fs'" and "fs_storage fs' = fs_storage fs"
proof -
  note meta = nt_metadata_find [of "e_replica E" "fs_tree fs" n, folded fs_find_def]
  obtain x t' where x: "issue_op (e_replica E) now n TRASH (snd (the (fs_find E fs n))) (fs_tree fs) = (x, t')"
    by force
  note eff = fs_issue_effect [OF assms(1-3) x]
  have run: "fs_delete_node E now n fs =
      (if is_reserved n then (Err ReservedNode, fs)
       else case fs_find E fs n of None \<Rightarrow> (Err NotFound, fs)
         | Some _ \<Rightarrow> (Ok (tree_mutation_new () [x]), fs\<lparr>fs_tree := t'\<rparr>))"
    using x by (auto simp: fs_delete_node_def nt_delete_issue meta split: option.splits)
  show "is_reserved n \<Longrightarrow> r = Err ReservedNode \<and> fs' = fs"
    "\<not> is_reserved n \<Longrightarrow> fs_find E fs n = None \<Longrightarrow> r = Err NotFound \<and> fs' = fs"
    "\<not> is_reserved n \<Longrightarrow> fs_find E fs n = Some (q, m) \<Longrightarrow>
      (\<exists>x. r = Ok (tree_mutation_new () [x]) \<and> op_child x = n \<and> op_parent x = TRASH \<and> op_metadata x = m) \<and>
      fs_find E fs' k = (if placed E fs n TRASH \<and> k = n then Some (TRASH, m) else fs_find E fs k)"
    "fs_inv E valid fs'" "fs_storage fs' = fs_storage fs"
    using run eff assms(2,4) by (auto split: if_splits option.splits)
qed

lemma rename_effect:
  assumes "replica (e_replica E) valid" and "fs_inv E valid fs" and "fs_can_stamp now fs"
    and "fs_rename E now p name p' name' fs = (r, fs')"
  shows "fs_child_id E fs p name = Err e \<Longrightarrow> r = Err e \<and> fs' = fs"
    and "fs_child_id E fs p name = Ok n \<Longrightarrow> fs_child_id E fs p' name' = Ok d \<Longrightarrow> d \<noteq> n \<Longrightarrow>
      r = Err AlreadyExists \<and> fs' = fs"
    and "fs_child_id E fs p name = Ok n \<Longrightarrow> p' = p \<Longrightarrow> name' = name \<Longrightarrow>
      r = Ok (tree_mutation_new () []) \<and> fs' = fs"
    and "fs_child_id E fs p name = Ok n \<Longrightarrow> (\<forall>d. fs_child_id E fs p' name' = Ok d \<longrightarrow> d = n) \<Longrightarrow>
      \<not> (p' = p \<and> name' = name) \<Longrightarrow> n \<noteq> ROOT \<Longrightarrow> p \<noteq> TRASH \<Longrightarrow>
      \<exists>m x. fs_find E fs n = Some (p, m) \<and> meta_name m = name \<and>
        r = Ok (tree_mutation_new () [x]) \<and> op_child x = n \<and> op_parent x = p' \<and> op_metadata x = renamed name' m \<and>
        (\<forall>k. fs_find E fs' k = (if placed E fs n p' \<and> k = n then Some (p', renamed name' m) else fs_find E fs k))"
    and "fs_inv E valid fs'" and "fs_storage fs' = fs_storage fs"
proof -
  show "fs_child_id E fs p name = Err e \<Longrightarrow> r = Err e \<and> fs' = fs"
    using assms(4) by (simp add: fs_rename_def)
  show "fs_child_id E fs p name = Ok n \<Longrightarrow> fs_child_id E fs p' name' = Ok d \<Longrightarrow> d \<noteq> n \<Longrightarrow>
      r = Err AlreadyExists \<and> fs' = fs"
    using assms(4) by (simp add: fs_rename_def)
  show "fs_child_id E fs p name = Ok n \<Longrightarrow> p' = p \<Longrightarrow> name' = name \<Longrightarrow>
      r = Ok (tree_mutation_new () []) \<and> fs' = fs"
    using assms(4) by (simp add: fs_rename_def)
  have body: "fs_inv E valid fs' \<and> fs_storage fs' = fs_storage fs \<and>
    (n \<noteq> ROOT \<longrightarrow> p \<noteq> TRASH \<longrightarrow> (\<exists>m x. fs_find E fs n = Some (p, m) \<and> meta_name m = name \<and>
        r = Ok (tree_mutation_new () [x]) \<and> op_child x = n \<and> op_parent x = p' \<and> op_metadata x = renamed name' m \<and>
        (\<forall>k. fs_find E fs' k = (if placed E fs n p' \<and> k = n then Some (p', renamed name' m) else fs_find E fs k))))"
    if n: "fs_child_id E fs p name = Ok n" and free: "\<forall>d. fs_child_id E fs p' name' = Ok d \<longrightarrow> d = n"
      and ne: "\<not> (p' = p \<and> name' = name)" for n
  proof -
    from child_id_Ok(1) [OF assms(1,2) n] obtain m where
      m: "fs_find E fs n = Some (p, m)" "meta_name m = name" by (auto simp: child_named_def)
    have go: "\<not> (case fs_child_id E fs p' name' of Inl _ \<Rightarrow> False | Inr existing \<Rightarrow> existing \<noteq> n)"
      using free by (auto split: sum.splits)
    show ?thesis
    proof (cases "fs_metadata E fs n")
      case (Inl e)
      then have "n \<noteq> ROOT \<longrightarrow> p = TRASH"
        using m fs_metadata_Ok [of E fs n m] by auto
      with Inl n go ne assms(2,4) show ?thesis by (auto simp: fs_rename_def)
    next
      case (Inr m')
      then have m': "n \<noteq> ROOT \<longrightarrow> m' = m" using m by (auto simp: fs_metadata_Ok)
      obtain x t' where x: "issue_op (e_replica E) now n p' (renamed name' m') (fs_tree fs) = (x, t')" by force
      have "fs_rename E now p name p' name' fs = (Ok (tree_mutation_new () [x]), fs\<lparr>fs_tree := t'\<rparr>)"
        using n go ne Inr m x by (auto simp: fs_rename_def nt_move_issue nt_metadata_find fs_find_def)
      with fs_issue_effect [OF assms(1-3) x] m m' assms(4) show ?thesis by auto
    qed
  qed
  then show "fs_child_id E fs p name = Ok n \<Longrightarrow> (\<forall>d. fs_child_id E fs p' name' = Ok d \<longrightarrow> d = n) \<Longrightarrow>
      \<not> (p' = p \<and> name' = name) \<Longrightarrow> n \<noteq> ROOT \<Longrightarrow> p \<noteq> TRASH \<Longrightarrow>
      \<exists>m x. fs_find E fs n = Some (p, m) \<and> meta_name m = name \<and>
        r = Ok (tree_mutation_new () [x]) \<and> op_child x = n \<and> op_parent x = p' \<and> op_metadata x = renamed name' m \<and>
        (\<forall>k. fs_find E fs' k = (if placed E fs n p' \<and> k = n then Some (p', renamed name' m) else fs_find E fs k))"
    by blast
  have "fs_inv E valid fs' \<and> fs_storage fs' = fs_storage fs"
  proof (cases "fs_child_id E fs p name")
    case (Inl e)
    with assms(2,4) show ?thesis by (simp add: fs_rename_def)
  next
    case (Inr n)
    consider "\<exists>d. fs_child_id E fs p' name' = Ok d \<and> d \<noteq> n" | "p' = p \<and> name' = name"
      | "\<forall>d. fs_child_id E fs p' name' = Ok d \<longrightarrow> d = n" "\<not> (p' = p \<and> name' = name)" by blast
    then show ?thesis using body [OF Inr] Inr assms(2,4) by cases (auto simp: fs_rename_def)
  qed
  then show "fs_inv E valid fs'" "fs_storage fs' = fs_storage fs" by simp_all
qed

text \<open>Moving a node of an ordinary directory to the trash.\<close>

lemma delete_child_effect:
  assumes "replica (e_replica E) valid" and "fs_inv E valid fs" and "fs_can_stamp now fs"
    and "fs_find E fs ROOT = None" and "fs_find E fs TRASH = None" and "fs_find E fs n = Some (p, m)"
    and "fs_delete_node E now n fs = (r, fs')"
  shows "\<exists>x. r = Ok (tree_mutation_new () [x]) \<and> op_child x = n \<and> op_parent x = TRASH \<and> op_metadata x = m"
    and "fs_find E fs' k = (if k = n then Some (TRASH, m) else fs_find E fs k)"
    and "fs_metadata E fs' n = Err NotFound"
    and "fs_inv E valid fs'" and "fs_storage fs' = fs_storage fs"
proof -
  have n: "\<not> is_reserved n" "n \<noteq> ROOT" "n \<noteq> TRASH" using assms(4-6) by (auto simp: is_reserved_def)
  have "placed E fs n TRASH"
    using n(3) assms(5) by (auto simp: placed_def move_effective_def parent_rel_def dest: tranclD)
  with delete_node_effect(3) [OF assms(1-3,7) n(1) assms(6)]
  show "\<exists>x. r = Ok (tree_mutation_new () [x]) \<and> op_child x = n \<and> op_parent x = TRASH \<and> op_metadata x = m"
    and find: "fs_find E fs' k = (if k = n then Some (TRASH, m) else fs_find E fs k)" for k by auto
  show "fs_metadata E fs' n = Err NotFound"
  proof (cases "fs_metadata E fs' n")
    case (Inr m')
    with n(2) find [of n] show ?thesis by (simp add: fs_metadata_Ok)
  qed (use fs_metadata_Err in auto)
  show "fs_inv E valid fs'" "fs_storage fs' = fs_storage fs"
    using delete_node_effect(4,5) [OF assms(1-3,7)] by simp_all
qed

lemma child_metadata:
  assumes "replica (e_replica E) valid" and "fs_inv E valid fs" and "fs_find E fs ROOT = None"
    and "p \<noteq> TRASH" and "fs_child_id E fs p name = Ok n"
  obtains m where "fs_find E fs n = Some (p, m)" and "meta_name m = name" and "fs_metadata E fs n = Ok m"
proof -
  from child_id_Ok(1) [OF assms(1,2,5)] obtain m where m: "fs_find E fs n = Some (p, m)" "meta_name m = name"
    by (auto simp: child_named_def)
  moreover from m assms(3,4) have "fs_metadata E fs n = Ok m" by (auto simp: fs_metadata_Ok)
  ultimately show thesis by (rule that)
qed

section \<open>A concrete file system\<close>

text \<open>An environment and a state for the witnesses: the reference replica, a hash and a chunker that
  satisfy their laws, and one empty file.\<close>

definition demo_env :: "node_operation list fs_env" where
  "demo_env = \<lparr>e_replica = ref_api, e_sha = (\<lambda>d. d), e_cdc = fixed_cdc,
     e_uuid5 = (\<lambda>parent name. of_nat (length name) + 1)\<rparr>"

lemma demo_env_simps [simp]:
  "e_replica demo_env = ref_api" "e_sha demo_env = (\<lambda>d. d)" "e_cdc demo_env = fixed_cdc"
  "e_uuid5 demo_env parent name = of_nat (length name) + 1"
  by (simp_all add: demo_env_def)

lemma demo_start:
  defines "fs \<equiv> fs_new (nt_new ref_api (PeerId 7)) (storage_new 1000)"
  shows "fs_inv demo_env ref_valid fs" and "fs_find demo_env fs n = None"
    and "fs_can_stamp (Some 5) fs" and "fs_child_id demo_env fs ROOT name = Err NotFound"
    and "fs_storage fs = storage_new 1000"
proof -
  show inv: "fs_inv demo_env ref_valid fs"
    using storage_inv_new ref.nt_new_inv
    by (simp add: fs_inv_def fs_def fs_new_def content_addressed_def storage_new_def)
  show find: "fs_find demo_env fs n = None" for n
    by (simp add: fs_find_def fs_def fs_new_def nt_new_def tree_find_def)
  show "fs_can_stamp (Some 5) fs"
    by (simp add: fs_can_stamp_def can_stamp_def fs_def fs_new_def nt_new_def hlc_eval)
  show "fs_child_id demo_env fs ROOT name = Err NotFound"
  proof (cases "fs_child_id demo_env fs ROOT name")
    case (Inl e)
    with child_id_Err(1) [of demo_env ref_valid] inv ref.replica_axioms show ?thesis by simp
  next
    case (Inr c)
    with child_id_Ok(1) [of demo_env ref_valid fs] inv ref.replica_axioms find show ?thesis
      by (force simp: child_named_def)
  qed
  show "fs_storage fs = storage_new 1000" by (simp add: fs_def fs_new_def)
qed

lemma rename_clock:
  "fs_rename E now p name p' name' fs = (Ok (tree_mutation_new () [x]), fs') \<Longrightarrow>
    nt_clock (fs_tree fs') = snd (hlc_next now (nt_clock (fs_tree fs)))"
  by (auto simp: fs_rename_def nt_move_issue issue_op_def nt_move_operation_def tree_mutation_new_def Let_def
      split: sum.splits if_splits prod.splits)

lemma demo_file:
  obtains fs where "nt_clock (fs_tree fs) = \<lparr>physical = 5, logical = 0\<rparr>" and "fs_inv demo_env ref_valid fs" and "fs_can_stamp (Some 6) fs"
    and "fs_storage fs = storage_new 1000"
    and "\<And>k. fs_find demo_env fs k = (if k = NodeId 2 then Some (ROOT, RegularFile ''a'' 0 []) else None)"
proof -
  let ?fs = "fs_new (nt_new ref_api (PeerId 7)) (storage_new 1000)"
  let ?m = "RegularFile ''a'' 0 []"
  obtain r fs where c: "fs_create_node demo_env (Some 5) ROOT ''a'' ?m ?fs = (r, fs)" by force
  have rep: "replica (e_replica demo_env) ref_valid" using ref.replica_axioms by simp
  note eff = create_node_effect [OF rep demo_start(1,3) c]
  have n: "from_uuid (e_uuid5 demo_env (as_uuid ROOT) ''a'') = NodeId 2" by (simp add: from_uuid_def)
  have "NodeId 2 \<noteq> ROOT" by (simp add: ROOT_def from_uuid_def)
  then have "placed demo_env ?fs (NodeId 2) ROOT" by (intro placed_root demo_start)
  with eff(3) [unfolded n] have find: "fs_find demo_env fs k = (if k = NodeId 2 then Some (ROOT, ?m) else None)" for k
    by (simp add: demo_start)
  have clk: "nt_clock (fs_tree fs) = \<lparr>physical = 5, logical = 0\<rparr>"
    using c demo_start(4)
    by (auto simp: fs_create_node_def nt_create_node_def nt_move_operation_def
        fs_new_def nt_new_def hlc_eval split: if_splits)
  then have "fs_can_stamp (Some 6) fs" by (simp add: fs_can_stamp_def can_stamp_def hlc_eval)
  with clk find eff(4,5) that show thesis by (simp add: demo_start)
qed

text \<open>A directory \<open>bb\<close> with a directory \<open>a\<close> in it.\<close>

definition demo_tree :: "node_id \<Rightarrow> (node_id \<times> node_meta) option" where
  "demo_tree k = (if k = NodeId 2 then Some (NodeId 3, Directory ''a'')
     else if k = NodeId 3 then Some (ROOT, Directory ''bb'') else None)"

lemma create_clock:
  "fs_create_node E now p name m fs = (r, fs') \<Longrightarrow> is_ok r \<Longrightarrow> nt_clock (fs_tree fs') = snd (hlc_next now (nt_clock (fs_tree fs)))"
  by (auto simp: fs_create_node_def nt_create_node_def nt_move_operation_def Let_def split: if_splits prod.splits)

lemma demo_nested:
  obtains fs where "fs_inv demo_env ref_valid fs" and "fs_can_stamp (Some 7) fs" and "\<And>k. fs_find demo_env fs k = demo_tree k"
proof -
  let ?fs = "fs_new (nt_new ref_api (PeerId 7)) (storage_new 1000)"
  have rep: "replica (e_replica demo_env) ref_valid" using ref.replica_axioms by simp
  have ids: "ROOT = NodeId 0" "from_uuid (e_uuid5 demo_env u ''bb'') = NodeId 3" "from_uuid (e_uuid5 demo_env u ''a'') = NodeId 2" for u
    by (simp_all add: ROOT_def from_uuid_def)
  obtain r1 fs1 where c1: "fs_create_node demo_env (Some 5) ROOT ''bb'' (Directory ''bb'') ?fs = (r1, fs1)" by force
  note e1 = create_node_effect [OF rep demo_start(1,3) c1, unfolded ids(2)]
  have no1: "\<not> is_ok (fs_child_id demo_env ?fs ROOT ''bb'')" by (simp add: demo_start(4))
  have "placed demo_env ?fs (NodeId 3) ROOT" by (rule placed_root) (simp_all add: demo_start(2) ids)
  with e1(3) [OF no1] have find1: "fs_find demo_env fs1 k = (if k = NodeId 3 then Some (ROOT, Directory ''bb'') else None)" for k
    by (simp add: demo_start(2))
  have ok1: "is_ok r1" using e1(2) [OF no1] by (auto simp: is_ok_iff)
  have clk: "nt_clock (fs_tree fs1) = \<lparr>physical = 5, logical = 0\<rparr>"
    using create_clock [OF c1 ok1] by (simp add: fs_new_def nt_new_def hlc_eval)
  then have st1: "fs_can_stamp (Some 6) fs1" by (simp add: fs_can_stamp_def can_stamp_def hlc_eval)
  obtain r2 fs2 where c2: "fs_create_node demo_env (Some 6) (NodeId 3) ''a'' (Directory ''a'') fs1 = (r2, fs2)" by force
  note e2 = create_node_effect [OF rep e1(4) st1 c2, unfolded ids(3)]
  have no2: "\<not> is_ok (fs_child_id demo_env fs1 (NodeId 3) ''a'')"
    using child_id_Ok(1) [OF rep e1(4)] by (fastforce simp: is_ok_iff child_named_def find1 ids split: if_splits)
  have "placed demo_env fs1 (NodeId 2) (NodeId 3)" by (rule placed_fresh) (auto simp: find1 ids)
  with e2(3) [OF no2] have find2: "fs_find demo_env fs2 k = demo_tree k" for k by (simp add: find1 demo_tree_def)
  have ok2: "is_ok r2" using e2(2) [OF no2] by (auto simp: is_ok_iff)
  have "fs_can_stamp (Some 7) fs2"
    using create_clock [OF c2 ok2] clk by (simp add: fs_can_stamp_def can_stamp_def hlc_eval)
  from that [OF e2(4) this find2] show thesis .
qed

lemma demo_not_placed: "(\<And>k. fs_find demo_env fs k = demo_tree k) \<Longrightarrow> \<not> placed demo_env fs (NodeId 3) (NodeId 2)"
  by (auto simp: placed_def move_effective_def parent_rel_def demo_tree_def intro!: r_into_trancl)

section \<open>Properties\<close>

text \<open>C19: Creating a node under a name: when the directory already has a child of that name the call
  is refused with \<open>AlreadyExists\<close> and nothing changes; otherwise it returns the entry of a node whose id is
  the name-based uuid of the directory and the name, and one operation is broadcast. Unless that node is the
  directory or lies above it, a lookup of the name finds it afterwards, with the metadata given, and no other
  node changes (a node that had this id elsewhere is taken over, see C37). If it is the directory or lies above
  it, as after \<open>mkdir /p /p/x; mv /p/x /x; mv /p /x/p; mkdir /x/p/x\<close>, the call succeeds all the same, but the
  operation has no effect: nothing changes and the name is still not found. No chunk is affected.\<close>

theorem create_then_lookup:
  fixes p :: node_id and name :: string
  assumes "replica (e_replica E) valid" and "fs_inv E valid fs" and "fs_can_stamp now fs"
    and "meta_name m = name" and "fs_create_node E now p name m fs = (r, fs')"
  defines "n \<equiv> from_uuid (e_uuid5 E (as_uuid p) name)"
  shows "(listable E fs p \<longrightarrow> is_ok (fs_child_id E fs p name) = (\<exists>c. child_named E fs p name c)) \<and>
    (if is_ok (fs_child_id E fs p name) then r = Err AlreadyExists \<and> fs' = fs
     else (\<exists>x. r = Ok (tree_mutation_new \<lparr>fe_node_id = n, fe_meta = m\<rparr> [x]) \<and>
         op_child x = n \<and> op_parent x = p \<and> op_metadata x = m) \<and>
       (if placed E fs n p
        then fs_find E fs' n = Some (p, m) \<and> (\<forall>k. k \<noteq> n \<longrightarrow> fs_find E fs' k = fs_find E fs k) \<and>
          (listable E fs p \<longrightarrow> fs_child_id E fs' p name = Ok n)
        else fs_child_id E fs' p name = Err NotFound \<and> (\<forall>k. fs_find E fs' k = fs_find E fs k))) \<and>
    fs_inv E valid fs' \<and> fs_storage fs' = fs_storage fs"
proof (cases "is_ok (fs_child_id E fs p name)")
  case True
  with create_node_effect [OF assms(1-3,5)] child_id_known [OF assms(1,2)] show ?thesis by auto
next
  case False
  note eff = create_node_effect [OF assms(1-3,5), folded n_def]
  note known = child_id_known [OF assms(1,2), of p name]
  show ?thesis
  proof (cases "placed E fs n p")
    case True
    have find: "fs_find E fs' k = (if k = n then Some (p, m) else fs_find E fs k)" for k
      using eff(3) [of k] False True by simp
    have "fs_child_id E fs' p name = Ok n" if lst: "listable E fs p"
    proof (rule child_id_unique [OF assms(1) eff(4)])
      show "listable E fs' p" using lst by (auto simp: listable_def find)
      show "child_named E fs' p name n" using assms(4) by (simp add: child_named_def find)
      show "d = n" if "child_named E fs' p name d" for d
        using that known lst False by (auto simp: child_named_def find split: if_splits)
    qed
    with False True find eff(2,4,5) known show ?thesis by simp
  next
    case ignored: False
    have find: "fs_find E fs' k = fs_find E fs k" for k using eff(3) [of k] False ignored by simp
    have "fs_child_id E fs' p name = Err NotFound"
      using child_id_same [OF assms(1,2) eff(4) find] False child_id_Err(1) [OF assms(1) eff(4)] by (metis is_ok_iff sum.exhaust)
    with False ignored find eff(2,4,5) known show ?thesis by simp
  qed
qed

text \<open>A directory is made and found. Then \<open>bb\<close> is made in a directory that lies below the node \<open>bb\<close> names.\<close>

theorem create_then_lookup_witness:
  "(\<exists>fs fs' r. fs_create_node demo_env (Some 6) ROOT ''bb'' (Directory ''bb'') fs = (r, fs') \<and>
     fs_child_id demo_env fs' ROOT ''bb'' = Ok (NodeId 3)) \<and>
   (\<exists>fs fs' r. fs_create_node demo_env (Some 7) (NodeId 2) ''bb'' (Directory ''bb'') fs = (r, fs') \<and> is_ok r \<and>
     fs_child_id demo_env fs' (NodeId 2) ''bb'' = Err NotFound)"
proof (rule conjI)
  have rep: "replica (e_replica demo_env) ref_valid" using ref.replica_axioms by simp
  have root: "ROOT = NodeId 0" by (simp add: ROOT_def from_uuid_def)
  have id3: "from_uuid (e_uuid5 demo_env (as_uuid p) ''bb'') = NodeId 3" for p by (simp add: from_uuid_def)
  obtain fs where fs: "fs_inv demo_env ref_valid fs" "fs_can_stamp (Some 6) fs"
    "\<And>k. fs_find demo_env fs k = (if k = NodeId 2 then Some (ROOT, RegularFile ''a'' 0 []) else None)"
    using demo_file by metis
  obtain r fs' where c: "fs_create_node demo_env (Some 6) ROOT ''bb'' (Directory ''bb'') fs = (r, fs')" by force
  have "placed demo_env fs (NodeId 3) ROOT" by (rule placed_root) (simp_all add: fs root)
  moreover have "\<not> is_ok (fs_child_id demo_env fs ROOT ''bb'')"
    using child_id_Ok(1) [OF rep fs(1)] by (fastforce simp: is_ok_iff child_named_def fs split: if_splits)
  ultimately have "fs_child_id demo_env fs' ROOT ''bb'' = Ok (NodeId 3)"
    using create_then_lookup [OF rep fs(1,2) _ c, unfolded id3] by (simp add: listable_def)
  with c show "\<exists>fs fs' r. fs_create_node demo_env (Some 6) ROOT ''bb'' (Directory ''bb'') fs = (r, fs') \<and>
      fs_child_id demo_env fs' ROOT ''bb'' = Ok (NodeId 3)" by blast
  obtain fs where fs: "fs_inv demo_env ref_valid fs" "fs_can_stamp (Some 7) fs"
    "\<And>k. fs_find demo_env fs k = demo_tree k" by (rule demo_nested) (rule that)
  obtain r fs' where c: "fs_create_node demo_env (Some 7) (NodeId 2) ''bb'' (Directory ''bb'') fs = (r, fs')" by force
  have "\<not> placed demo_env fs (NodeId 3) (NodeId 2)" by (rule demo_not_placed) (simp add: fs)
  moreover have "\<not> is_ok (fs_child_id demo_env fs (NodeId 2) ''bb'')"
    using child_id_Ok(1) [OF rep fs(1), of "NodeId 2" "''bb''"]
    by (auto simp: is_ok_iff child_named_def fs demo_tree_def root split: if_split_asm)
  ultimately have "is_ok r \<and> fs_child_id demo_env fs' (NodeId 2) ''bb'' = Err NotFound"
    using create_then_lookup [OF rep fs(1,2) _ c, unfolded id3] by (auto simp: is_ok_iff)
  with c show "\<exists>fs fs' r. fs_create_node demo_env (Some 7) (NodeId 2) ''bb'' (Directory ''bb'') fs = (r, fs') \<and> is_ok r \<and>
      fs_child_id demo_env fs' (NodeId 2) ''bb'' = Err NotFound" by blast
qed

text \<open>C20: Renaming: a missing source is reported, a name taken by another node is refused, both
  without any change; renaming a node to itself succeeds, changes nothing and broadcasts nothing;
  otherwise one operation is broadcast and the call succeeds. If the new directory is not the node and not below
  it, the node keeps its identity, its size and its chunks, a lookup of the new name finds
  it, a lookup of the old name no longer does (it finds, at most, another node that had the same name
  there), and no other node is affected. If the new directory is the node or below it, the operation has no
  effect: the call reports success, but nothing moved. No chunk is affected.\<close>

theorem rename_moves_the_name:
  assumes "replica (e_replica E) valid" and "fs_inv E valid fs" and "fs_can_stamp now fs"
    and "p \<noteq> TRASH" and "fs_find E fs ROOT = None" and "fs_rename E now p name p' name' fs = (r, fs')"
  shows "(case fs_child_id E fs p name of
      Inl _ \<Rightarrow> r = Err NotFound \<and> fs' = fs \<and> (listable E fs p \<longrightarrow> (\<nexists>c. child_named E fs p name c))
    | Inr n \<Rightarrow>
        if \<exists>d. fs_child_id E fs p' name' = Ok d \<and> d \<noteq> n then r = Err AlreadyExists \<and> fs' = fs
        else if p' = p \<and> name' = name then r = Ok (tree_mutation_new () []) \<and> fs' = fs
        else (\<exists>x m. fs_find E fs n = Some (p, m) \<and> meta_name m = name \<and> r = Ok (tree_mutation_new () [x]) \<and>
          op_child x = n \<and> op_parent x = p' \<and> op_metadata x = renamed name' m \<and>
          (if placed E fs n p'
           then fs_find E fs' n = Some (p', renamed name' m) \<and> (\<forall>k. k \<noteq> n \<longrightarrow> fs_find E fs' k = fs_find E fs k) \<and>
             (listable E fs p' \<longrightarrow> fs_child_id E fs' p' name' = Ok n) \<and>
             (\<forall>c. fs_child_id E fs' p name = Ok c \<longrightarrow> c \<noteq> n \<and> child_named E fs p name c)
           else \<forall>k. fs_find E fs' k = fs_find E fs k))) \<and>
    fs_inv E valid fs' \<and> fs_storage fs' = fs_storage fs"
proof (cases "fs_child_id E fs p name")
  case (Inl e)
  with rename_effect(1,5,6) [OF assms(1-3,6)] child_id_Err [OF assms(1,2) Inl] show ?thesis by auto
next
  case (Inr n)
  note eff = rename_effect [OF assms(1-3,6)]
  consider (taken) "\<exists>d. fs_child_id E fs p' name' = Ok d \<and> d \<noteq> n"
    | (same) "\<nexists>d. fs_child_id E fs p' name' = Ok d \<and> d \<noteq> n" "p' = p \<and> name' = name"
    | (move) "\<forall>d. fs_child_id E fs p' name' = Ok d \<longrightarrow> d = n" "\<not> (p' = p \<and> name' = name)" by blast
  then show ?thesis
  proof cases
    case taken
    with Inr eff(2,5,6) show ?thesis by auto
  next
    case same
    with Inr eff(3,5,6) show ?thesis by auto
  next
    case move
    have "n \<noteq> ROOT" using child_id_Ok(1) [OF assms(1,2) Inr] assms(5) by (auto simp: child_named_def)
    from eff(4) [OF Inr move this assms(4)] obtain m x where
      m: "fs_find E fs n = Some (p, m)" "meta_name m = name" "r = Ok (tree_mutation_new () [x])"
        "op_child x = n" "op_parent x = p'" "op_metadata x = renamed name' m"
      and find: "\<And>k. fs_find E fs' k = (if placed E fs n p' \<and> k = n then Some (p', renamed name' m) else fs_find E fs k)"
      by auto
    have "(listable E fs p' \<longrightarrow> fs_child_id E fs' p' name' = Ok n) \<and>
        (\<forall>c. fs_child_id E fs' p name = Ok c \<longrightarrow> c \<noteq> n \<and> child_named E fs p name c)" if "placed E fs n p'"
    proof -
      have "fs_find E fs' k = (if k = n then Some (p', renamed name' m) else fs_find E fs k)" for k using find that by simp
      from renamed_lookups [OF assms(1,2) eff(5) m(1,2) this move] show ?thesis by blast
    qed
    moreover have "if placed E fs n p' then fs_find E fs' n = Some (p', renamed name' m) \<and> (\<forall>k. k \<noteq> n \<longrightarrow> fs_find E fs' k = fs_find E fs k)
        else \<forall>k. fs_find E fs' k = fs_find E fs k" using find by simp
    ultimately have "\<exists>x m. fs_find E fs n = Some (p, m) \<and> meta_name m = name \<and> r = Ok (tree_mutation_new () [x]) \<and>
          op_child x = n \<and> op_parent x = p' \<and> op_metadata x = renamed name' m \<and>
          (if placed E fs n p'
           then fs_find E fs' n = Some (p', renamed name' m) \<and> (\<forall>k. k \<noteq> n \<longrightarrow> fs_find E fs' k = fs_find E fs k) \<and>
             (listable E fs p' \<longrightarrow> fs_child_id E fs' p' name' = Ok n) \<and>
             (\<forall>c. fs_child_id E fs' p name = Ok c \<longrightarrow> c \<noteq> n \<and> child_named E fs p name c)
           else \<forall>k. fs_find E fs' k = fs_find E fs k)"
      using m by (intro exI [of _ x] exI [of _ m]) (simp split: if_splits)
    moreover have "\<not> (\<exists>d. fs_child_id E fs p' name' = Ok d \<and> d \<noteq> n)" using move(1) by blast
    ultimately show ?thesis using Inr move(2) eff(5,6) by (simp only: sum.case if_False simp_thms)
  qed
qed

text \<open>A file is renamed. Then a directory is moved below itself.\<close>

theorem rename_moves_the_name_witness:
  "(\<exists>fs fs' r. fs_rename demo_env (Some 6) ROOT ''a'' ROOT ''bb'' fs = (r, fs') \<and>
     fs_child_id demo_env fs' ROOT ''bb'' = Ok (NodeId 2)) \<and>
   (\<exists>fs fs' r. fs_rename demo_env (Some 7) ROOT ''bb'' (NodeId 2) ''bb'' fs = (r, fs') \<and> is_ok r \<and>
     fs_find demo_env fs' (NodeId 3) = Some (ROOT, Directory ''bb''))"
proof (rule conjI)
  have rep: "replica (e_replica demo_env) ref_valid" using ref.replica_axioms by simp
  have root: "ROOT = NodeId 0" by (simp add: ROOT_def from_uuid_def)
  obtain fs where fs: "fs_inv demo_env ref_valid fs" "fs_can_stamp (Some 6) fs"
    "\<And>k. fs_find demo_env fs k = (if k = NodeId 2 then Some (ROOT, RegularFile ''a'' 0 []) else None)"
    using demo_file by metis
  obtain r fs' where c: "fs_rename demo_env (Some 6) ROOT ''a'' ROOT ''bb'' fs = (r, fs')" by force
  have named: "child_named demo_env fs ROOT name k \<longleftrightarrow> k = NodeId 2 \<and> name = ''a''" for name k
    by (auto simp: child_named_def fs)
  have none: "fs_find demo_env fs ROOT = None" by (simp add: fs root)
  have "fs_child_id demo_env fs ROOT ''a'' = Ok (NodeId 2)"
    by (rule child_id_unique [OF rep fs(1)]) (auto simp: listable_def named)
  moreover have "\<not> (\<exists>d. fs_child_id demo_env fs ROOT ''bb'' = Ok d \<and> d \<noteq> NodeId 2)"
    using child_id_Ok(1) [OF rep fs(1)] named by fastforce
  moreover have "placed demo_env fs (NodeId 2) ROOT" by (rule placed_root) (simp_all add: fs root)
  moreover have "listable demo_env fs ROOT" "''bb'' \<noteq> ''a''" by (simp_all add: listable_def)
  ultimately have "fs_child_id demo_env fs' ROOT ''bb'' = Ok (NodeId 2)"
    using rename_moves_the_name [OF rep fs(1,2) ROOT_not_TRASH(1) none c]
    by (elim conjE) (simp only: sum.case if_False if_True simp_thms, blast)
  with c show "\<exists>fs fs' r. fs_rename demo_env (Some 6) ROOT ''a'' ROOT ''bb'' fs = (r, fs') \<and>
      fs_child_id demo_env fs' ROOT ''bb'' = Ok (NodeId 2)" by blast
  obtain fs where fs: "fs_inv demo_env ref_valid fs" "fs_can_stamp (Some 7) fs"
    "\<And>k. fs_find demo_env fs k = demo_tree k" by (rule demo_nested) (rule that)
  obtain r fs' where c: "fs_rename demo_env (Some 7) ROOT ''bb'' (NodeId 2) ''bb'' fs = (r, fs')" by force
  have none: "fs_find demo_env fs ROOT = None" by (simp add: fs demo_tree_def root)
  have "fs_child_id demo_env fs ROOT ''bb'' = Ok (NodeId 3)"
    by (rule child_id_unique [OF rep fs(1)])
      (auto simp: listable_def child_named_def fs demo_tree_def split: if_splits)
  moreover have "\<not> (\<exists>d. fs_child_id demo_env fs (NodeId 2) ''bb'' = Ok d \<and> d \<noteq> NodeId 3)"
    using child_id_Ok(1) [OF rep fs(1)] by (fastforce simp: child_named_def fs demo_tree_def root split: if_splits)
  moreover have "\<not> placed demo_env fs (NodeId 3) (NodeId 2)" by (rule demo_not_placed) (simp add: fs)
  moreover have "NodeId 2 \<noteq> ROOT" by (simp add: root)
  ultimately have "is_ok r \<and> (\<forall>k. fs_find demo_env fs' k = demo_tree k)"
    using rename_moves_the_name [OF rep fs(1,2) ROOT_not_TRASH(1) none c]
    by (elim conjE) (simp only: sum.case if_False simp_thms, auto simp: fs)
  then have "is_ok r \<and> fs_find demo_env fs' (NodeId 3) = Some (ROOT, Directory ''bb'')" by (simp add: demo_tree_def)
  with c show "\<exists>fs fs' r. fs_rename demo_env (Some 7) ROOT ''bb'' (NodeId 2) ''bb'' fs = (r, fs') \<and> is_ok r \<and>
      fs_find demo_env fs' (NodeId 3) = Some (ROOT, Directory ''bb'')" by blast
qed

text \<open>C6: Listing a directory returns, each exactly once with its name and metadata, those of the nodes in it
  whose metadata can be read, and nothing else; outside the trash these are all nodes in it, with the metadata
  they were given. (The root would be listed as the root directory, should a peer put it into another
  one.) Listing a file or a symlink is refused, as is listing a node that is unknown or in the trash.\<close>

theorem list_directory_complete:
  assumes "replica (e_replica E) valid" and "fs_inv E valid fs"
  shows "case fs_metadata E fs n of
      Inl e \<Rightarrow> fs_list_directory E fs n = Err NotFound
    | Inr (Directory _) \<Rightarrow> (\<exists>l. fs_list_directory E fs n = Ok l \<and> distinct (map fst l) \<and>
        set l = {(c, meta_name m, m) |c m. (\<exists>m0. fs_find E fs c = Some (n, m0)) \<and> fs_metadata E fs c = Ok m} \<and>
        (n \<noteq> TRASH \<longrightarrow> (\<forall>c m. c \<noteq> ROOT \<and> fs_find E fs c = Some (n, m) \<longrightarrow> (c, meta_name m, m) \<in> set l)))
    | Inr _ \<Rightarrow> fs_list_directory E fs n = Err NotADirectory"
proof (cases "fs_metadata E fs n")
  case (Inl e)
  then show ?thesis using fs_metadata_Err by (auto simp: fs_list_directory_def)
next
  case (Inr m0)
  show ?thesis
  proof (cases m0)
    case (Directory dir)
    have "listable E fs n" using Inr by (auto simp: fs_metadata_Ok listable_def split: if_splits)
    then obtain cs where cs: "fs_children E fs n = Ok cs" by (simp add: fs_children_eq)
    note mem = fs_children_set(2) [OF assms cs]
    let ?f = "\<lambda>c. case fs_metadata E fs c of Inl _ \<Rightarrow> None | Inr m \<Rightarrow> Some (c, meta_name m, m)"
    have f: "?f c = Some y \<longleftrightarrow> (\<exists>m. fs_metadata E fs c = Ok m \<and> y = (c, meta_name m, m))" for c y
      by (auto split: sum.splits)
    have "set (List.map_filter ?f cs) = {y. \<exists>c \<in> set cs. ?f c = Some y}" by (force simp: List.map_filter_def)
    then have set: "set (List.map_filter ?f cs) =
        {(c, meta_name m, m) |c m. (\<exists>m0. fs_find E fs c = Some (n, m0)) \<and> fs_metadata E fs c = Ok m}"
      unfolding f using mem by blast
    moreover have "fs_metadata E fs c = Ok m" if "n \<noteq> TRASH" "c \<noteq> ROOT" "fs_find E fs c = Some (n, m)" for c m
      using that by (simp add: fs_metadata_Ok)
    moreover have "distinct (map fst (List.map_filter ?f cs))"
      using fs_children_set(1) [OF assms cs]
    proof (induction cs)
      case (Cons c cs)
      have "fst ` set (List.map_filter ?f cs) \<subseteq> set cs"
        by (auto simp: List.map_filter_def split: sum.splits)
      with Cons show ?case by (auto simp: List.map_filter_simps split: sum.splits)
    qed (simp add: List.map_filter_simps)
    ultimately show ?thesis using cs Inr Directory by (auto simp: fs_list_directory_def)
  qed (use Inr in \<open>simp_all add: fs_list_directory_def\<close>)
qed

theorem list_directory_complete_witness:
  "\<exists>fs. (\<exists>l. fs_list_directory demo_env fs ROOT = Ok l \<and> distinct (map fst l) \<and>
     set l = {(NodeId 2, ''a'', RegularFile ''a'' 0 [])}) \<and> fs_list_directory demo_env fs (NodeId 2) = Err NotADirectory"
proof -
  obtain fs where fs: "fs_inv demo_env ref_valid fs"
    "\<And>k. fs_find demo_env fs k = (if k = NodeId 2 then Some (ROOT, RegularFile ''a'' 0 []) else None)"
    using demo_file by metis
  have rep: "replica (e_replica demo_env) ref_valid" using ref.replica_axioms by simp
  have meta: "fs_metadata demo_env fs ROOT = Ok (Directory [])"
    "fs_metadata demo_env fs (NodeId 2) = Ok m \<longleftrightarrow> m = RegularFile ''a'' 0 []" for m
    using ROOT_not_TRASH(1) by (auto simp: fs_metadata_Ok fs ROOT_def from_uuid_def)
  note regular = meta(2) [THEN iffD2, OF refl]
  from meta have "{(c, meta_name m, m) |c m. (\<exists>m0. fs_find demo_env fs c = Some (ROOT, m0)) \<and> fs_metadata demo_env fs c = Ok m} =
      {(NodeId 2, ''a'', RegularFile ''a'' 0 [])}"
    by (auto simp: fs split: if_splits)
  then show ?thesis
    using list_directory_complete [OF rep fs(1), of ROOT] list_directory_complete [OF rep fs(1), of "NodeId 2"] meta(1) regular
    by (intro exI [of _ fs]) auto
qed

text \<open>C34: Deleting a file or symlink by name moves it to the trash: it keeps its entry there, but its
  metadata is no longer found, one operation is broadcast and no other node changes. A directory
  is refused, a missing name is reported, both without any change. No chunk is released.\<close>

theorem delete_file_trashes:
  assumes "replica (e_replica E) valid" and "fs_inv E valid fs" and "fs_can_stamp now fs"
    and "fs_find E fs ROOT = None" and "fs_find E fs TRASH = None" and "p \<noteq> TRASH"
    and "fs_delete_file E now p name fs = (r, fs')"
  shows "(case fs_child_id E fs p name of
      Inl _ \<Rightarrow> r = Err NotFound \<and> fs' = fs
    | Inr n \<Rightarrow> (\<exists>m. fs_find E fs n = Some (p, m) \<and> meta_name m = name \<and>
        (if \<exists>dir. m = Directory dir then r = Err IsADirectory \<and> fs' = fs
         else (\<exists>x. r = Ok (tree_mutation_new () [x]) \<and> op_child x = n \<and> op_parent x = TRASH \<and> op_metadata x = m) \<and>
           fs_metadata E fs' n = Err NotFound \<and>
           (\<forall>k. fs_find E fs' k = (if k = n then Some (TRASH, m) else fs_find E fs k))))) \<and>
    fs_inv E valid fs' \<and> fs_storage fs' = fs_storage fs"
proof (cases "fs_child_id E fs p name")
  case (Inl e)
  with child_id_Err(1) [OF assms(1,2) Inl] assms(2,7) show ?thesis by (auto simp: fs_delete_file_def)
next
  case (Inr n)
  obtain m where m: "fs_find E fs n = Some (p, m)" "meta_name m = name" "fs_metadata E fs n = Ok m"
    using child_metadata [OF assms(1,2,4,6) Inr] .
  show ?thesis
  proof (cases "\<exists>dir. m = Directory dir")
    case True
    with Inr m assms(2,7) show ?thesis by (auto simp: fs_delete_file_def)
  next
    case False
    then have "fs_delete_node E now n fs = (r, fs')"
      using Inr m(3) assms(7) by (cases m) (simp_all add: fs_delete_file_def)
    from delete_child_effect [OF assms(1-5) m(1) this] Inr m False show ?thesis by auto
  qed
qed

theorem delete_file_trashes_witness:
  "\<exists>fs fs' r. fs_delete_file demo_env (Some 6) ROOT ''a'' fs = (r, fs') \<and> fs_find demo_env fs (NodeId 2) \<noteq> None \<and>
    fs_metadata demo_env fs' (NodeId 2) = Err NotFound"
proof -
  obtain fs where fs: "fs_inv demo_env ref_valid fs" "fs_can_stamp (Some 6) fs"
    "\<And>k. fs_find demo_env fs k = (if k = NodeId 2 then Some (ROOT, RegularFile ''a'' 0 []) else None)"
    using demo_file by metis
  obtain r fs' where c: "fs_delete_file demo_env (Some 6) ROOT ''a'' fs = (r, fs')" by force
  have rep: "replica (e_replica demo_env) ref_valid" using ref.replica_axioms by simp
  have none: "fs_find demo_env fs ROOT = None" "fs_find demo_env fs TRASH = None"
    by (simp_all add: fs ROOT_def TRASH_def from_uuid_def)
  have "fs_child_id demo_env fs ROOT ''a'' = Ok (NodeId 2)"
    by (rule child_id_unique [OF rep fs(1)]) (auto simp: listable_def child_named_def fs split: if_splits)
  with delete_file_trashes [OF rep fs(1,2) none ROOT_not_TRASH(1) c]
  have "fs_metadata demo_env fs' (NodeId 2) = Err NotFound" by (auto simp: fs)
  with c fs(3) show ?thesis by (metis option.discI)
qed

text \<open>C35: Deleting a directory by name succeeds only when it is empty: a directory with a child is
  refused with \<open>DirectoryNotEmpty\<close>, a file with \<open>NotADirectory\<close>, a missing name with \<open>NotFound\<close>, all
  without any change; so a successful deletion never makes a node unreachable but the directory.\<close>

theorem delete_directory_only_empty:
  assumes "replica (e_replica E) valid" and "fs_inv E valid fs" and "fs_can_stamp now fs"
    and "fs_find E fs ROOT = None" and "fs_find E fs TRASH = None" and "p \<noteq> TRASH"
    and "fs_delete_directory E now p name fs = (r, fs')"
  shows "(case fs_child_id E fs p name of
      Inl _ \<Rightarrow> r = Err NotFound \<and> fs' = fs
    | Inr n \<Rightarrow> (\<exists>m. fs_find E fs n = Some (p, m) \<and> meta_name m = name \<and>
        (if \<nexists>dir. m = Directory dir then r = Err NotADirectory \<and> fs' = fs
         else if \<exists>k m'. fs_find E fs k = Some (n, m') then r = Err DirectoryNotEmpty \<and> fs' = fs
         else (\<exists>x. r = Ok (tree_mutation_new () [x]) \<and> op_child x = n \<and> op_parent x = TRASH \<and> op_metadata x = m) \<and>
           fs_metadata E fs' n = Err NotFound \<and>
           (\<forall>k. fs_find E fs' k = (if k = n then Some (TRASH, m) else fs_find E fs k))))) \<and>
    fs_inv E valid fs' \<and> fs_storage fs' = fs_storage fs"
proof (cases "fs_child_id E fs p name")
  case (Inl e)
  with child_id_Err(1) [OF assms(1,2) Inl] assms(2,7) show ?thesis by (auto simp: fs_delete_directory_def)
next
  case (Inr n)
  obtain m where m: "fs_find E fs n = Some (p, m)" "meta_name m = name" "fs_metadata E fs n = Ok m"
    using child_metadata [OF assms(1,2,4,6) Inr] .
  show ?thesis
  proof (cases "\<exists>dir. m = Directory dir")
    case False
    with Inr m assms(2,7) show ?thesis by (cases m) (auto simp: fs_delete_directory_def)
  next
    case True
    then obtain dir where dir: "m = Directory dir" by blast
    have "listable E fs n" using m(1) by (simp add: listable_def)
    then obtain cs where cs: "fs_children E fs n = Ok cs" by (simp add: fs_children_eq)
    have run: "(r, fs') = (if cs \<noteq> [] then (Err DirectoryNotEmpty, fs) else fs_delete_node E now n fs)"
      using Inr m(3) dir cs assms(7) by (simp add: fs_delete_directory_def)
    have full: "cs \<noteq> [] \<longleftrightarrow> (\<exists>k m'. fs_find E fs k = Some (n, m'))"
      using fs_children_set(2) [OF assms(1,2) cs] by (metis list.set_intros(1) neq_Nil_conv empty_iff list.set(1))
    show ?thesis
    proof (cases "cs = []")
      case False
      then have "r = Err DirectoryNotEmpty \<and> fs' = fs" "\<exists>k m'. fs_find E fs k = Some (n, m')"
        using run full by simp_all
      with Inr m dir assms(2) show ?thesis by simp
    next
      case empty: True
      then have "fs_delete_node E now n fs = (r, fs')" using run by simp
      from delete_child_effect [OF assms(1-5) m(1) this] Inr m dir full empty show ?thesis by auto
    qed
  qed
qed

text \<open>A directory that holds another is refused; the one in it is deleted.\<close>

theorem delete_directory_only_empty_witness:
  "\<exists>fs fs' r. fs_delete_directory demo_env (Some 7) ROOT ''bb'' fs = (Err DirectoryNotEmpty, fs) \<and>
    fs_delete_directory demo_env (Some 7) (NodeId 3) ''a'' fs = (r, fs') \<and> is_ok r \<and>
    fs_metadata demo_env fs (NodeId 2) = Ok (Directory ''a'') \<and> fs_metadata demo_env fs' (NodeId 2) = Err NotFound"
proof -
  obtain fs where fs: "fs_inv demo_env ref_valid fs" "fs_can_stamp (Some 7) fs"
    "\<And>k. fs_find demo_env fs k = demo_tree k" by (rule demo_nested) (rule that)
  have rep: "replica (e_replica demo_env) ref_valid" using ref.replica_axioms by simp
  have ids: "ROOT \<noteq> NodeId 2" "ROOT \<noteq> NodeId 3" "NodeId 3 \<noteq> TRASH" "TRASH \<noteq> NodeId 2"
    by (simp_all add: ROOT_def TRASH_def from_uuid_def)
  then have none: "fs_find demo_env fs ROOT = None" "fs_find demo_env fs TRASH = None"
    by (simp_all add: fs demo_tree_def)
  have top: "fs_child_id demo_env fs ROOT ''bb'' = Ok (NodeId 3)"
    by (rule child_id_unique [OF rep fs(1)])
      (use ids in \<open>auto simp: listable_def child_named_def fs demo_tree_def split: if_splits\<close>)
  have below: "fs_child_id demo_env fs (NodeId 3) ''a'' = Ok (NodeId 2)"
    by (rule child_id_unique [OF rep fs(1)])
      (use ids in \<open>auto simp: listable_def child_named_def fs demo_tree_def split: if_splits\<close>)
  obtain r fs' where c: "fs_delete_directory demo_env (Some 7) (NodeId 3) ''a'' fs = (r, fs')" by force
  obtain r2 fs2 where c2: "fs_delete_directory demo_env (Some 7) ROOT ''bb'' fs = (r2, fs2)" by force
  have dir: "fs_find demo_env fs (NodeId 2) = Some (NodeId 3, Directory ''a'')" "fs_find demo_env fs (NodeId 3) = Some (ROOT, Directory ''bb'')"
    and leaf: "fs_find demo_env fs k \<noteq> Some (NodeId 2, m)" for k m
    using ids by (auto simp: fs demo_tree_def)
  have "is_ok r \<and> fs_metadata demo_env fs' (NodeId 2) = Err NotFound"
    using delete_directory_only_empty [OF rep fs(1,2) none ids(3) c] below dir leaf by auto
  moreover have "r2 = Err DirectoryNotEmpty \<and> fs2 = fs"
    using delete_directory_only_empty [OF rep fs(1,2) none ROOT_not_TRASH(1) c2] top dir by (auto split: if_splits)
  moreover have "fs_metadata demo_env fs (NodeId 2) = Ok (Directory ''a'')" using ids dir by (simp add: fs_metadata_Ok)
  ultimately show ?thesis using c c2 by blast
qed

text \<open>C37: A node's id is the name-based uuid of the directory and name it was created under, and a
  rename does not change it. So creating a file under a name whose first holder was renamed or
  moved away takes over that holder (unless the directory lies below it, see C19): the call succeeds, but the
  file that lived on elsewhere disappears from there and its size and chunk list are replaced by an empty file.\<close>

theorem create_takes_over_renamed:
  assumes "replica (e_replica E) valid" and "fs_inv E valid fs" and "fs_can_stamp now fs"
    and "n = from_uuid (e_uuid5 E (as_uuid p) name)" and "fs_find E fs n = Some (q, m)"
    and "\<nexists>c. child_named E fs p name c" and "placed E fs n p"
    and "fs_create_file E now p name fs = (r, fs')"
  shows "is_ok r \<and> fs_find E fs' n = Some (p, RegularFile name 0 []) \<and>
    \<not> child_named E fs' q (meta_name m) n"
proof -
  note eff = create_node_effect [OF assms(1-3) assms(8) [unfolded fs_create_file_def]]
  have free: "\<not> is_ok (fs_child_id E fs p name)"
    using child_id_Ok(1) [OF assms(1,2)] assms(6) by (auto simp: is_ok_iff)
  from eff(3) [OF free, of n] assms(4,7) have find: "fs_find E fs' n = Some (p, RegularFile name 0 [])" by simp
  moreover have "q \<noteq> p \<or> meta_name m \<noteq> name" using assms(5,6) by (auto simp: child_named_def)
  ultimately show ?thesis using eff(2) [OF free] by (auto simp: child_named_def)
qed

text \<open>The scenario end to end: \<open>a\<close> is renamed to \<open>bb\<close>, then \<open>a\<close> is created: no \<open>bb\<close> is left.\<close>

theorem create_takes_over_renamed_witness:
  "\<exists>fs r. is_ok r \<and> (\<exists>fs1 r1 fs2. fs_rename demo_env (Some 6) ROOT ''a'' ROOT ''bb'' fs = (r1, fs1) \<and> is_ok r1 \<and>
     child_named demo_env fs1 ROOT ''bb'' (NodeId 2) \<and>
     fs_create_file demo_env (Some 7) ROOT ''a'' fs1 = (r, fs2) \<and>
     \<not> child_named demo_env fs2 ROOT ''bb'' (NodeId 2))"
proof -
  obtain fs where clk: "nt_clock (fs_tree fs) = \<lparr>physical = 5, logical = 0\<rparr>"
    and fs: "fs_inv demo_env ref_valid fs" "fs_can_stamp (Some 6) fs" and "fs_storage fs = storage_new 1000"
    and look: "\<And>k. fs_find demo_env fs k = (if k = NodeId 2 then Some (ROOT, RegularFile ''a'' 0 []) else None)"
    by (rule demo_file) (rule that)
  note fs = fs look
  have rep: "replica (e_replica demo_env) ref_valid" using ref.replica_axioms by simp
  have root: "ROOT = NodeId 0" "TRASH \<noteq> NodeId 0" by (simp_all add: ROOT_def TRASH_def from_uuid_def)
  obtain r1 fs1 where c1: "fs_rename demo_env (Some 6) ROOT ''a'' ROOT ''bb'' fs = (r1, fs1)" by force
  note eff = rename_effect [OF rep fs(1,2) c1]
  have src: "fs_child_id demo_env fs ROOT ''a'' = Ok (NodeId 2)"
    by (rule child_id_unique [OF rep fs(1)]) (auto simp: listable_def child_named_def fs split: if_splits)
  have tgt: "\<forall>d. fs_child_id demo_env fs ROOT ''bb'' = Ok d \<longrightarrow> d = NodeId 2"
    by (auto dest!: child_id_Ok(1) [OF rep fs(1)] simp: child_named_def fs split: if_splits)
  have "placed demo_env fs (NodeId 2) ROOT" by (rule placed_root) (simp_all add: fs root)
  with eff(4) [OF src tgt _ _ ROOT_not_TRASH(1)] obtain x where x: "r1 = Ok (tree_mutation_new () [x])"
    and find: "\<And>k. fs_find demo_env fs1 k = (if k = NodeId 2 then Some (ROOT, RegularFile ''bb'' 0 []) else None)"
    by (auto simp: fs root renamed_def)
  have "fs_can_stamp (Some 7) fs1"
    using rename_clock [OF c1 [unfolded x]] clk by (simp add: fs_can_stamp_def can_stamp_def hlc_eval)
  note st = eff(5) this
  obtain r fs2 where c2: "fs_create_file demo_env (Some 7) ROOT ''a'' fs1 = (r, fs2)" by force
  have n: "NodeId 2 = from_uuid (e_uuid5 demo_env (as_uuid ROOT) ''a'')" by (simp add: from_uuid_def)
  have at: "fs_find demo_env fs1 (NodeId 2) = Some (ROOT, RegularFile ''bb'' 0 [])"
    and free: "\<nexists>c. child_named demo_env fs1 ROOT ''a'' c" by (auto simp: find child_named_def)
  have "placed demo_env fs1 (NodeId 2) ROOT" by (rule placed_root) (simp_all add: find root)
  from create_takes_over_renamed [OF rep st n at free this c2] have
    "is_ok r" "\<not> child_named demo_env fs2 ROOT ''bb'' (NodeId 2)" by simp_all
  moreover have "child_named demo_env fs1 ROOT ''bb'' (NodeId 2)" by (simp add: child_named_def at)
  moreover have "is_ok r1" by (simp add: x)
  ultimately show ?thesis using c1 c2 by blast
qed

end
