(* ===== verification/FileContent.thy ===== *)
theory FileContent
  imports Namespace
begin

text \<open>
  Reading and writing file data: what \<open>read_file\<close> returns as a slice of the file's content, which
  chunks \<open>missing_chunk_hashes_for\<close> asks for, and that a write or a truncation is what a later
  read sees. The locale \<open>content_store\<close> is the interface the read loop needs of the chunk store:
  \<open>get\<close> answers by the content and keeps it, whatever it does to the cache queue.
\<close>

section \<open>What a file contains\<close>

text \<open>The bytes of a chunk reference, and of a list of them: a missing chunk counts as zeros.\<close>

definition ref_bytes :: "(chunk_hash \<Rightarrow> bytes option) \<Rightarrow> chunk_ref \<Rightarrow> bytes" where
  "ref_bytes look r =
     take (unat (ref_size r)) (case look (ref_hash r) of None \<Rightarrow> replicate (unat (ref_size r)) 0 | Some d \<Rightarrow> d)"

definition file_bytes :: "(chunk_hash \<Rightarrow> bytes option) \<Rightarrow> chunk_ref list \<Rightarrow> bytes" where
  "file_bytes look rs = concat (map (ref_bytes look) rs)"

text \<open>The chunks that are present are at least as long as the references to them say, and the
  file's length is one a \<open>u64\<close> can count.\<close>

definition refs_sound :: "(chunk_hash \<Rightarrow> bytes option) \<Rightarrow> chunk_ref list \<Rightarrow> bool" where
  "refs_sound look rs \<longleftrightarrow>
     (\<forall>r \<in> set rs. \<forall>d. look (ref_hash r) = Some d \<longrightarrow> unat (ref_size r) \<le> length d)"

lemma file_bytes_simps [simp]:
  "file_bytes look [] = []" "file_bytes look (r # rs) = ref_bytes look r @ file_bytes look rs"
  by (simp_all add: file_bytes_def)

lemma refs_sound_Cons:
  "refs_sound look (r # rs) \<longleftrightarrow>
    (\<forall>d. look (ref_hash r) = Some d \<longrightarrow> unat (ref_size r) \<le> length d) \<and> refs_sound look rs"
  by (auto simp: refs_sound_def)

lemma ref_bytes_length:
  "refs_sound look (r # rs) \<Longrightarrow> length (ref_bytes look r) = unat (ref_size r)"
  by (auto simp: refs_sound_Cons ref_bytes_def split: option.splits)

lemma file_bytes_length: "refs_sound look rs \<Longrightarrow> length (file_bytes look rs) = refs_total rs"
  by (induction rs) (auto simp: ref_bytes_length refs_sound_Cons)

lemma subslice_of_append:
  "subslice (xs @ ys) a b = subslice xs a (min b (length xs)) @ subslice ys (a - length xs) (b - length xs)"
proof (cases "a \<le> length xs")
  case True
  then show ?thesis by (cases "b \<le> length xs") (auto simp: subslice_def)
next
  case False
  then show ?thesis by (simp add: subslice_def)
qed

lemma subslice_empty: "b \<le> a \<Longrightarrow> subslice xs a b = []"
  by (simp add: subslice_def)

lemma subslice_take: "b \<le> n \<Longrightarrow> subslice (take n xs) a b = subslice xs a b"
  by (simp add: subslice_def drop_take min_def)

text \<open>The bytes the loop appends for one chunk.\<close>

lemma ref_bytes_piece:
  assumes "refs_sound look (r # rs)"
    and "data = (case look (ref_hash r) of None \<Rightarrow> replicate (unat (ref_size r)) 0 | Some d \<Rightarrow> d)"
    and "b \<le> unat (ref_size r)"
  shows "(if a < min b (length data) then out @ subslice data a (min b (length data)) else out)
    = out @ subslice (ref_bytes look r) a b"
proof -
  have len: "unat (ref_size r) \<le> length data"
    using assms(1,2) by (auto simp: refs_sound_Cons split: option.splits)
  have "subslice (ref_bytes look r) a b = subslice data a b"
    unfolding ref_bytes_def assms(2) [symmetric] using assms(3) by (rule subslice_take)
  with len assms(3) show ?thesis by (simp add: min_def subslice_empty)
qed

text \<open>Where each reference lies in the file, and which of them a range touches.\<close>

fun ref_spans :: "nat \<Rightarrow> chunk_ref list \<Rightarrow> (nat \<times> chunk_ref) list" where
  "ref_spans start [] = []"
| "ref_spans start (r # rs) = (start, r) # ref_spans (start + unat (ref_size r)) rs"

definition span_hits :: "nat \<Rightarrow> nat \<Rightarrow> nat \<times> chunk_ref \<Rightarrow> bool" where
  "span_hits a b x \<longleftrightarrow> fst x < b \<and> a < fst x + unat (ref_size (snd x))"

lemma ref_spans_above: "x \<in> set (ref_spans start rs) \<Longrightarrow> start \<le> fst x"
  by (induction start rs rule: ref_spans.induct) auto

lemma member_le_refs_total: "r \<in> set rs \<Longrightarrow> unat (ref_size r) \<le> refs_total rs"
  by (induction rs) auto

lemma ref_spans_refs: "x \<in> set (ref_spans start rs) \<Longrightarrow> snd x \<in> set rs"
  by (induction start rs rule: ref_spans.induct) auto

text \<open>A read of the bytes from \<open>a\<close> to \<open>b\<close> panics when they are more than a \<open>Vec\<close> can hold, or when
  the filler for a missing chunk that they touch is.\<close>

definition unfillable :: "(chunk_hash \<Rightarrow> bytes option) \<Rightarrow> nat \<Rightarrow> nat \<Rightarrow> (nat \<times> chunk_ref) list \<Rightarrow> bool" where
  "unfillable look a b xs \<longleftrightarrow>
     (\<exists>x \<in> set xs. span_hits a b x \<and> look (ref_hash (snd x)) = None \<and> 2 ^ 63 \<le> unat (ref_size (snd x)))"

definition read_panics :: "(chunk_hash \<Rightarrow> bytes option) \<Rightarrow> nat \<Rightarrow> nat \<Rightarrow> chunk_ref list \<Rightarrow> bool" where
  "read_panics look a b rs \<longleftrightarrow> a < b \<and> (2 ^ 63 \<le> b - a \<or> unfillable look a b (ref_spans 0 rs))"

lemma unfillable_simps [simp]:
  "\<not> unfillable look a b []"
  "unfillable look a b (x # xs) \<longleftrightarrow>
    span_hits a b x \<and> look (ref_hash (snd x)) = None \<and> 2 ^ 63 \<le> unat (ref_size (snd x)) \<or> unfillable look a b xs"
  by (auto simp: unfillable_def)

lemma unfillable_beyond: "b \<le> start \<Longrightarrow> \<not> unfillable look a b (ref_spans start rs)"
  using ref_spans_above by (fastforce simp: unfillable_def span_hits_def)

lemma small_read_returns:
  "b - a < 2 ^ 63 \<Longrightarrow> (\<And>r. r \<in> set rs \<Longrightarrow> look (ref_hash r) = None \<Longrightarrow> unat (ref_size r) < 2 ^ 63) \<Longrightarrow>
    \<not> read_panics look a b rs"
  by (force simp: read_panics_def unfillable_def not_le dest: ref_spans_refs)

lemma complete_read_returns:
  "b - a < 2 ^ 63 \<Longrightarrow> (\<And>x. x \<in> set (ref_spans 0 rs) \<Longrightarrow> span_hits a b x \<Longrightarrow> look (ref_hash (snd x)) \<noteq> None) \<Longrightarrow>
    \<not> read_panics look a b rs"
  by (auto simp: read_panics_def unfillable_def)

section \<open>The interface of the store\<close>

locale content_store =
  fixes get :: "chunk_hash \<Rightarrow> 's \<Rightarrow> bytes option \<times> 's"
    and chunks_of :: "'s \<Rightarrow> 'c"
    and look :: "'c \<Rightarrow> chunk_hash \<Rightarrow> bytes option"
    and good :: "'s \<Rightarrow> bool"
  assumes get_law: "good s \<Longrightarrow> get h s = (d, s') \<Longrightarrow>
    d = look (chunks_of s) h \<and> chunks_of s' = chunks_of s \<and> good s'"
begin

lemma read_chunks_keeps:
  assumes "good s" and "read_chunks get offset read_end rs start out s = (res, s')"
  shows "chunks_of s' = chunks_of s \<and> good s'"
  using assms
proof (induction rs arbitrary: start out s)
  case (Cons r rs)
  obtain d s1 where g: "get (ref_hash r) s = (d, s1)" by force
  from get_law [OF Cons.prems(1) g] Cons.IH Cons.prems g show ?case
    by (auto simp: Let_def split: if_splits)
qed simp

lemma read_chunks_slice:
  assumes "good s" and "refs_sound (look (chunks_of s)) rs" and "unat start + refs_total rs < 2 ^ 64"
    and "read_chunks get offset read_end rs start out s = (res, s')"
  shows "res = (if unfillable (look (chunks_of s)) (unat offset) (unat read_end) (ref_spans (unat start) rs) then None
      else Some (out @ subslice (file_bytes (look (chunks_of s)) rs) (unat offset - unat start) (unat read_end - unat start)))"
  using assms
proof (induction rs arbitrary: start out s)
  case Nil
  then show ?case by (simp add: subslice_def)
next
  case (Cons r rs)
  let ?look = "look (chunks_of s)" and ?sz = "unat (ref_size r)" and ?next = "start + ref_size r"
  let ?a = "unat offset - unat start" and ?b = "unat read_end - unat start"
  have sum: "unat ?next = unat start + ?sz"
    using Cons.prems(3) by (intro unat_add_no_overflow) simp
  have fits: "unat ?next + refs_total rs < 2 ^ 64"
    using Cons.prems(3) by (simp add: sum add.assoc)
  have sound: "refs_sound ?look rs" using Cons.prems(2) by (simp add: refs_sound_Cons)
  have len: "length (ref_bytes ?look r) = ?sz" by (rule ref_bytes_length [OF Cons.prems(2)])
  have split: "subslice (file_bytes ?look (r # rs)) ?a ?b =
      subslice (ref_bytes ?look r) ?a (min ?b ?sz) @
      subslice (file_bytes ?look rs) (unat offset - unat ?next) (unat read_end - unat ?next)"
    unfolding file_bytes_simps subslice_of_append by (simp add: len sum)
  show ?case
  proof (cases "?next \<le> offset")
    case True
    then have le: "unat start + ?sz \<le> unat offset" by (simp add: word_le_nat_alt sum)
    then have none: "subslice (ref_bytes ?look r) ?a (min ?b ?sz) = []" by (intro subslice_empty) simp
    from True Cons.prems(4) have "read_chunks get offset read_end rs ?next out s = (res, s')"
      by simp
    from Cons.IH [OF Cons.prems(1) sound fits this] none split le show ?thesis by (simp add: span_hits_def sum)
  next
    case skip: False
    show ?thesis
    proof (cases "start \<ge> read_end")
      case True
      then have "?b = 0" and le: "unat read_end \<le> unat start" by (simp_all add: word_le_nat_alt)
      moreover from unfillable_beyond [OF le, of ?look "unat offset" "r # rs"]
      have "\<not> unfillable ?look (unat offset) (unat read_end) (ref_spans (unat start) (r # rs))" .
      ultimately show ?thesis using True skip Cons.prems(4) by (simp add: subslice_empty del: unfillable_simps ref_spans.simps)
    next
      case False
      obtain d s1 where g: "get (ref_hash r) s = (d, s1)" by force
      from get_law [OF Cons.prems(1) g] have
        d: "d = ?look (ref_hash r)" and s1: "chunks_of s1 = chunks_of s" "good s1" by auto
      have hit: "span_hits (unat offset) (unat read_end) (unat start, r)"
        using skip False by (simp add: span_hits_def word_le_nat_alt sum)
      show ?thesis
      proof (cases "d = None \<and> 2 ^ 63 \<le> ?sz")
        case True
        with hit d g skip False Cons.prems(4) show ?thesis by (auto simp: capacity_overflow_def)
      next
        case fits_vec: False
        then have no_panic: "(d = None \<and> capacity_overflow (ref_size r)) = False" by (simp add: capacity_overflow_def)
        have lo: "unat (saturating_sub offset start) = ?a" by (rule unat_saturating_sub)
        have hi: "unat (min (read_end - start) (ref_size r)) = min ?b ?sz"
          using False by (simp add: min_def word_le_nat_alt unat_sub)
        let ?data = "case d of None \<Rightarrow> replicate ?sz 0 | Some d \<Rightarrow> d"
        have data: "?data = (case ?look (ref_hash r) of None \<Rightarrow> replicate ?sz 0 | Some d \<Rightarrow> d)"
          by (simp add: d)
        note piece = ref_bytes_piece [OF Cons.prems(2) data, of "min ?b ?sz" ?a out]
        have "read_chunks get offset read_end rs ?next
            (out @ subslice (ref_bytes ?look r) ?a (min ?b ?sz)) s1 = (res, s')"
          using Cons.prems(4) skip False piece by (simp add: g Let_def lo hi no_panic)
        from Cons.IH [OF s1(2) _ fits this] sound split s1(1) fits_vec d show ?thesis by (auto simp: sum)
      qed
    qed
  qed
qed

end

interpretation store: content_store storage_get st_chunks chunk_look storage_inv
proof unfold_locales
  fix s h d s'
  assume "storage_inv s" and "storage_get h s = (d, s')"
  with get_inv [of s h] show "d = chunk_look (st_chunks s) h \<and> st_chunks s' = st_chunks s \<and> storage_inv s'"
    by (simp add: chunk_look_def)
qed


section \<open>Reading\<close>

lemma unat_read_end: "unat (min (saturating_add off len) sz) = min (unat off + unat len) (unat sz)"
  using unat_lt_2_64 [of sz] by (simp add: min_def word_le_nat_alt unat_saturating_add)

lemma read_file_keeps:
  assumes "fs_inv E valid fs" and "fs_read_file E n off len fs = (r, fs')"
  shows "fs_tree fs' = fs_tree fs" and "st_chunks (fs_storage fs') = st_chunks (fs_storage fs)"
    and "fs_inv E valid fs'"
proof -
  have "fs_tree fs' = fs_tree fs \<and> st_chunks (fs_storage fs') = st_chunks (fs_storage fs) \<and>
    storage_inv (fs_storage fs')"
    using assms(2) store.read_chunks_keeps [OF fs_inv_parts(2) [OF assms(1)]] fs_inv_parts(2) [OF assms(1)]
    by (auto simp: fs_read_file_def Let_def split: sum.splits node_meta.splits if_splits prod.splits)
  then show "fs_tree fs' = fs_tree fs" "st_chunks (fs_storage fs') = st_chunks (fs_storage fs)"
    "fs_inv E valid fs'" using assms(1) by (simp_all add: fs_inv_def content_addressed_def)
qed

lemma read_file_outcome:
  assumes "fs_inv E valid fs" and "fs_metadata E fs n = Ok (RegularFile name sz rs)"
    and "refs_sound (fs_look fs) rs" and "refs_total rs < 2 ^ 64"
  shows "fst (fs_read_file E n off len fs) =
    (if read_panics (fs_look fs) (unat off) (min (unat off + unat len) (unat sz)) rs then Err CapacityOverflow
     else Ok (subslice (file_bytes (fs_look fs) rs) (unat off) (min (unat off + unat len) (unat sz))))"
proof -
  let ?re = "min (saturating_add off len) sz"
  obtain out st where rc: "read_chunks storage_get off ?re rs 0 [] (fs_storage fs) = (out, st)" by force
  have len: "unat ?re = min (unat off + unat len) (unat sz)" by (rule unat_read_end)
  from store.read_chunks_slice [OF fs_inv_parts(2) [OF assms(1)] _ _ rc] assms(3,4)
  have out: "out = (if unfillable (fs_look fs) (unat off) (unat ?re) (ref_spans 0 rs) then None
      else Some (subslice (file_bytes (fs_look fs) rs) (unat off) (unat ?re)))"
    by (simp add: fs_look_def)
  show ?thesis
  proof (cases "off \<ge> ?re")
    case True
    then have "unat ?re \<le> unat off" by (simp add: word_le_nat_alt)
    with True assms(2) show ?thesis
      by (simp add: fs_read_file_def Let_def subslice_empty read_panics_def len [symmetric])
  next
    case False
    then have "unat off < unat ?re" "capacity_overflow (?re - off) \<longleftrightarrow> 2 ^ 63 \<le> unat ?re - unat off"
      by (simp_all add: word_le_nat_alt capacity_overflow_def unat_sub)
    with assms(2) rc out False show ?thesis
      by (simp add: fs_read_file_def Let_def read_panics_def len [symmetric])
  qed
qed

lemma read_file_value:
  assumes "fs_inv E valid fs" and "fs_metadata E fs n = Ok (RegularFile name sz rs)"
    and "refs_sound (fs_look fs) rs" and "refs_total rs < 2 ^ 64"
    and "\<not> read_panics (fs_look fs) (unat off) (min (unat off + unat len) (unat sz)) rs"
  shows "fst (fs_read_file E n off len fs) =
    Ok (subslice (file_bytes (fs_look fs) rs) (unat off) (min (unat off + unat len) (unat sz)))"
  using read_file_outcome [OF assms(1-4)] assms(5) by simp

lemma read_file_all_outcome:
  assumes "fs_inv E valid fs" and "fs_metadata E fs n = Ok (RegularFile name sz rs)"
    and "refs_sound (fs_look fs) rs" and "refs_total rs < 2 ^ 64"
  shows "fst (fs_read_file_all E n fs) = (if read_panics (fs_look fs) 0 (unat sz) rs then Err CapacityOverflow
    else Ok (take (unat sz) (file_bytes (fs_look fs) rs)))"
  using read_file_outcome [OF assms, of 0 sz] assms(2) by (simp add: fs_read_file_all_def subslice_def)

section \<open>What is missing\<close>

lemma missing_loop_eq:
  "unat start + refs_total rs < 2 ^ 64 \<Longrightarrow>
    missing_loop present offset read_end rs start missing = missing @ map (ref_hash \<circ> snd)
      (filter (\<lambda>x. span_hits (unat offset) (unat read_end) x \<and> \<not> present (ref_hash (snd x)))
         (ref_spans (unat start) rs))"
proof (induction rs arbitrary: start missing)
  case (Cons r rs)
  have sum: "unat (start + ref_size r) = unat start + unat (ref_size r)"
    using Cons.prems by (intro unat_add_no_overflow) simp
  have hit: "start < read_end \<and> offset < start + ref_size r \<longleftrightarrow>
      span_hits (unat offset) (unat read_end) (unat start, r)"
    by (simp add: span_hits_def word_less_nat_alt sum)
  have none: "filter (\<lambda>x. span_hits (unat offset) (unat read_end) x \<and> \<not> present (ref_hash (snd x)))
      (ref_spans (unat start + unat (ref_size r)) rs) = []" if "start + ref_size r \<ge> read_end"
    using that ref_spans_above by (fastforce simp: span_hits_def word_le_nat_alt sum filter_empty_conv)
  have fits: "unat (start + ref_size r) + refs_total rs < 2 ^ 64" using Cons.prems by (simp add: sum add.assoc)
  show ?case
    using Cons.IH [OF fits] none hit by (auto simp: Let_def sum)
qed simp

lemma missing_hashes_eq:
  assumes "fs_metadata E fs n = Ok (RegularFile name sz rs)" and "refs_total rs < 2 ^ 64"
  shows "fs_missing_chunk_hashes_for E fs n off len = Ok (map (ref_hash \<circ> snd)
    (filter (\<lambda>x. span_hits (unat off) (min (unat off + unat len) (unat sz)) x \<and>
       \<not> storage_contains (fs_storage fs) (ref_hash (snd x))) (ref_spans 0 rs)))"
  using assms missing_loop_eq [of 0 rs] by (simp add: fs_missing_chunk_hashes_for_def unat_read_end)

text \<open>A slice depends only on the chunks its range touches.\<close>

lemma subslice_file_bytes_cong:
  assumes "refs_sound look rs" and "refs_sound look' rs"
    and "\<forall>x \<in> set (ref_spans start rs). span_hits (start + a) (start + b) x \<longrightarrow>
      look (ref_hash (snd x)) = look' (ref_hash (snd x))"
  shows "subslice (file_bytes look rs) a b = subslice (file_bytes look' rs) a b"
  using assms
proof (induction rs arbitrary: start a b)
  case (Cons r rs)
  let ?sz = "unat (ref_size r)"
  note len = ref_bytes_length [OF Cons.prems(1)] ref_bytes_length [OF Cons.prems(2)]
  have "subslice (ref_bytes look r) a (min b ?sz) = subslice (ref_bytes look' r) a (min b ?sz)"
  proof (cases "0 < b \<and> a < ?sz")
    case True
    then have "span_hits (start + a) (start + b) (start, r)" by (simp add: span_hits_def)
    with Cons.prems(3) have "look (ref_hash r) = look' (ref_hash r)" by auto
    then show ?thesis by (simp add: ref_bytes_def)
  qed (auto simp: subslice_empty)
  moreover have "subslice (file_bytes look rs) (a - ?sz) (b - ?sz) = subslice (file_bytes look' rs) (a - ?sz) (b - ?sz)"
  proof (rule Cons.IH [of "start + ?sz"])
    show "\<forall>x \<in> set (ref_spans (start + ?sz) rs). span_hits (start + ?sz + (a - ?sz)) (start + ?sz + (b - ?sz)) x \<longrightarrow>
        look (ref_hash (snd x)) = look' (ref_hash (snd x))"
    proof (intro ballI impI)
      fix x assume x: "x \<in> set (ref_spans (start + ?sz) rs)"
        and hit: "span_hits (start + ?sz + (a - ?sz)) (start + ?sz + (b - ?sz)) x"
      have "start + ?sz \<le> fst x" using ref_spans_above [OF x] .
      with hit have "span_hits (start + a) (start + b) x" by (auto simp: span_hits_def)
      with x Cons.prems(3) show "look (ref_hash (snd x)) = look' (ref_hash (snd x))" by auto
    qed
  qed (use Cons.prems(1,2) in \<open>simp_all add: refs_sound_Cons\<close>)
  ultimately show ?case by (simp add: subslice_of_append len)
qed simp

section \<open>Writing and truncating\<close>

definition stored_data :: "chunk_storage \<Rightarrow> bytes set" where
  "stored_data st = {d. \<exists>h e. hget (st_chunks st) h = Some e \<and> d = ent_data e}"

text \<open>No two of the chunks at hand, stored or to be stored, have the same SHA-256 digest.\<close>

definition collision_free :: "(bytes \<Rightarrow> bytes) \<Rightarrow> chunk_storage \<Rightarrow> chunk list \<Rightarrow> bool" where
  "collision_free sha st cs \<longleftrightarrow> inj_on sha (stored_data st \<union> ch_data ` set cs)"

lemma try_pin_look:
  assumes "storage_inv st" and "content_addressed sha st" and "pin_addressable st cs"
    and "\<forall>c \<in> set cs. chunk_ok sha c" and "collision_free sha st cs"
    and "storage_try_pin cs st = (Ok (), st')"
  shows "c \<in> set cs \<Longrightarrow> chunk_look (st_chunks st') (ch_hash c) = Some (ch_data c)"
    and "c \<in> set cs \<Longrightarrow> storage_is_pinned st' (ch_hash c)"
    and "chunk_look (st_chunks st) h = Some d \<Longrightarrow> chunk_look (st_chunks st') h = Some d"
proof -
  note ok = try_pin_Ok [OF assms(1,3,6)]
  show "chunk_look (st_chunks st) h = Some d \<Longrightarrow> chunk_look (st_chunks st') h = Some d"
    using ok(1) [of h] by (auto simp: chunk_look_def)
  assume c: "c \<in> set cs"
  have h: "ch_hash c = hash_of sha (ch_data c)" using assms(4) c by (simp add: chunk_ok_def)
  have same: "d = ch_data c"
    if "hash_of sha d = ch_hash c" "d \<in> stored_data st \<union> ch_data ` set cs" for d
    using that c assms(5) inj_onD [of sha _ d "ch_data c"] by (auto simp: h hash_of_def collision_free_def)
  obtain c' where c': "find (\<lambda>c'. ch_hash c' = ch_hash c) cs = Some c'" "c' \<in> set cs" "ch_hash c' = ch_hash c"
    using find_hash_Some c by blast
  show "chunk_look (st_chunks st') (ch_hash c) = Some (ch_data c)"
  proof (cases "hget (st_chunks st) (ch_hash c)")
    case None
    have "hash_of sha (ch_data c') = ch_hash c" using assms(4) c' by (auto simp: chunk_ok_def)
    then have "ch_data c' = ch_data c" using c'(2) by (intro same) auto
    with None c' ok(1) [of "ch_hash c"] show ?thesis by (simp add: chunk_look_def)
  next
    case (Some e)
    have "hash_of sha (ent_data e) = ch_hash c" using assms(2) Some by (auto simp: content_addressed_def)
    then have "ent_data e = ch_data c" using Some by (intro same) (auto simp: stored_data_def)
    with Some ok(1) [of "ch_hash c"] show ?thesis by (simp add: chunk_look_def)
  qed
  show "storage_is_pinned st' (ch_hash c)"
    using ok(1) [of "ch_hash c"] c c'(1) by (auto simp: is_pinned_iff split: option.splits)
qed

lemma chunk_refs_bytes:
  assumes "\<forall>c \<in> set cs. look (ch_hash c) = Some (ch_data c) \<and> length (ch_data c) \<le> 2 ^ 20"
  shows "file_bytes look (map chunk_reference cs) = concat (map ch_data cs)"
    and "refs_sound look (map chunk_reference cs)"
  using assms by (induction cs) (auto simp: ref_bytes_def unat_vec_len_lt refs_sound_def)

lemma chunk_truncate_bytes:
  assumes "refs_sound look rs"
  shows "file_bytes look (chunk_truncate rs n) = take (unat n) (file_bytes look rs)"
    and "refs_sound look (chunk_truncate rs n)"
proof -
  show "file_bytes look (chunk_truncate rs n) = take (unat n) (file_bytes look rs)"
    using assms
  proof (induction rs n rule: chunk_truncate.induct)
    case (2 r rs n)
    have sound: "refs_sound look rs" and len: "length (ref_bytes look r) = unat (ref_size r)"
      using "2.prems" ref_bytes_length [OF "2.prems"] by (simp_all add: refs_sound_Cons)
    have cut: "ref_bytes look \<lparr>ref_hash = ref_hash r, ref_size = n\<rparr> = take (unat n) (ref_bytes look r)"
      if "unat n < unat (ref_size r)"
      using that by (auto simp: ref_bytes_def min_def split: option.splits)
    show ?case
    proof (cases "n = 0")
      case False
      then show ?thesis
        using "2.IH" [OF False _ sound] len cut
        by (auto simp: word_le_nat_alt unat_sub not_le)
    qed simp
  qed simp
  show "refs_sound look (chunk_truncate rs n)"
    using assms
    by (induction rs n rule: chunk_truncate.induct) (auto simp: refs_sound_Cons word_le_nat_alt refs_sound_def)
qed

lemma split_refs_sound:
  assumes "cdc_ok cdc" and "\<forall>c \<in> set (chunk_split sha cdc data). look (ch_hash c) = Some (ch_data c)"
  shows "file_bytes look (map chunk_reference (chunk_split sha cdc data)) = data"
    and "refs_sound look (map chunk_reference (chunk_split sha cdc data))"
proof -
  have "\<forall>c \<in> set (chunk_split sha cdc data). look (ch_hash c) = Some (ch_data c) \<and> length (ch_data c) \<le> 2 ^ 20"
    using assms(2) chunk_split_length [OF assms(1)] by simp
  from chunk_refs_bytes [OF this] chunk_split_concat [OF assms(1)]
  show "file_bytes look (map chunk_reference (chunk_split sha cdc data)) = data"
    "refs_sound look (map chunk_reference (chunk_split sha cdc data))" by simp_all
qed

lemma write_clock:
  "fs_write_file E now n data fs = (Ok (tree_mutation_new () [x]), fs') \<Longrightarrow>
    nt_clock (fs_tree fs') = snd (hlc_next now (nt_clock (fs_tree fs)))"
  by (auto simp: fs_write_file_def fs_replace_meta_def nt_move_issue issue_op_def nt_move_operation_def
      tree_mutation_new_def Let_def split: sum.splits node_meta.splits option.splits if_splits prod.splits)

text \<open>Both outcomes of a write to a regular file.\<close>

lemma write_file_effect:
  assumes "replica (e_replica E) valid" and "fs_inv E valid fs" and "fs_can_stamp now fs"
    and "fs_metadata E fs n = Ok (RegularFile name sz rs)"
    and "pin_addressable (fs_storage fs) (chunk_split (e_sha E) (e_cdc E) data)"
    and "fs_write_file E now n data fs = (r, fs')"
  defines "cs \<equiv> chunk_split (e_sha E) (e_cdc E) data"
  shows "(r = Err StorageFull \<and> fs' = fs \<and>
      unat (st_max_pinned_bytes (fs_storage fs)) < pinned_total (fs_storage fs) + required_bytes (fs_storage fs) cs) \<or>
    (\<exists>x p st'. r = Ok (tree_mutation_new () [x]) \<and> p \<noteq> TRASH \<and> fs_find E fs n = Some (p, RegularFile name sz rs) \<and>
      storage_try_pin cs (fs_storage fs) = (Ok (), st') \<and> fs_storage fs' = st' \<and> fs_inv E valid fs' \<and>
      op_child x = n \<and>
      (\<forall>k. fs_find E fs' k =
        (if k = n then Some (p, RegularFile name (vec_len data) (map chunk_reference cs)) else fs_find E fs k)))"
proof -
  let ?st = "fs_storage fs"
  note inv = fs_inv_parts [OF assms(2)]
  from assms(4) obtain p where p: "n \<noteq> ROOT" "p \<noteq> TRASH" "fs_find E fs n = Some (p, RegularFile name sz rs)"
    by (auto simp: fs_metadata_Ok split: if_splits)
  note cases = try_pin_cases [OF inv(2) assms(5) [folded cs_def]]
  have chunks: "\<forall>c \<in> set cs. chunk_ok (e_sha E) c"
    using chunk_split_hash by (auto simp: cs_def chunk_ok_def)
  show ?thesis
  proof (cases "pinned_total ?st + required_bytes ?st cs \<le> unat (st_max_pinned_bytes ?st)")
    case False
    then have "storage_try_pin cs ?st = (Err StoreFull, ?st)" by (simp add: cases)
    with False assms(4,6) show ?thesis by (auto simp: fs_write_file_def cs_def)
  next
    case True
    then obtain st' where ok: "storage_try_pin cs ?st = (Ok (), st')" by (simp add: cases)
    let ?fs = "fs\<lparr>fs_storage := st'\<rparr>"
    have "storage_inv st'" "content_addressed (e_sha E) st'"
      using try_pin_inv [OF inv(2), of cs] try_pin_content [OF inv(3) chunks inv(2)] ok assms(5)
      by (simp_all add: cs_def)
    with inv have inv': "fs_inv E valid ?fs" by (simp add: fs_inv_def)
    have stamp: "fs_can_stamp now ?fs" using assms(3) by (simp add: fs_can_stamp_def)
    have find: "fs_find E ?fs n = Some (p, RegularFile name sz rs)" using p by simp
    let ?m = "RegularFile name (vec_len data) (map chunk_reference cs)"
    from fs_replace_meta_effect [OF assms(1) inv' stamp find] obtain x g where
      g: "fs_replace_meta E now n ?m ?fs = (Ok (tree_mutation_new () [x]), g)" "fs_inv E valid g"
        "fs_storage g = fs_storage ?fs" "op_child x = n"
      and look: "\<And>k. fs_find E g k = (if k = n then Some (p, ?m) else fs_find E ?fs k)"
      by metis
    have "(r, fs') = (Ok (tree_mutation_new () [x]), g)"
      using assms(4,6) ok g(1) by (simp add: fs_write_file_def Let_def cs_def)
    with p ok g look show ?thesis by auto
  qed
qed

text \<open>What reads return after a write that succeeded.\<close>

lemma written_file_reads:
  assumes "cdc_ok (e_cdc E)" and "vec_ok data" and "fs_inv E valid fs"
    and "pin_addressable (fs_storage fs) (chunk_split (e_sha E) (e_cdc E) data)"
    and "collision_free (e_sha E) (fs_storage fs) (chunk_split (e_sha E) (e_cdc E) data)"
    and "storage_try_pin (chunk_split (e_sha E) (e_cdc E) data) (fs_storage fs) = (Ok (), fs_storage fs')"
    and "fs_inv E valid fs'" and "fs_metadata E fs' n = Ok (RegularFile name (vec_len data)
      (map chunk_reference (chunk_split (e_sha E) (e_cdc E) data)))"
  shows "fst (fs_read_file E n off len fs') =
      Ok (subslice data (unat off) (min (unat off + unat len) (length data)))"
    and "fst (fs_read_file_all E n fs') = Ok data"
    and "c \<in> set (chunk_split (e_sha E) (e_cdc E) data) \<Longrightarrow> fs_is_pinned fs' (ch_hash c)"
    and "fs_look fs h = Some d \<Longrightarrow> fs_look fs' h = Some d"
proof -
  let ?cs = "chunk_split (e_sha E) (e_cdc E) data"
  note inv = fs_inv_parts [OF assms(3)]
  have chunks: "\<forall>c \<in> set ?cs. chunk_ok (e_sha E) c" using chunk_split_hash by (auto simp: chunk_ok_def)
  note look = try_pin_look [OF inv(2,3) assms(4) chunks assms(5,6)]
  have "\<forall>c \<in> set ?cs. fs_look fs' (ch_hash c) = Some (ch_data c)" using look(1) by (simp add: fs_look_def)
  note refs = split_refs_sound [OF assms(1) this]
  have len: "unat (vec_len data) = length data" using assms(2) by (rule unat_vec_len)
  have total: "refs_total (map chunk_reference ?cs) < 2 ^ 64"
    using split_refs_total [OF assms(1)] assms(2) by (simp add: vec_ok_def)
  have "\<not> read_panics (fs_look fs') a (min b (unat (vec_len data))) (map chunk_reference ?cs)" for a b
  proof (rule complete_read_returns)
    show "min b (unat (vec_len data)) - a < 2 ^ 63" using len assms(2) by (simp add: vec_ok_def)
    show "fs_look fs' (ref_hash (snd x)) \<noteq> None" if "x \<in> set (ref_spans 0 (map chunk_reference ?cs))" for x
      using ref_spans_refs [OF that] look(1) by (auto simp: fs_look_def)
  qed
  note reads = read_file_value [OF assms(7,8) refs(2) total this] read_file_all_outcome [OF assms(7,8) refs(2) total]
    this [of 0 "unat (vec_len data)"]
  show "fst (fs_read_file E n off len fs') = Ok (subslice data (unat off) (min (unat off + unat len) (length data)))"
    "fst (fs_read_file_all E n fs') = Ok data" using reads refs(1) len by simp_all
  show "c \<in> set ?cs \<Longrightarrow> fs_is_pinned fs' (ch_hash c)" using look(2) by (simp add: fs_is_pinned_def)
  show "fs_look fs h = Some d \<Longrightarrow> fs_look fs' h = Some d" using look(3) by (simp add: fs_look_def)
qed

section \<open>A file with data\<close>

lemma demo_chunk: "chunk_split (e_sha demo_env) (e_cdc demo_env) [1, 2, 3] = [chunk_new (\<lambda>d. d) [1, 2, 3]]"
  by (simp add: chunk_split_def fixed_cdc_def fixed_spans.simps FASTCDC_MAX_CHUNK_SIZE_def subslice_def)

lemma demo_pin:
  assumes "fs_storage fs = storage_new 1000"
  shows "pin_addressable (fs_storage fs) (chunk_split (e_sha demo_env) (e_cdc demo_env) [1, 2, 3])"
    and "pinned_total (fs_storage fs) + required_bytes (fs_storage fs)
      (chunk_split (e_sha demo_env) (e_cdc demo_env) [1, 2, 3]) \<le> unat (st_max_pinned_bytes (fs_storage fs))"
  unfolding demo_chunk assms
  by (simp_all add: pin_addressable_def pinned_total_def storage_new_def required_bytes_def pin_cost_def)

lemma demo_data:
  obtains fs where "fs_inv demo_env ref_valid fs" and "fs_can_stamp (Some 7) fs"
    and "fs_metadata demo_env fs (NodeId 2) =
      Ok (RegularFile ''a'' 3 [\<lparr>ref_hash = ChunkHash [1, 2, 3], ref_size = 3\<rparr>])"
    and "fs_look fs (ChunkHash [1, 2, 3]) = Some [1, 2, 3]"
    and "\<And>k. fs_find demo_env fs k = (if k = NodeId 2
      then Some (ROOT, RegularFile ''a'' 3 [\<lparr>ref_hash = ChunkHash [1, 2, 3], ref_size = 3\<rparr>]) else None)"
    and "fs_pinned_hashes fs = [ChunkHash [1, 2, 3]]" and "fs_is_pinned fs (ChunkHash [1, 2, 3])"
proof -
  let ?cs = "chunk_split (e_sha demo_env) (e_cdc demo_env) [1, 2, 3]"
  obtain fs where clk: "nt_clock (fs_tree fs) = \<lparr>physical = 5, logical = 0\<rparr>"
    and fs: "fs_inv demo_env ref_valid fs" "fs_can_stamp (Some 6) fs" and st: "fs_storage fs = storage_new 1000"
    and look: "\<And>k. fs_find demo_env fs k = (if k = NodeId 2 then Some (ROOT, RegularFile ''a'' 0 []) else None)"
    by (rule demo_file) (rule that)
  obtain r fs' where w: "fs_write_file demo_env (Some 6) (NodeId 2) [1, 2, 3] fs = (r, fs')" by force
  have rep: "replica (e_replica demo_env) ref_valid" using ref.replica_axioms by simp
  have not_root: "NodeId 2 \<noteq> ROOT" by (simp add: ROOT_def from_uuid_def)
  then have m: "fs_metadata demo_env fs (NodeId 2) = Ok (RegularFile ''a'' 0 [])" by (simp add: fs_metadata_Ok look)
  let ?rs = "[\<lparr>ref_hash = ChunkHash [1, 2, 3], ref_size = 3\<rparr> :: chunk_ref]"
  have rs: "map chunk_reference ?cs = ?rs" "vec_len [1, 2, 3 :: byte] = 3"
    unfolding demo_chunk by (simp_all add: chunk_reference_def hash_of_def vec_len_def)
  from write_file_effect [OF rep fs m demo_pin(1) [OF st] w] demo_pin(2) [OF st] look obtain st' x where
    ok: "storage_try_pin ?cs (fs_storage fs) = (Ok (), st')" "fs_storage fs' = st'" "fs_inv demo_env ref_valid fs'"
    and r: "r = Ok (tree_mutation_new () [x])"
    and at: "\<And>k. fs_find demo_env fs' k = (if k = NodeId 2 then Some (ROOT, RegularFile ''a'' 3 ?rs) else None)"
    unfolding rs by auto
  note inv = fs_inv_parts [OF fs(1)]
  have "chunk_look (st_chunks st') (ch_hash (chunk_new (\<lambda>d. d) [1, 2, 3])) = Some (ch_data (chunk_new (\<lambda>d. d) [1, 2, 3]))"
    by (rule try_pin_look(1) [OF inv(2,3) demo_pin(1) [OF st] _ _ ok(1)])
      (simp_all only: demo_chunk, simp_all add: chunk_ok_def collision_free_def)
  then have data: "fs_look fs' (ChunkHash [1, 2, 3]) = Some [1, 2, 3]"
    by (simp add: fs_look_def ok(2) hash_of_def)
  have "fs_metadata demo_env fs' (NodeId 2) = Ok (RegularFile ''a'' 3 ?rs)"
    using not_root at by (simp add: fs_metadata_Ok)
  moreover have "fs_can_stamp (Some 7) fs'"
    using write_clock [OF w [unfolded r]] clk by (simp add: fs_can_stamp_def can_stamp_def hlc_eval)
  moreover have "fs_pinned_hashes fs' = [ChunkHash [1, 2, 3]]" "fs_is_pinned fs' (ChunkHash [1, 2, 3])"
    using ok(1,2) unfolding demo_chunk st
    by (auto simp: fs_pinned_hashes_def storage_pinned_hashes_def fs_is_pinned_def storage_is_pinned_def
        storage_eval hash_of_def)
  ultimately show thesis using that ok(3) data at by blast
qed

section \<open>Properties\<close>

text \<open>C12: A read of a file returns exactly the bytes of its content between the offset and the end of
  the range (cut at the file's size, with the saturating addition of the code), a chunk that is
  not stored counting as zeros, also across chunk boundaries; it panics exactly when the range, or the filler for
  a missing chunk in it, is larger than any \<open>Vec\<close>. Reading a directory, a symlink or an
  unknown or trashed node is refused. A read changes no node and no stored chunk.\<close>

theorem read_file_is_slice:
  assumes "fs_inv E valid fs" and "fs_read_file E n off len fs = (r, fs')"
  shows "(case fs_metadata E fs n of
      Inl _ \<Rightarrow> r = Err NotFound
    | Inr (RegularFile _ sz rs) \<Rightarrow> refs_sound (fs_look fs) rs \<and> refs_total rs < 2 ^ 64 \<longrightarrow>
        r = (if read_panics (fs_look fs) (unat off) (min (unat off + unat len) (unat sz)) rs then Err CapacityOverflow
             else Ok (subslice (file_bytes (fs_look fs) rs) (unat off) (min (unat off + unat len) (unat sz))))
    | Inr _ \<Rightarrow> r = Err IsADirectory) \<and>
    fs_tree fs' = fs_tree fs \<and> st_chunks (fs_storage fs') = st_chunks (fs_storage fs) \<and> fs_inv E valid fs'"
proof -
  have "case fs_metadata E fs n of
      Inl _ \<Rightarrow> r = Err NotFound
    | Inr (RegularFile _ sz rs) \<Rightarrow> refs_sound (fs_look fs) rs \<and> refs_total rs < 2 ^ 64 \<longrightarrow>
        r = (if read_panics (fs_look fs) (unat off) (min (unat off + unat len) (unat sz)) rs then Err CapacityOverflow
             else Ok (subslice (file_bytes (fs_look fs) rs) (unat off) (min (unat off + unat len) (unat sz))))
    | Inr _ \<Rightarrow> r = Err IsADirectory"
  proof (cases "fs_metadata E fs n")
    case (Inl e)
    with fs_metadata_Err [OF Inl] assms(2) show ?thesis by (simp add: fs_read_file_def)
  next
    case (Inr m)
    show ?thesis
    proof (cases m)
      case (RegularFile name sz rs)
      with Inr read_file_outcome [OF assms(1), of n name sz rs off len] assms(2) show ?thesis by simp
    qed (use Inr assms(2) in \<open>simp_all add: fs_read_file_def\<close>)
  qed
  with read_file_keeps [OF assms] show ?thesis by blast
qed

theorem read_file_is_slice_witness:
  "\<exists>fs. fst (fs_read_file demo_env (NodeId 2) 1 5 fs) = Ok [2, 3]"
proof -
  let ?rs = "[\<lparr>ref_hash = ChunkHash [1, 2, 3], ref_size = 3\<rparr> :: chunk_ref]"
  obtain fs where fs: "fs_inv demo_env ref_valid fs" and m: "fs_metadata demo_env fs (NodeId 2) = Ok (RegularFile ''a'' 3 ?rs)"
    and d: "fs_look fs (ChunkHash [1, 2, 3]) = Some [1, 2, 3]"
    by (rule demo_data) (rule that)
  obtain r fs' where c: "fs_read_file demo_env (NodeId 2) 1 5 fs = (r, fs')" by force
  have "refs_sound (fs_look fs) ?rs" "\<not> read_panics (fs_look fs) 1 3 ?rs"
    by (simp_all add: refs_sound_def read_panics_def d)
  with read_file_is_slice [OF fs c] m c d show ?thesis
    by (intro exI [of _ fs]) (simp add: ref_bytes_def subslice_def)
qed

text \<open>C22: The chunks a read has to fetch first: \<open>missing_chunk_hashes_for\<close> lists, in file order, the
  hashes of exactly those references that overlap the range and are not stored. When it lists
  none, the read that follows is free of filler: it returns the slice of the true content, for
  any assignment of data to hashes that agrees with the stored chunks (or panics when the slice has
  \<open>2 ^ 63\<close> bytes or more).\<close>

theorem missing_chunks_exact:
  assumes "fs_inv E valid fs" and "fs_metadata E fs n = Ok (RegularFile name sz rs)"
    and "refs_total rs < 2 ^ 64" and "fs_missing_chunk_hashes_for E fs n off len = Ok hs"
  defines "stop \<equiv> min (unat off + unat len) (unat sz)"
  shows "hs = map (ref_hash \<circ> snd) (filter (\<lambda>x. span_hits (unat off) stop x \<and>
        \<not> storage_contains (fs_storage fs) (ref_hash (snd x))) (ref_spans 0 rs)) \<and>
    (hs = [] \<longrightarrow> (\<forall>true_data. refs_sound true_data rs \<and> (\<forall>h d. fs_look fs h = Some d \<longrightarrow> true_data h = Some d) \<longrightarrow>
       fst (fs_read_file E n off len fs) = (if 2 ^ 63 \<le> stop - unat off then Err CapacityOverflow
         else Ok (subslice (file_bytes true_data rs) (unat off) stop))))"
proof -
  have hs: "hs = map (ref_hash \<circ> snd) (filter (\<lambda>x. span_hits (unat off) stop x \<and>
      \<not> storage_contains (fs_storage fs) (ref_hash (snd x))) (ref_spans 0 rs))"
    using missing_hashes_eq [OF assms(2,3), of off len] assms(4) by (simp add: stop_def)
  moreover have "fst (fs_read_file E n off len fs) = (if 2 ^ 63 \<le> stop - unat off then Err CapacityOverflow
      else Ok (subslice (file_bytes true_data rs) (unat off) stop))"
    if none: "hs = []" and sound: "refs_sound true_data rs"
      and agree: "\<forall>h d. fs_look fs h = Some d \<longrightarrow> true_data h = Some d" for true_data
  proof -
    have sound': "refs_sound (fs_look fs) rs" using sound agree by (auto simp: refs_sound_def)
    have held: "fs_look fs (ref_hash (snd x)) \<noteq> None" if "x \<in> set (ref_spans 0 rs)" "span_hits (unat off) stop x" for x
    proof -
      from that none hs have "storage_contains (fs_storage fs) (ref_hash (snd x))" by (auto simp: filter_empty_conv)
      then show ?thesis by (auto simp: fs_look_def chunk_look_def storage_contains_def hcontains_def)
    qed
    then have same: "\<forall>x \<in> set (ref_spans 0 rs). span_hits (0 + unat off) (0 + stop) x \<longrightarrow>
        fs_look fs (ref_hash (snd x)) = true_data (ref_hash (snd x))"
      using agree by (auto simp: not_None_eq) metis
    have "read_panics (fs_look fs) (unat off) stop rs \<longleftrightarrow> 2 ^ 63 \<le> stop - unat off"
      using held complete_read_returns [of stop "unat off" rs "fs_look fs"]
      by (cases "stop - unat off < 2 ^ 63") (auto simp: read_panics_def)
    with subslice_file_bytes_cong [OF sound' sound same] show ?thesis
      using read_file_outcome [OF assms(1,2) sound' assms(3), of off len] by (simp add: stop_def)
  qed
  ultimately show ?thesis by blast
qed

theorem missing_chunks_exact_witness:
  "\<exists>fs. fs_missing_chunk_hashes_for demo_env fs (NodeId 2) 0 5 = Ok [] \<and>
    fst (fs_read_file demo_env (NodeId 2) 0 5 fs) = Ok [1, 2, 3]"
proof -
  let ?rs = "[\<lparr>ref_hash = ChunkHash [1, 2, 3], ref_size = 3\<rparr> :: chunk_ref]"
  obtain fs where fs: "fs_inv demo_env ref_valid fs" and m: "fs_metadata demo_env fs (NodeId 2) = Ok (RegularFile ''a'' 3 ?rs)"
    and d: "fs_look fs (ChunkHash [1, 2, 3]) = Some [1, 2, 3]"
    by (rule demo_data) (rule that)
  obtain hs where hs: "fs_missing_chunk_hashes_for demo_env fs (NodeId 2) 0 5 = Ok hs"
    using m by (simp add: fs_missing_chunk_hashes_for_def)
  have have_it: "storage_contains (fs_storage fs) (ChunkHash [1, 2, 3])"
    using d by (auto simp: fs_look_def chunk_look_def storage_contains_def hcontains_def)
  have "refs_total ?rs < 2 ^ 64" by simp
  note ex = missing_chunks_exact [OF fs m this hs]
  then have "hs = []" using have_it by simp
  moreover have "refs_sound (fs_look fs) ?rs" by (simp add: refs_sound_def d)
  ultimately have "fst (fs_read_file demo_env (NodeId 2) 0 5 fs) = Ok (subslice (file_bytes (fs_look fs) ?rs) 0 3)"
    using ex by simp
  then show ?thesis using hs \<open>hs = []\<close> d by (intro exI [of _ fs]) (simp add: ref_bytes_def subslice_def)
qed

text \<open>C4: What is written is what is read. Writing a regular file either fails with \<open>StorageFull\<close>
  and leaves everything as it was, which happens exactly when the bytes not yet pinned exceed the
  free space, or succeeds: then every range read back is that range of the data written, the
  whole file is the data, all its chunks are pinned, one operation is broadcast, no other node
  changes, and every chunk that was stored before is still there with the same bytes.\<close>

theorem write_then_read:
  assumes "replica (e_replica E) valid" and "fs_inv E valid fs" and "fs_can_stamp now fs"
    and "cdc_ok (e_cdc E)" and "vec_ok data" and "fs_metadata E fs n = Ok (RegularFile name sz rs)"
    and "pin_addressable (fs_storage fs) (chunk_split (e_sha E) (e_cdc E) data)"
    and "collision_free (e_sha E) (fs_storage fs) (chunk_split (e_sha E) (e_cdc E) data)"
    and "fs_write_file E now n data fs = (r, fs')"
  shows "(if unat (st_max_pinned_bytes (fs_storage fs)) < pinned_total (fs_storage fs) +
          required_bytes (fs_storage fs) (chunk_split (e_sha E) (e_cdc E) data)
      then r = Err StorageFull \<and> fs' = fs
      else (\<exists>x. r = Ok (tree_mutation_new () [x]) \<and> op_child x = n) \<and>
        fst (fs_read_file_all E n fs') = Ok data \<and>
        (\<forall>off len. fst (fs_read_file E n off len fs') =
           Ok (subslice data (unat off) (min (unat off + unat len) (length data)))) \<and>
        (\<forall>c \<in> set (chunk_split (e_sha E) (e_cdc E) data). fs_is_pinned fs' (ch_hash c)) \<and>
        (\<forall>k. k \<noteq> n \<longrightarrow> fs_find E fs' k = fs_find E fs k) \<and>
        (\<forall>h d. fs_look fs h = Some d \<longrightarrow> fs_look fs' h = Some d)) \<and> fs_inv E valid fs'"
proof -
  let ?cs = "chunk_split (e_sha E) (e_cdc E) data" and ?st = "fs_storage fs"
  let ?rs = "map chunk_reference ?cs"
  note inv = fs_inv_parts [OF assms(2)]
  from write_file_effect [OF assms(1-3,6,7,9)] consider
      (full) "r = Err StorageFull" "fs' = fs" "unat (st_max_pinned_bytes ?st) < pinned_total ?st + required_bytes ?st ?cs"
    | (written) x p st' where "r = Ok (tree_mutation_new () [x])" "op_child x = n" "p \<noteq> TRASH"
        "storage_try_pin ?cs ?st = (Ok (), st')" "fs_storage fs' = st'" "fs_inv E valid fs'"
        "\<forall>k. fs_find E fs' k = (if k = n then Some (p, RegularFile name (vec_len data) ?rs) else fs_find E fs k)"
    by blast
  then show ?thesis
  proof cases
    case full
    with assms(2) show ?thesis by simp
  next
    case written
    have room: "\<not> unat (st_max_pinned_bytes ?st) < pinned_total ?st + required_bytes ?st ?cs"
      using written(4) try_pin_cases [OF inv(2) assms(7)] by (auto split: if_splits)
    have "n \<noteq> ROOT" using assms(6) by (auto simp: fs_metadata_Ok)
    with written(3,7) have m: "fs_metadata E fs' n = Ok (RegularFile name (vec_len data) ?rs)"
      by (simp add: fs_metadata_Ok)
    note reads = written_file_reads [OF assms(4,5,2,7,8) written(4) [folded written(5)] written(6) m]
    have "\<exists>x. r = Ok (tree_mutation_new () [x]) \<and> op_child x = n" using written(1,2) by blast
    then show ?thesis using room written(6,7) reads by simp
  qed
qed

theorem write_then_read_witness:
  "\<exists>fs r fs'. fs_write_file demo_env (Some 6) (NodeId 2) [1, 2, 3] fs = (r, fs') \<and> is_ok r \<and>
    fst (fs_read_file_all demo_env (NodeId 2) fs') = Ok [1, 2, 3]"
proof -
  let ?cs = "chunk_split (e_sha demo_env) (e_cdc demo_env) [1, 2, 3]"
  obtain fs where fs: "fs_inv demo_env ref_valid fs" "fs_can_stamp (Some 6) fs" and st: "fs_storage fs = storage_new 1000"
    and look: "\<And>k. fs_find demo_env fs k = (if k = NodeId 2 then Some (ROOT, RegularFile ''a'' 0 []) else None)"
    by (rule demo_file) (rule that)
  obtain r fs' where w: "fs_write_file demo_env (Some 6) (NodeId 2) [1, 2, 3] fs = (r, fs')" by force
  have rep: "replica (e_replica demo_env) ref_valid" using ref.replica_axioms by simp
  have "NodeId 2 \<noteq> ROOT" by (simp add: ROOT_def from_uuid_def)
  then have m: "fs_metadata demo_env fs (NodeId 2) = Ok (RegularFile ''a'' 0 [])" by (simp add: fs_metadata_Ok look)
  have cdc: "cdc_ok (e_cdc demo_env)" and vec: "vec_ok [1, 2, 3 :: byte]" and cf: "collision_free (e_sha demo_env) (fs_storage fs) ?cs"
    by (simp_all add: cdc_ok_fixed vec_ok_def collision_free_def)
  from write_then_read [OF rep fs cdc vec m demo_pin(1) [OF st] cf w] demo_pin(2) [OF st] w show ?thesis
    by (intro exI [of _ fs] exI [of _ r] exI [of _ fs']) auto
qed

text \<open>C23: Truncating a file to \<open>size\<close> bytes keeps the first \<open>size\<close> bytes of its content and nothing
  more, so bytes cut off do not come back when it is extended again; the recorded size is the one
  requested. Extending a file records the new size, but adds no chunk: a read still ends where the
  old content ended. A file whose size is \<open>2 ^ 63\<close> or more can be made, but not read as a whole: that
  panics, for no \<open>Vec\<close> is that large. (Memory is taken to be unlimited up to there; the program aborts
  when the allocator has less than the recorded size.) Name, parent, every other node and the chunk store
  are left as they were.\<close>

theorem truncate_then_read:
  assumes "replica (e_replica E) valid" and "fs_inv E valid fs" and "fs_can_stamp now fs"
    and "fs_metadata E fs n = Ok (RegularFile name sz rs)"
    and "refs_sound (fs_look fs) rs" and "refs_total rs < 2 ^ 64"
    and "fs_truncate_file E now n new fs = (r, fs')"
  shows "is_ok r \<and> fs_inv E valid fs' \<and> fs_storage fs' = fs_storage fs \<and>
    (\<exists>rs'. fs_metadata E fs' n = Ok (RegularFile name new rs') \<and> refs_total rs' = min (unat new) (refs_total rs)) \<and>
    fst (fs_read_file_all E n fs') = (if 2 ^ 63 \<le> unat new then Err CapacityOverflow
      else Ok (take (unat new) (file_bytes (fs_look fs) rs))) \<and>
    fs_parent_id E fs' n = fs_parent_id E fs n \<and>
    (\<forall>k. k \<noteq> n \<longrightarrow> fs_find E fs' k = fs_find E fs k)"
proof -
  let ?m = "RegularFile name new (chunk_truncate rs new)"
  from assms(4) obtain p where p: "n \<noteq> ROOT" "p \<noteq> TRASH" "fs_find E fs n = Some (p, RegularFile name sz rs)"
    by (auto simp: fs_metadata_Ok split: if_splits)
  have "fs_replace_meta E now n ?m fs = (r, fs')" using assms(4,7) by (simp add: fs_truncate_file_def)
  with fs_replace_meta_effect [OF assms(1-3) p(3), of ?m] obtain x where
    r: "r = Ok (tree_mutation_new () [x])" and inv': "fs_inv E valid fs'" and st: "fs_storage fs' = fs_storage fs"
    and find: "\<And>k. fs_find E fs' k = (if k = n then Some (p, ?m) else fs_find E fs k)"
    by (metis prod.inject)
  have m: "fs_metadata E fs' n = Ok ?m" using p find by (simp add: fs_metadata_Ok)
  have look: "fs_look fs' = fs_look fs" by (simp add: fs_look_def st)
  note cut = chunk_truncate_bytes [OF assms(5), of new]
  have total: "refs_total (chunk_truncate rs new) < 2 ^ 64" using assms(6) by (simp add: chunk_truncate_total)
  have small: "unat (ref_size x) \<le> unat new" if "x \<in> set (chunk_truncate rs new)" for x
    using member_le_refs_total [OF that] by (simp add: chunk_truncate_total)
  have "read_panics (fs_look fs) 0 (unat new) (chunk_truncate rs new) \<longleftrightarrow> 2 ^ 63 \<le> unat new"
    using small_read_returns [of "unat new" 0 "chunk_truncate rs new" "fs_look fs"] small
    by (cases "unat new < 2 ^ 63") (fastforce simp: read_panics_def)+
  with read_file_all_outcome [OF inv' m _ total] cut have
    "fst (fs_read_file_all E n fs') = (if 2 ^ 63 \<le> unat new then Err CapacityOverflow
      else Ok (take (unat new) (file_bytes (fs_look fs) rs)))" by (simp add: look)
  moreover have "fs_parent_id E fs' n = fs_parent_id E fs n"
    using p(3) find by (simp add: fs_parent_id_def nt_parent_find fs_find_def)
  ultimately show ?thesis using r inv' st m find by (auto simp: chunk_truncate_total)
qed

theorem truncate_then_read_witness:
  "\<exists>fs fs' r. fs_truncate_file demo_env (Some 7) (NodeId 2) 2 fs = (r, fs') \<and>
    fst (fs_read_file_all demo_env (NodeId 2) fs') = Ok [1, 2]"
proof -
  let ?rs = "[\<lparr>ref_hash = ChunkHash [1, 2, 3], ref_size = 3\<rparr> :: chunk_ref]"
  obtain fs where fs: "fs_inv demo_env ref_valid fs" "fs_can_stamp (Some 7) fs"
    and m: "fs_metadata demo_env fs (NodeId 2) = Ok (RegularFile ''a'' 3 ?rs)"
    and d: "fs_look fs (ChunkHash [1, 2, 3]) = Some [1, 2, 3]"
    by (rule demo_data) (rule that)
  obtain r fs' where c: "fs_truncate_file demo_env (Some 7) (NodeId 2) 2 fs = (r, fs')" by force
  have rep: "replica (e_replica demo_env) ref_valid" using ref.replica_axioms by simp
  have "refs_sound (fs_look fs) ?rs" "refs_total ?rs < 2 ^ 64" by (simp_all add: refs_sound_def d)
  from truncate_then_read [OF rep fs m this c] d c show ?thesis by (auto simp: ref_bytes_def)
qed

end
