(* ===== verification/FsReach.thy ===== *)
theory FsReach
  imports FileContent
begin

text \<open>
  The file system over time and the chunks it still needs: the invariant of every reachable state,
  under any interleaving of local operations, chunk traffic and remote batches, and the result of
  the graph search of \<open>reachable_chunk_hashes\<close>.
\<close>

section \<open>The graph search\<close>

text \<open>The inner loop in closed form.\<close>

definition ref_hashes_of :: "(node_id \<Rightarrow> node_meta option) \<Rightarrow> node_id set \<Rightarrow> chunk_hash set" where
  "ref_hashes_of metadata S =
     {h. \<exists>c \<in> S. \<exists>name sz rs. metadata c = Some (RegularFile name sz rs) \<and> h \<in> ref_hash ` set rs}"

definition dirs_of :: "(node_id \<Rightarrow> node_meta option) \<Rightarrow> node_id set \<Rightarrow> node_id set" where
  "dirs_of metadata S = {c \<in> S. \<exists>name. metadata c = Some (Directory name)}"

lemma ref_hashes_simps [simp]:
  "ref_hashes_of md {} = {}" "ref_hashes_of md (A \<union> B) = ref_hashes_of md A \<union> ref_hashes_of md B"
  "dirs_of md {} = {}" "dirs_of md (A \<union> B) = dirs_of md A \<union> dirs_of md B"
  unfolding ref_hashes_of_def dirs_of_def by blast+

lemma visit_child_eq:
  assumes "visit_child md c (v, r, q) = (v', r', q')"
  shows "v' = v \<union> ({c} - {TRASH})"
    and "r' = r \<union> ref_hashes_of md ({c} - {TRASH} - v)"
    and "set q' = set q \<union> dirs_of md ({c} - {TRASH} - v)"
proof -
  have "v' = v \<union> ({c} - {TRASH}) \<and> r' = r \<union> ref_hashes_of md ({c} - {TRASH} - v) \<and>
    set q' = set q \<union> dirs_of md ({c} - {TRASH} - v)"
  proof (cases "c = TRASH \<or> c \<in> v")
    case True
    then have old: "{c} - {TRASH} - v = {}" by auto
    from True assms show ?thesis unfolding old by (auto simp: visit_child_def)
  next
    case False
    then have new: "{c} - {TRASH} - v = {c}" by auto
    from False assms show ?thesis
      unfolding new by (auto simp: visit_child_def ref_hashes_of_def dirs_of_def
          split: option.splits node_meta.splits)
  qed
  then show "v' = v \<union> ({c} - {TRASH})" "r' = r \<union> ref_hashes_of md ({c} - {TRASH} - v)"
    "set q' = set q \<union> dirs_of md ({c} - {TRASH} - v)" by blast+
qed

lemma visit_fold_eq:
  assumes "fold (visit_child md) cs (v, r, q) = (v', r', q')"
  shows "v' = v \<union> (set cs - {TRASH}) \<and>
    r' = r \<union> ref_hashes_of md (set cs - {TRASH} - v) \<and>
    set q' = set q \<union> dirs_of md (set cs - {TRASH} - v)"
  using assms
proof (induction cs arbitrary: v r q)
  case (Cons c cs)
  obtain v1 r1 q1 where one: "visit_child md c (v, r, q) = (v1, r1, q1)" by (metis prod_cases3)
  note s = visit_child_eq [OF one]
  have split: "set (c # cs) - {TRASH} - v = ({c} - {TRASH} - v) \<union> (set cs - {TRASH} - v1)"
    unfolding s(1) by auto
  from Cons.IH [of v1 r1 q1] Cons.prems one have
    "v' = v1 \<union> (set cs - {TRASH}) \<and> r' = r1 \<union> ref_hashes_of md (set cs - {TRASH} - v1) \<and>
      set q' = set q1 \<union> dirs_of md (set cs - {TRASH} - v1)" by simp
  with s show ?case unfolding split by auto
qed simp

text \<open>A directory is linked when a chain of directories leads from the root to it.\<close>

inductive linked ::
  "(node_id \<Rightarrow> (node_id list, node_tree_error) result) \<Rightarrow> (node_id \<Rightarrow> node_meta option) \<Rightarrow> node_id \<Rightarrow> bool"
  for children md
where
  root: "linked children md ROOT"
| step: "linked children md d \<Longrightarrow> children d = Ok cs \<Longrightarrow> c \<in> set cs \<Longrightarrow> c \<noteq> TRASH \<Longrightarrow>
    md c = Some (Directory name) \<Longrightarrow> linked children md c"

definition linked_children ::
  "(node_id \<Rightarrow> (node_id list, node_tree_error) result) \<Rightarrow> (node_id \<Rightarrow> node_meta option) \<Rightarrow> node_id set"
where
  "linked_children children md =
     {c. \<exists>d cs. linked children md d \<and> children d = Ok cs \<and> c \<in> set cs \<and> c \<noteq> TRASH}"

definition loop_inv ::
  "(node_id \<Rightarrow> (node_id list, node_tree_error) result) \<Rightarrow> (node_id \<Rightarrow> node_meta option) \<Rightarrow>
    node_id set \<Rightarrow> chunk_hash set \<Rightarrow> node_id list \<Rightarrow> bool"
where
  "loop_inv children md v r q \<longleftrightarrow>
     ROOT \<in> v \<and> v \<subseteq> insert ROOT (linked_children children md) \<and>
     set q \<subseteq> insert ROOT (dirs_of md v) \<and> r = ref_hashes_of md (v - {ROOT}) \<and>
     (\<forall>d \<in> insert ROOT (dirs_of md v) - set q. \<forall>cs. children d = Ok cs \<longrightarrow> set cs - {TRASH} \<subseteq> v)"

lemma loop_inv_linked:
  assumes "loop_inv children md v r q" and "d \<in> insert ROOT (dirs_of md v)"
  shows "linked children md d"
  using assms by (auto simp: loop_inv_def linked_children_def dirs_of_def intro: linked.intros)

lemma loop_inv_closed:
  assumes "loop_inv children md v r q" and "d \<in> insert ROOT (dirs_of md v)" and "d \<notin> set q"
    and "children d = Ok cs"
  shows "set cs - {TRASH} \<subseteq> v"
proof -
  have "\<forall>d \<in> insert ROOT (dirs_of md v) - set q. \<forall>cs. children d = Ok cs \<longrightarrow> set cs - {TRASH} \<subseteq> v"
    using assms(1) unfolding loop_inv_def by (elim conjE)
  with assms(2-4) show ?thesis by blast
qed

lemma loop_inv_end:
  assumes "loop_inv children md v r []"
  shows "r = ref_hashes_of md (linked_children children md - {ROOT})"
proof -
  have closed: "set cs - {TRASH} \<subseteq> v" if "d \<in> insert ROOT (dirs_of md v)" "children d = Ok cs" for d cs
    using loop_inv_closed [OF assms that(1) _ that(2)] by simp
  have dirs: "d \<in> insert ROOT (dirs_of md v)" if "linked children md d" for d
    using that
  proof induction
    case (step d cs c name)
    from closed [OF step.IH step.hyps(2)] step.hyps show ?case by (auto simp: dirs_of_def)
  qed simp
  have "linked_children children md \<subseteq> v"
    using closed dirs unfolding linked_children_def by blast
  with assms have "v - {ROOT} = linked_children children md - {ROOT}" by (auto simp: loop_inv_def)
  with assms show ?thesis by (simp add: loop_inv_def)
qed

lemma loop_inv_step:
  assumes "loop_inv children md v r (n # q)" and "children n = Ok cs"
    and "fold (visit_child md) cs (v, r, q) = (v', r', q')"
  shows "loop_inv children md v' r' q'"
proof -
  note eff = visit_fold_eq [OF assms(3)]
  have n: "linked children md n" using loop_inv_linked [OF assms(1)] assms(1) by (simp add: loop_inv_def)
  have root: "ROOT \<in> v" and r: "r = ref_hashes_of md (v - {ROOT})" and q: "set q \<subseteq> insert ROOT (dirs_of md v)"
    and v: "v \<subseteq> insert ROOT (linked_children children md)" using assms(1) by (auto simp: loop_inv_def)
  have new: "set cs - {TRASH} \<subseteq> linked_children children md"
    using n assms(2) by (auto simp: linked_children_def)
  have "v' - {ROOT} = (v - {ROOT}) \<union> (set cs - {TRASH} - v)" using eff root by auto
  then have "r' = ref_hashes_of md (v' - {ROOT})" using eff r by simp
  moreover have dirs: "dirs_of md v' = dirs_of md v \<union> dirs_of md (set cs - {TRASH} - v)"
    using eff by (auto simp: dirs_of_def)
  moreover have "set ds - {TRASH} \<subseteq> v'"
    if d: "d \<in> insert ROOT (dirs_of md v') - set q'" "children d = Ok ds" for d ds
  proof (cases "d = n")
    case True
    with d assms(2) eff show ?thesis by auto
  next
    case False
    with d eff dirs have "d \<in> insert ROOT (dirs_of md v) - set (n # q)" by auto
    with loop_inv_closed [OF assms(1) _ _ d(2)] have "set ds - {TRASH} \<subseteq> v" by blast
    with eff show ?thesis by auto
  qed
  ultimately show ?thesis
    using eff root v q new unfolding loop_inv_def by auto
qed

lemma reach_loop_eq:
  "loop_inv children md v r q \<Longrightarrow>
    reach_loop children md v r q = ref_hashes_of md (linked_children children md - {ROOT})"
proof (induction children md v r q rule: reach_loop.induct)
  case (1 children md v r)
  then show ?case using loop_inv_end by simp
next
  case (2 children md v r n q)
  show ?case
  proof (cases "children n")
    case (Inl e)
    have "set cs - {TRASH} \<subseteq> v" if "d \<in> insert ROOT (dirs_of md v) - set q" "children d = Ok cs" for d cs
      using loop_inv_closed [OF "2.prems", of d cs] that Inl by (cases "d = n") auto
    with "2.prems" have "loop_inv children md v r q" by (simp add: loop_inv_def)
    with "2.IH"(1) [OF Inl] Inl show ?thesis by simp
  next
    case (Inr cs)
    obtain v' r' q' where f: "fold (visit_child md) cs (v, r, q) = (v', r', q')" by (metis prod_cases3)
    from "2.IH"(2) [OF Inr f [symmetric] refl] loop_inv_step [OF "2.prems" Inr f] Inr f show ?thesis by simp
  qed
qed

section \<open>Linked nodes of the file system\<close>

text \<open>The same notion over the tree a node shows: a chain of directories from the root.\<close>

inductive dir_linked :: "'t fs_env \<Rightarrow> 't file_system \<Rightarrow> node_id \<Rightarrow> bool" for E fs where
  root: "dir_linked E fs ROOT"
| step: "dir_linked E fs d \<Longrightarrow> fs_find E fs c = Some (d, Directory name) \<Longrightarrow> c \<noteq> TRASH \<Longrightarrow> dir_linked E fs c"

lemma linked_dir_linked:
  assumes "replica (e_replica E) valid" and "fs_inv E valid fs"
  shows "linked (nt_children (e_replica E) (fs_tree fs)) (nt_metadata (e_replica E) (fs_tree fs)) d
    \<longleftrightarrow> dir_linked E fs d"
proof -
  let ?ch = "nt_children (e_replica E) (fs_tree fs)" and ?md = "nt_metadata (e_replica E) (fs_tree fs)"
  have ch: "cs = r_children (e_replica E) (nt_tree (fs_tree fs)) d" if "?ch d = Ok cs" for d cs
    using that by (simp add: nt_children_find split: if_splits)
  have mem: "c \<in> set cs \<longleftrightarrow> (\<exists>m. fs_find E fs c = Some (d, m))" if "?ch d = Ok cs" for c d cs
    unfolding ch [OF that] fs_find_def by (rule replica.children_iff [OF assms(1) fs_inv_parts(1) [OF assms(2)]])
  have md: "?md c = map_option snd (fs_find E fs c)" for c by (simp add: nt_metadata_find fs_find_def)
  show ?thesis
  proof
    assume "linked ?ch ?md d"
    then show "dir_linked E fs d"
    proof induction
      case (step d cs c name)
      from mem [OF step.hyps(2)] step.hyps(3) step.hyps(5) have "fs_find E fs c = Some (d, Directory name)"
        by (auto simp: md)
      with step.IH step.hyps(4) show ?case by (auto intro: dir_linked.step)
    qed (rule dir_linked.root)
  next
    assume "dir_linked E fs d"
    then show "linked ?ch ?md d"
    proof induction
      case (step d c name)
      have "d = ROOT \<or> fs_find E fs d \<noteq> None" using step.hyps(1) by cases auto
      then obtain cs where cs: "?ch d = Ok cs" by (auto simp: nt_children_find fs_find_def)
      with mem [OF cs, of c] step.hyps(2) have "c \<in> set cs" by blast
      with step.hyps show ?case by (intro linked.step [OF step.IH cs]) (simp_all add: md)
    qed (rule linked.root)
  qed
qed

lemma dir_linked_not_trashed:
  assumes "fs_find E fs ROOT = None" and "(c, TRASH) \<in> (parent_rel (fs_find E fs))\<^sup>+"
  shows "\<not> dir_linked E fs c"
proof
  assume "dir_linked E fs c"
  then have "(c, TRASH) \<notin> (parent_rel (fs_find E fs))\<^sup>+"
  proof induction
    case root
    then show ?case using assms(1) by (auto simp: parent_rel_def dest: tranclD)
  next
    case (step d c name)
    have "d \<noteq> TRASH" using step.hyps(1) by cases auto
    with step show ?case by (auto simp: parent_rel_def dest!: tranclD simp: rtrancl_eq_or_trancl)
  qed
  with assms(2) show False by blast
qed

section \<open>Properties of the search\<close>

lemma reachable_hashes_eq:
  assumes "replica (e_replica E) valid" and "fs_inv E valid fs" and "fs_find E fs ROOT = None"
  shows "fs_reachable_chunk_hashes E fs =
    {h. \<exists>c d name sz rs. dir_linked E fs d \<and> fs_find E fs c = Some (d, RegularFile name sz rs) \<and> c \<noteq> TRASH \<and>
       h \<in> ref_hash ` set rs}"
proof -
  let ?ch = "nt_children (e_replica E) (fs_tree fs)" and ?md = "nt_metadata (e_replica E) (fs_tree fs)"
  have lc: "c \<in> linked_children ?ch ?md \<longleftrightarrow> c \<noteq> TRASH \<and> (\<exists>d m. dir_linked E fs d \<and> fs_find E fs c = Some (d, m))" for c
  proof
    assume "c \<in> linked_children ?ch ?md"
    then obtain d cs where c: "linked ?ch ?md d" "?ch d = Ok cs" "c \<in> set cs" "c \<noteq> TRASH"
      by (auto simp: linked_children_def)
    then have "fs_children E fs d = Ok cs" by (simp add: fs_children_def)
    with c fs_children_set(2) [OF assms(1,2)] linked_dir_linked [OF assms(1,2)]
    show "c \<noteq> TRASH \<and> (\<exists>d m. dir_linked E fs d \<and> fs_find E fs c = Some (d, m))" by blast
  next
    assume "c \<noteq> TRASH \<and> (\<exists>d m. dir_linked E fs d \<and> fs_find E fs c = Some (d, m))"
    then obtain d m where c: "c \<noteq> TRASH" "dir_linked E fs d" "fs_find E fs c = Some (d, m)" by blast
    have "d = ROOT \<or> fs_find E fs d \<noteq> None" using c(2) by cases auto
    then obtain cs where cs: "?ch d = Ok cs" by (auto simp: nt_children_find fs_find_def)
    then have "fs_children E fs d = Ok cs" by (simp add: fs_children_def)
    with c cs fs_children_set(2) [OF assms(1,2)] linked_dir_linked [OF assms(1,2)]
    show "c \<in> linked_children ?ch ?md" unfolding linked_children_def by blast
  qed
  have "loop_inv ?ch ?md {ROOT} {} [ROOT]"
    using assms(3) by (auto simp: loop_inv_def dirs_of_def nt_metadata_find fs_find_def)
  then have "fs_reachable_chunk_hashes E fs = ref_hashes_of ?md (linked_children ?ch ?md - {ROOT})"
    unfolding fs_reachable_chunk_hashes_def by (rule reach_loop_eq)
  also have "\<dots> = {h. \<exists>c d name sz rs. dir_linked E fs d \<and> fs_find E fs c = Some (d, RegularFile name sz rs) \<and>
      c \<noteq> TRASH \<and> h \<in> ref_hash ` set rs}"
  proof -
    have md: "?md c = Some m \<longleftrightarrow> (\<exists>d. fs_find E fs c = Some (d, m))" for c m
      by (auto simp: nt_metadata_find fs_find_def)
    have mem: "c \<in> linked_children ?ch ?md - {ROOT} \<and> ?md c = Some m \<longleftrightarrow>
        (\<exists>d. dir_linked E fs d \<and> fs_find E fs c = Some (d, m) \<and> c \<noteq> TRASH)" for c m
      unfolding Diff_iff lc md using assms(3) by (auto simp: singleton_iff)
    have eq: "ref_hashes_of ?md S = {h. \<exists>c name sz rs. (c \<in> S \<and> ?md c = Some (RegularFile name sz rs)) \<and>
        h \<in> ref_hash ` set rs}" for S
      unfolding ref_hashes_of_def by blast
    show ?thesis unfolding eq mem by (rule Collect_cong) metis
  qed
  finally show ?thesis .
qed

text \<open>The file of \<open>demo_data\<close> and what is in use there.\<close>

lemma demo_in_use:
  obtains fs where "fs_inv demo_env ref_valid fs" and "fs_pinned_hashes fs = [ChunkHash [1, 2, 3]]"
    and "fs_is_pinned fs (ChunkHash [1, 2, 3])" and "fs_reachable_chunk_hashes demo_env fs = {ChunkHash [1, 2, 3]}"
    and "fs_look fs (ChunkHash [1, 2, 3]) = Some [1, 2, 3]"
proof -
  let ?rs = "[\<lparr>ref_hash = ChunkHash [1, 2, 3], ref_size = 3\<rparr> :: chunk_ref]"
  obtain fs where fs: "fs_inv demo_env ref_valid fs" and "fs_can_stamp (Some 7) fs"
    and "fs_metadata demo_env fs (NodeId 2) = Ok (RegularFile ''a'' 3 ?rs)"
    and data: "fs_look fs (ChunkHash [1, 2, 3]) = Some [1, 2, 3]"
    and look: "\<And>k. fs_find demo_env fs k = (if k = NodeId 2 then Some (ROOT, RegularFile ''a'' 3 ?rs) else None)"
    and pin: "fs_pinned_hashes fs = [ChunkHash [1, 2, 3]]" "fs_is_pinned fs (ChunkHash [1, 2, 3])"
    by (rule demo_data) (rule that)
  have rep: "replica (e_replica demo_env) ref_valid" using ref.replica_axioms by simp
  have none: "fs_find demo_env fs ROOT = None" by (simp add: look ROOT_def from_uuid_def)
  have two: "NodeId 2 \<noteq> TRASH" by (simp add: TRASH_def from_uuid_def)
  have "{h. \<exists>c d name sz rs. dir_linked demo_env fs d \<and> fs_find demo_env fs c = Some (d, RegularFile name sz rs) \<and>
      c \<noteq> TRASH \<and> h \<in> ref_hash ` set rs} = {ChunkHash [1, 2, 3]}"
    using two by (auto simp: look intro: dir_linked.root split: if_splits)
  with reachable_hashes_eq [OF rep fs none] pin data that [OF fs] show thesis by simp
qed

text \<open>C18: The search ends and returns exactly the chunks of live files: the hashes referenced by the
  regular files that a chain of directories links to the root. Nothing in the trash, or below a
  node in the trash, is counted.\<close>

theorem reachable_hashes_exact:
  assumes "replica (e_replica E) valid" and "fs_inv E valid fs" and "fs_find E fs ROOT = None"
  shows "fs_reachable_chunk_hashes E fs =
      {h. \<exists>c d name sz rs. dir_linked E fs d \<and> fs_find E fs c = Some (d, RegularFile name sz rs) \<and> c \<noteq> TRASH \<and>
         h \<in> ref_hash ` set rs} \<and>
    (\<forall>c. (c, TRASH) \<in> (parent_rel (fs_find E fs))\<^sup>+ \<longrightarrow> \<not> dir_linked E fs c)"
  using reachable_hashes_eq [OF assms] dir_linked_not_trashed [OF assms(3)] by blast

theorem reachable_hashes_exact_witness:
  "\<exists>fs. fs_reachable_chunk_hashes demo_env fs = {ChunkHash [1, 2, 3]}"
proof -
  let ?rs = "[\<lparr>ref_hash = ChunkHash [1, 2, 3], ref_size = 3\<rparr> :: chunk_ref]"
  obtain fs where fs: "fs_inv demo_env ref_valid fs"
    and look: "\<And>k. fs_find demo_env fs k = (if k = NodeId 2 then Some (ROOT, RegularFile ''a'' 3 ?rs) else None)"
    by (rule demo_data) (rule that)
  have rep: "replica (e_replica demo_env) ref_valid" using ref.replica_axioms by simp
  have none: "fs_find demo_env fs ROOT = None" by (simp add: look ROOT_def from_uuid_def)
  have two: "NodeId 2 \<noteq> TRASH" by (simp add: TRASH_def from_uuid_def)
  have "{h. \<exists>c d name sz rs. dir_linked demo_env fs d \<and> fs_find demo_env fs c = Some (d, RegularFile name sz rs) \<and>
      c \<noteq> TRASH \<and> h \<in> ref_hash ` set rs} = {ChunkHash [1, 2, 3]}"
    using two by (auto simp: look intro: dir_linked.root split: if_splits)
  with reachable_hashes_exact [OF rep fs none] show ?thesis by auto
qed

section \<open>Reachable states\<close>

text \<open>The states a file system can reach from an empty one of the given capacity: the local
  operations, each with room for a stamp; chunk traffic that fits the address space; batches of
  remote operations.\<close>

inductive fs_reachable :: "'t fs_env \<Rightarrow> peer_id \<Rightarrow> usize \<Rightarrow> 't file_system \<Rightarrow> bool" for E peer capacity where
  start: "fs_reachable E peer capacity (fs_new (nt_new (e_replica E) peer) (storage_new capacity))"
| create: "fs_reachable E peer capacity fs \<Longrightarrow> fs_can_stamp now fs \<Longrightarrow>
    fs_create_node E now p name m fs = (r, fs') \<Longrightarrow> fs_reachable E peer capacity fs'"
| delete_file: "fs_reachable E peer capacity fs \<Longrightarrow> fs_can_stamp now fs \<Longrightarrow>
    fs_delete_file E now p name fs = (r, fs') \<Longrightarrow> fs_reachable E peer capacity fs'"
| delete_directory: "fs_reachable E peer capacity fs \<Longrightarrow> fs_can_stamp now fs \<Longrightarrow>
    fs_delete_directory E now p name fs = (r, fs') \<Longrightarrow> fs_reachable E peer capacity fs'"
| rename: "fs_reachable E peer capacity fs \<Longrightarrow> fs_can_stamp now fs \<Longrightarrow>
    fs_rename E now p name p' name' fs = (r, fs') \<Longrightarrow> fs_reachable E peer capacity fs'"
| write_file: "fs_reachable E peer capacity fs \<Longrightarrow> fs_can_stamp now fs \<Longrightarrow>
    pin_addressable (fs_storage fs) (chunk_split (e_sha E) (e_cdc E) data) \<Longrightarrow>
    fs_write_file E now n data fs = (r, fs') \<Longrightarrow> fs_reachable E peer capacity fs'"
| truncate_file: "fs_reachable E peer capacity fs \<Longrightarrow> fs_can_stamp now fs \<Longrightarrow>
    fs_truncate_file E now n sz fs = (r, fs') \<Longrightarrow> fs_reachable E peer capacity fs'"
| read_file: "fs_reachable E peer capacity fs \<Longrightarrow>
    fs_read_file E n off len fs = (d, fs') \<Longrightarrow> fs_reachable E peer capacity fs'"
| fetch: "fs_reachable E peer capacity fs \<Longrightarrow> fs_chunk h fs = (c, fs') \<Longrightarrow> fs_reachable E peer capacity fs'"
| pin: "fs_reachable E peer capacity fs \<Longrightarrow> pin_addressable (fs_storage fs) [chunk_new (e_sha E) data] \<Longrightarrow>
    fs_pin_chunk E data fs = (u, fs') \<Longrightarrow> fs_reachable E peer capacity fs'"
| cache: "fs_reachable E peer capacity fs \<Longrightarrow> vec_ok data \<Longrightarrow>
    fs_reachable E peer capacity (fs_cache_chunk E data fs)"
| promote: "fs_reachable E peer capacity fs \<Longrightarrow>
    pinned_total (fs_storage fs) + entry_len (fs_storage fs) h < 2 ^ 64 \<Longrightarrow>
    fs_promote_to_pinned h fs = (b, fs') \<Longrightarrow> fs_reachable E peer capacity fs'"
| evict: "fs_reachable E peer capacity fs \<Longrightarrow> fs_evict_chunk h fs = (b, fs') \<Longrightarrow>
    fs_reachable E peer capacity fs'"
| remote: "fs_reachable E peer capacity fs \<Longrightarrow> (\<And>i. time_ok (readings i)) \<Longrightarrow>
    fs_reachable E peer capacity (fs_apply_operations E readings ops fs)"

text \<open>A step of the chunk store keeps the file system's invariant.\<close>

lemma storage_op_fs_inv:
  assumes "fs_inv E valid fs" and "op_addressable (fs_storage fs) a" and "op_chunks_ok (e_sha E) a"
  shows "fs_inv E valid (fs\<lparr>fs_storage := snd (storage_step a (fs_storage fs))\<rparr>)"
  using storage_step_inv storage_step_content fs_inv_parts [OF assms(1)] assms(2,3)
  by (simp add: fs_inv_def)

lemma replace_meta_inv:
  assumes "replica (e_replica E) valid" and "fs_inv E valid fs" and "fs_can_stamp now fs"
    and "fs_replace_meta E now n m fs = (r, fs')"
  shows "fs_inv E valid fs'"
proof (cases "fs_find E fs n")
  case None
  with assms(2,4) show ?thesis by (simp add: fs_replace_meta_def nt_parent_find fs_find_def)
next
  case (Some pm)
  then obtain p m0 where "fs_find E fs n = Some (p, m0)" by (cases pm) auto
  from fs_replace_meta_effect [OF assms(1-3) this, of m] assms(4) show ?thesis by (metis prod.inject)
qed

lemma delete_inv:
  assumes "replica (e_replica E) valid" and "fs_inv E valid fs" and "fs_can_stamp now fs"
  shows "fs_delete_file E now p name fs = (r, fs') \<Longrightarrow> fs_inv E valid fs'"
    and "fs_delete_directory E now p name fs = (r, fs') \<Longrightarrow> fs_inv E valid fs'"
  using delete_node_effect(4) [OF assms] assms(2)
  by (auto simp: fs_delete_file_def fs_delete_directory_def split: sum.splits node_meta.splits if_splits)

lemma write_inv:
  assumes "replica (e_replica E) valid" and "fs_inv E valid fs" and "fs_can_stamp now fs"
    and "pin_addressable (fs_storage fs) (chunk_split (e_sha E) (e_cdc E) data)"
    and "fs_write_file E now n data fs = (r, fs')"
  shows "fs_inv E valid fs'"
proof (cases "\<exists>name sz rs. fs_metadata E fs n = Ok (RegularFile name sz rs)")
  case True
  then obtain name sz rs where m: "fs_metadata E fs n = Ok (RegularFile name sz rs)" by blast
  from write_file_effect [OF assms(1-3) m assms(4,5)] assms(2) show ?thesis by blast
next
  case False
  with assms(2,5) show ?thesis by (auto simp: fs_write_file_def split: sum.splits node_meta.splits)
qed

lemma truncate_inv:
  assumes "replica (e_replica E) valid" and "fs_inv E valid fs" and "fs_can_stamp now fs"
    and "fs_truncate_file E now n sz fs = (r, fs')"
  shows "fs_inv E valid fs'"
  using replace_meta_inv [OF assms(1-3)] assms(2,4)
  by (auto simp: fs_truncate_file_def split: sum.splits node_meta.splits)

lemma storage_steps:
  "fs_chunk h fs = (c, fs') \<Longrightarrow> fs' = fs\<lparr>fs_storage := snd (storage_step (GetChunk h) (fs_storage fs))\<rparr>"
  "fs_pin_chunk E data fs = (u, fs') \<Longrightarrow>
    fs' = fs\<lparr>fs_storage := snd (storage_step (TryPin [chunk_new (e_sha E) data]) (fs_storage fs))\<rparr>"
  "fs_cache_chunk E data fs = fs\<lparr>fs_storage := snd (storage_step (CacheChunk (chunk_new (e_sha E) data)) (fs_storage fs))\<rparr>"
  "fs_promote_to_pinned h fs = (b, fs') \<Longrightarrow> fs' = fs\<lparr>fs_storage := snd (storage_step (Promote h) (fs_storage fs))\<rparr>"
  "fs_evict_chunk h fs = (b, fs') \<Longrightarrow> fs' = fs\<lparr>fs_storage := snd (storage_step (Evict h) (fs_storage fs))\<rparr>"
  by (auto simp: fs_chunk_def fs_pin_chunk_def fs_cache_chunk_def fs_promote_to_pinned_def fs_evict_chunk_def
      split: prod.splits)

lemma fs_reachable_inv:
  assumes "replica (e_replica E) valid" and "fs_reachable E peer capacity fs"
  shows "fs_inv E valid fs"
  using assms(2)
proof induction
  case start
  show ?case
    using storage_inv_new replica.nt_new_inv [OF assms(1)]
    by (simp add: fs_inv_def fs_new_def content_addressed_def storage_new_def)
next
  case (create fs now p name m r fs')
  show ?case by (rule create_node_effect(4) [OF assms(1) create.IH create.hyps(2,3)])
next
  case (delete_file fs now p name r fs')
  show ?case by (rule delete_inv(1) [OF assms(1) delete_file.IH delete_file.hyps(2,3)])
next
  case (delete_directory fs now p name r fs')
  show ?case by (rule delete_inv(2) [OF assms(1) delete_directory.IH delete_directory.hyps(2,3)])
next
  case (rename fs now p name p' name' r fs')
  show ?case by (rule rename_effect(5) [OF assms(1) rename.IH rename.hyps(2,3)])
next
  case (write_file fs now data n r fs')
  show ?case by (rule write_inv [OF assms(1) write_file.IH write_file.hyps(2-4)])
next
  case (truncate_file fs now n sz r fs')
  show ?case by (rule truncate_inv [OF assms(1) truncate_file.IH truncate_file.hyps(2,3)])
next
  case (read_file fs n off len d fs')
  show ?case by (rule read_file_keeps(3) [OF read_file.IH read_file.hyps(2)])
next
  case (fetch fs h c fs')
  then show ?case using storage_op_fs_inv [OF fetch.IH, of "GetChunk h"] storage_steps(1) by auto
next
  case (pin fs data u fs')
  then show ?case
    using storage_op_fs_inv [OF pin.IH, of "TryPin [chunk_new (e_sha E) data]"] storage_steps(2) [OF pin.hyps(3)]
    by (auto simp: chunk_ok_def)
next
  case (cache fs data)
  then show ?case
    using storage_op_fs_inv [OF cache.IH, of "CacheChunk (chunk_new (e_sha E) data)"]
    by (simp add: storage_steps(3) chunk_ok_def)
next
  case (promote fs h b fs')
  then show ?case using storage_op_fs_inv [OF promote.IH, of "Promote h"] storage_steps(4) by auto
next
  case (evict fs h b fs')
  then show ?case using storage_op_fs_inv [OF evict.IH, of "Evict h"] storage_steps(5) by auto
next
  case (remote fs readings ops)
  have "tree_inv (e_replica E) valid (nt_apply_operations (e_replica E) readings ops (fs_tree fs))"
    by (rule replica.apply_operations_inv [OF assms(1) fs_inv_parts(1) [OF remote.IH] remote.hyps(2)])
  with remote.IH show ?case by (simp add: fs_apply_operations_def fs_inv_def)
qed

text \<open>C10: Whatever sequence of local operations, chunk traffic and remote batches led here: the tree
  has no cycle, every operation in the log has its own id, the bytes reported free and the bytes of
  the pinned chunks add up to the capacity, the cache holds at most its limit, and every stored
  chunk's name is the hash of its data.\<close>

theorem fs_reachable_invariant:
  assumes "replica (e_replica E) valid" and "fs_reachable E peer capacity fs"
  shows "acyclic (parent_rel (fs_find E fs)) \<and> distinct (fs_operation_ids E fs) \<and>
    unat (fs_free_bytes fs) + pinned_total (fs_storage fs) = unat (fs_capacity_bytes fs) \<and>
    cached_total (fs_storage fs) \<le> unat (st_max_cached_bytes (fs_storage fs)) \<and>
    (\<forall>h d. fs_look fs h = Some d \<longrightarrow> h = hash_of (e_sha E) d)"
proof -
  let ?st = "fs_storage fs"
  note inv = fs_inv_parts [OF fs_reachable_inv [OF assms]]
  have v: "valid (nt_tree (fs_tree fs))" using inv(1) by (simp add: tree_inv_def)
  from replica.log_distinct [OF assms(1) v] have "distinct (fs_operation_ids E fs)"
    by (simp add: fs_operation_ids_def nt_operation_ids_def distinct_map inj_on_def op_id_of_timestamp)
  moreover have lim: "pinned_total ?st \<le> unat (st_max_pinned_bytes ?st)"
    "cached_total ?st \<le> unat (st_max_cached_bytes ?st)"
    using inv(2) by (simp_all add: storage_inv_def storage_limits_def)
  moreover have "unat (fs_free_bytes fs) = unat (st_max_pinned_bytes ?st) - pinned_total ?st"
    using lim(1) inv_counters(1) [OF inv(2)]
    by (simp add: fs_free_bytes_def storage_free_bytes_def unat_sub word_le_nat_alt)
  moreover have "\<forall>h d. fs_look fs h = Some d \<longrightarrow> h = hash_of (e_sha E) d"
    using inv(3) by (auto simp: fs_look_def chunk_look_def content_addressed_def)
  ultimately show ?thesis
    using replica.find_acyclic_inv [OF assms(1) inv(1)]
    by (simp add: fs_find_def fs_capacity_bytes_def storage_capacity_bytes_def)
qed

theorem fs_reachable_invariant_witness:
  "distinct (fs_operation_ids demo_env (snd (fs_create_node demo_env (Some 5) ROOT ''d'' (Directory ''d'')
     (fs_new (nt_new ref_api (PeerId 7)) (storage_new 1000)))))"
proof -
  let ?fs = "fs_new (nt_new ref_api (PeerId 7)) (storage_new 1000)"
  obtain r fs' where c: "fs_create_node demo_env (Some 5) ROOT ''d'' (Directory ''d'') ?fs = (r, fs')" by force
  have rep: "replica (e_replica demo_env) ref_valid" using ref.replica_axioms by simp
  have "fs_reachable demo_env (PeerId 7) 1000 ?fs"
    using fs_reachable.start [of demo_env "PeerId 7" 1000] by simp
  from fs_reachable.create [OF this demo_start(3) c] have "fs_reachable demo_env (PeerId 7) 1000 fs'" .
  from fs_reachable_invariant [OF rep this] c show ?thesis by simp
qed

end
