(* ===== verification/Hrw.thy ===== *)
theory Hrw
  imports Domain "HOL-Library.Multiset" "HOL-Library.Product_Lexorder" "HOL-Library.List_Lexorder"
begin

text \<open>
  Rendezvous (highest random weight) hashing: \<open>src/src/network/hrw.rs\<close>. Every node ranks the
  members of the network by a score of the chunk and the member; the first ones hold the chunk.

  Parameters: \<open>sha\<close> is SHA-256 and \<open>peer_bytes\<close> is \<open>PeerId::to_bytes\<close> of libp2p, which is injective.
\<close>

section \<open>The code\<close>

definition from_be_bytes :: "bytes \<Rightarrow> u64" where
  "from_be_bytes bs = fold (\<lambda>b acc. push_bit 8 acc OR ucast b) bs 0"

definition hrw_score :: "(bytes \<Rightarrow> bytes) \<Rightarrow> (peer_id \<Rightarrow> bytes) \<Rightarrow> chunk_hash \<Rightarrow> peer_id \<Rightarrow> u64" where
  "hrw_score sha peer_bytes hash peer = from_be_bytes (take 8 (sha (as_bytes hash @ peer_bytes peer)))"

text \<open>\<open>sort_by\<close> with the comparison reversed: a stable sort in descending order of the key, equal
  elements in their old order (\<open>sort_descending_stable\<close> below).\<close>

definition sort_descending :: "('a \<Rightarrow> 'k::linorder) \<Rightarrow> 'a list \<Rightarrow> 'a list" where
  "sort_descending key xs = rev (sort_key key (rev xs))"

definition score_key :: "(peer_id \<Rightarrow> bytes) \<Rightarrow> u64 \<times> peer_id \<Rightarrow> u64 \<times> bytes" where
  "score_key peer_bytes x = (fst x, peer_bytes (snd x))"

definition top_peers ::
  "(bytes \<Rightarrow> bytes) \<Rightarrow> (peer_id \<Rightarrow> bytes) \<Rightarrow> chunk_hash \<Rightarrow> peer_id list \<Rightarrow> nat \<Rightarrow> peer_id list"
where
  "top_peers sha peer_bytes hash members n =
     (let scored = map (\<lambda>peer. (hrw_score sha peer_bytes hash peer, peer)) members
      in map snd (take n (sort_descending (score_key peer_bytes) scored)))"

section \<open>The ranking\<close>

lemma sort_descending_stable:
  "filter (\<lambda>x. key x = k) (sort_descending key xs) = filter (\<lambda>x. key x = k) xs"
  by (simp add: sort_descending_def rev_filter [symmetric] sort_key_stable)

lemma sort_descending_mset [simp]: "mset (sort_descending key xs) = mset xs"
  by (simp add: sort_descending_def)

lemma sort_descending_set [simp]: "set (sort_descending key xs) = set xs"
  by (simp add: sort_descending_def)

definition peer_key :: "(bytes \<Rightarrow> bytes) \<Rightarrow> (peer_id \<Rightarrow> bytes) \<Rightarrow> chunk_hash \<Rightarrow> peer_id \<Rightarrow> u64 \<times> bytes" where
  "peer_key sha pb hash p = (hrw_score sha pb hash p, pb p)"

definition ranking :: "(bytes \<Rightarrow> bytes) \<Rightarrow> (peer_id \<Rightarrow> bytes) \<Rightarrow> chunk_hash \<Rightarrow> peer_id list \<Rightarrow> peer_id list" where
  "ranking sha pb hash ms = sort_descending (peer_key sha pb hash) ms"

lemma insort_key_map:
  "map g (insort_key (\<lambda>y. f (g y)) x xs) = insort_key f (g x) (map g xs)"
  by (induction xs) auto

lemma sort_key_map: "sort_key f (map g xs) = map g (sort_key (\<lambda>y. f (g y)) xs)"
  by (induction xs) (simp_all add: insort_key_map)

lemma top_peers_ranking: "top_peers sha pb hash ms n = take n (ranking sha pb hash ms)"
proof -
  have key: "(\<lambda>p. score_key pb (hrw_score sha pb hash p, p)) = peer_key sha pb hash"
    by (simp add: fun_eq_iff score_key_def peer_key_def)
  show ?thesis
    by (simp add: top_peers_def ranking_def sort_descending_def rev_map sort_key_map take_map comp_def key)
qed

lemma peer_key_inj: "inj pb \<Longrightarrow> inj (peer_key sha pb hash)"
  by (auto simp: inj_def peer_key_def)

lemma ranking_set [simp]: "set (ranking sha pb hash ms) = set ms"
  by (simp add: ranking_def)

lemma ranking_length [simp]: "length (ranking sha pb hash ms) = length ms"
  by (simp add: ranking_def sort_descending_def)

lemma ranking_distinct [simp]: "distinct (ranking sha pb hash ms) = distinct ms"
  by (simp add: ranking_def sort_descending_def)

lemma ranking_sorted: "sorted (map (peer_key sha pb hash) (rev (ranking sha pb hash ms)))"
  by (simp add: ranking_def sort_descending_def)

text \<open>A list of distinct members in descending order is the ranking of its members.\<close>

lemma ranking_unique:
  assumes "inj pb" and "distinct ms" and "distinct xs" and "set xs = set ms"
    and "sorted (map (peer_key sha pb hash) (rev xs))"
  shows "xs = ranking sha pb hash ms"
proof -
  have inj: "inj_on (peer_key sha pb hash) A" for A using peer_key_inj [OF assms(1)] by (rule inj_on_subset) simp
  have "rev xs = rev (ranking sha pb hash ms)"
    by (rule map_sorted_distinct_set_unique [of "peer_key sha pb hash"])
      (use assms inj ranking_sorted in \<open>simp_all add: distinct_map\<close>)
  then show ?thesis by simp
qed

lemma ranking_filter:
  assumes "inj pb" and "distinct ms"
  shows "filter P (ranking sha pb hash ms) = ranking sha pb hash (filter P ms)"
proof (rule ranking_unique [OF assms(1)])
  show "sorted (map (peer_key sha pb hash) (rev (filter P (ranking sha pb hash ms))))"
    using ranking_sorted [of sha pb hash ms] by (simp add: rev_filter sorted_filter)
qed (use assms(2) in simp_all)

lemma take_filter_keep: "set (take n xs) - {x. \<not> P x} \<subseteq> set (take n (filter P xs))"
proof (induction xs arbitrary: n)
  case (Cons x xs)
  show ?case
  proof (cases n)
    case (Suc k)
    have "set (take k (filter P xs)) \<subseteq> set (take (Suc k) (filter P xs))" by (rule set_take_subset_set_take) simp
    with Suc Cons.IH [of k] show ?thesis by auto
  qed simp
qed simp

lemma take_filter_same: "\<forall>x \<in> set (take n xs). P x \<Longrightarrow> take n (filter P xs) = take n xs"
proof (induction xs arbitrary: n)
  case (Cons x xs)
  then show ?case by (cases n) simp_all
qed simp

section \<open>Properties\<close>

text \<open>C39: The holders of a chunk are the members that score highest: \<open>top_peers\<close> returns as many
  members as asked for (all, when there are fewer), without repetition, and everyone left out
  ranks below everyone chosen.\<close>

theorem top_peers_highest:
  assumes "inj pb" and "distinct ms"
  shows "set (top_peers sha pb hash ms n) \<subseteq> set ms \<and> distinct (top_peers sha pb hash ms n) \<and>
    length (top_peers sha pb hash ms n) = min n (length ms) \<and>
    (\<forall>p \<in> set (top_peers sha pb hash ms n). \<forall>q \<in> set ms - set (top_peers sha pb hash ms n).
       hrw_score sha pb hash q < hrw_score sha pb hash p \<or>
       hrw_score sha pb hash q = hrw_score sha pb hash p \<and> pb q < pb p)"
proof -
  let ?r = "ranking sha pb hash ms" and ?k = "peer_key sha pb hash"
  have "?k q < ?k p" if p: "p \<in> set (take n ?r)" and q: "q \<in> set ms - set (take n ?r)" for p q
  proof -
    have "q \<in> set (drop n ?r)" using q by (metis Diff_iff Un_iff append_take_drop_id ranking_set set_append)
    moreover have "sorted (map ?k (rev (drop n ?r)) @ map ?k (rev (take n ?r)))"
      using ranking_sorted [of sha pb hash ms] by (metis append_take_drop_id map_append rev_append)
    ultimately have "?k q \<le> ?k p" using p by (auto simp: sorted_append)
    moreover have "q \<noteq> p" using p q by blast
    then have "?k q \<noteq> ?k p" using peer_key_inj [OF assms(1), of sha hash] by (auto dest: injD)
    ultimately show ?thesis by simp
  qed
  then show ?thesis
    using assms(2) set_take_subset [of n ?r] by (auto simp: top_peers_ranking peer_key_def less_le)
qed

theorem top_peers_highest_witness:
  defines "pb \<equiv> \<lambda>p. replicate (peer_number p) (0 :: byte)" and "sha \<equiv> \<lambda>d. [of_nat (length d)]"
  shows "length (top_peers sha pb (ChunkHash []) [PeerId 3, PeerId 9, PeerId 4] 2) = 2"
proof -
  have "inj pb"
  proof (rule injI)
    fix p q assume "pb p = pb q"
    then have "length (pb p) = length (pb q)" by simp
    then show "p = q" by (simp add: pb_def peer_id.expand)
  qed
  from top_peers_highest [OF this, of "[PeerId 3, PeerId 9, PeerId 4]" sha "ChunkHash []" 2]
  show ?thesis by simp
qed

text \<open>All nodes that see the same members choose the same holders, in the same order, whatever
  order they list them in; and a change of membership moves as little as possible: when a member
  leaves, every other holder stays a holder, and a chunk it did not hold keeps its holders exactly.\<close>

theorem top_peers_stable:
  assumes "inj pb" and "distinct ms" and "distinct ms'" and "set ms = set ms'"
  shows "top_peers sha pb hash ms n = top_peers sha pb hash ms' n \<and>
    set (top_peers sha pb hash ms n) - {q} \<subseteq> set (top_peers sha pb hash (filter (\<lambda>p. p \<noteq> q) ms') n) \<and>
    (q \<notin> set (top_peers sha pb hash ms n) \<longrightarrow>
       top_peers sha pb hash (filter (\<lambda>p. p \<noteq> q) ms') n = top_peers sha pb hash ms n)"
proof -
  have eq: "ranking sha pb hash ms = ranking sha pb hash ms'"
    using ranking_unique [OF assms(1,3)] assms(2,4) ranking_sorted by simp
  have flt: "ranking sha pb hash (filter (\<lambda>p. p \<noteq> q) ms') = filter (\<lambda>p. p \<noteq> q) (ranking sha pb hash ms)"
    using ranking_filter [OF assms(1,3)] eq by simp
  have "{p. \<not> p \<noteq> q} = {q}" by simp
  then show ?thesis
    using take_filter_keep [of n "ranking sha pb hash ms" "\<lambda>p. p \<noteq> q"]
      take_filter_same [of n "ranking sha pb hash ms" "\<lambda>p. p \<noteq> q"]
    unfolding top_peers_ranking flt eq by auto
qed

theorem top_peers_stable_witness:
  defines "pb \<equiv> \<lambda>p. replicate (peer_number p) (0 :: byte)" and "sha \<equiv> \<lambda>d. [of_nat (length d)]"
  shows "top_peers sha pb (ChunkHash []) [PeerId 3, PeerId 9] 1 = top_peers sha pb (ChunkHash []) [PeerId 9, PeerId 3] 1"
proof -
  have "inj pb"
  proof (rule injI)
    fix p q assume "pb p = pb q"
    then have "length (pb p) = length (pb q)" by simp
    then show "p = q" by (simp add: pb_def peer_id.expand)
  qed
  moreover have "set [PeerId 3, PeerId 9] = set [PeerId 9, PeerId 3]" by auto
  ultimately show ?thesis
    using top_peers_stable [of pb "[PeerId 3, PeerId 9]" "[PeerId 9, PeerId 3]" sha "ChunkHash []" 1] by simp
qed

end
