(* ===== verification/Inode.thy ===== *)
theory Inode
  imports Domain
begin

text \<open>
  Inode numbers: \<open>src/src/fuse/inode.rs\<close>. The map between the kernel's inode numbers and node ids,
  in both directions, and the next number to hand out. An \<open>INodeNo\<close> is its raw \<open>u64\<close>
  (\<open>from_raw\<close>, \<open>as_raw\<close>); \<open>root_ino\<close> stands for the constant \<open>INodeNo::ROOT\<close> of async_fuser.
\<close>

section \<open>The code\<close>

type_synonym inode_no = u64

record inode_map =
  ino_to_id :: "(inode_no, node_id) hmap"
  id_to_ino :: "(node_id, inode_no) hmap"
  next_ino :: inode_no

definition inode_map_new :: "inode_no \<Rightarrow> inode_map" where
  "inode_map_new root_ino =
     \<lparr>ino_to_id = hinsert root_ino ROOT [], id_to_ino = hinsert ROOT root_ino [], next_ino = root_ino + 1\<rparr>"

definition get_or_assign_ino :: "node_id \<Rightarrow> inode_map \<Rightarrow> inode_no \<times> inode_map" where
  "get_or_assign_ino node_id m =
     (case hget (id_to_ino m) node_id of
        Some ino \<Rightarrow> (ino, m)
      | None \<Rightarrow>
          (let ino = next_ino m in
           (ino, m\<lparr>next_ino := next_ino m + 1,
                   ino_to_id := hinsert ino node_id (ino_to_id m),
                   id_to_ino := hinsert node_id ino (id_to_ino m)\<rparr>)))"

definition get_node_id :: "inode_map \<Rightarrow> inode_no \<Rightarrow> node_id option" where
  "get_node_id m ino = hget (ino_to_id m) ino"

section \<open>The invariant\<close>

text \<open>The two maps are inverse to each other, and the numbers from the next one on are free.\<close>

definition inode_inv :: "inode_map \<Rightarrow> bool" where
  "inode_inv m \<longleftrightarrow>
     (\<forall>ino n. hget (ino_to_id m) ino = Some n \<longleftrightarrow> hget (id_to_ino m) n = Some ino) \<and>
     (\<forall>ino n. hget (ino_to_id m) ino = Some n \<longrightarrow> ino < next_ino m)"

text \<open>A run of lookups, each of which may assign a number.\<close>

fun inode_run :: "node_id list \<Rightarrow> inode_map \<Rightarrow> inode_no list \<times> inode_map" where
  "inode_run [] m = ([], m)"
| "inode_run (n # ns) m =
     (let (ino, m1) = get_or_assign_ino n m; (inos, m2) = inode_run ns m1 in (ino # inos, m2))"

lemma inode_next_above:
  fixes a :: u64
  assumes "unat a + 1 < 2 ^ 64"
  shows "a < a + 1" and "unat (a + 1) = unat a + 1" and "b < a \<Longrightarrow> b < a + 1"
proof -
  show "unat (a + 1) = unat a + 1" using unat_add_no_overflow [of a 1] assms by simp
  then show "a < a + 1" by (simp add: word_less_nat_alt)
  then show "b < a \<Longrightarrow> b < a + 1" by (rule order.strict_trans [rotated])
qed

lemma inode_inv_new:
  assumes "unat r + 1 < 2 ^ 64"
  shows "inode_inv (inode_map_new r)" and "get_node_id (inode_map_new r) r = Some ROOT"
    and "hget (id_to_ino (inode_map_new r)) ROOT = Some r" and "unat (next_ino (inode_map_new r)) = unat r + 1"
  using inode_next_above [OF assms] by (auto simp: inode_inv_def inode_map_new_def get_node_id_def)

lemma assign_effect:
  assumes "inode_inv m" and "unat (next_ino m) + 1 < 2 ^ 64" and "get_or_assign_ino n m = (ino, m')"
  shows "inode_inv m'" and "hget (id_to_ino m') n = Some ino"
    and "hget (id_to_ino m) k = Some i \<Longrightarrow> hget (id_to_ino m') k = Some i"
    and "unat (next_ino m') \<le> unat (next_ino m) + 1"
proof -
  have "inode_inv m' \<and> hget (id_to_ino m') n = Some ino \<and>
    (hget (id_to_ino m) k = Some i \<longrightarrow> hget (id_to_ino m') k = Some i) \<and>
    unat (next_ino m') \<le> unat (next_ino m) + 1"
  proof (cases "hget (id_to_ino m) n")
    case None
    then have m': "m' = m\<lparr>next_ino := next_ino m + 1, ino_to_id := hinsert ino n (ino_to_id m),
        id_to_ino := hinsert n ino (id_to_ino m)\<rparr>" and ino: "ino = next_ino m"
      using assms(3) by (auto simp: get_or_assign_ino_def Let_def)
    have fresh: "hget (ino_to_id m) (next_ino m) = None"
      using assms(1) by (cases "hget (ino_to_id m) (next_ino m)") (auto simp: inode_inv_def)
    then have "hget (id_to_ino m) k \<noteq> Some (next_ino m)" for k
      using assms(1) unfolding inode_inv_def by (metis option.discI)
    then have "inode_inv m'"
      using assms(1) None fresh inode_next_above [OF assms(2)]
      unfolding inode_inv_def m' ino by auto
    with None inode_next_above(2) [OF assms(2)] show ?thesis by (auto simp: m')
  qed (use assms in \<open>auto simp: get_or_assign_ino_def\<close>)
  then show "inode_inv m'" "hget (id_to_ino m') n = Some ino"
    "hget (id_to_ino m) k = Some i \<Longrightarrow> hget (id_to_ino m') k = Some i"
    "unat (next_ino m') \<le> unat (next_ino m) + 1" by blast+
qed

lemma inode_run_effect:
  assumes "inode_inv m" and "unat (next_ino m) + length ns < 2 ^ 64" and "inode_run ns m = (inos, m')"
  shows "inode_inv m' \<and> length inos = length ns \<and>
    (\<forall>j < length ns. hget (id_to_ino m') (ns ! j) = Some (inos ! j)) \<and>
    (\<forall>k i. hget (id_to_ino m) k = Some i \<longrightarrow> hget (id_to_ino m') k = Some i)"
  using assms
proof (induction ns arbitrary: m inos)
  case (Cons n ns)
  obtain ino m1 where one: "get_or_assign_ino n m = (ino, m1)" by force
  obtain others where rest: "inode_run ns m1 = (others, m')" "inos = ino # others"
    using Cons.prems(3) one by (auto split: prod.splits)
  have "unat (next_ino m) + 1 < 2 ^ 64 \<or> ns = []" using Cons.prems(2) by (cases ns) auto
  have room: "unat (next_ino m) + 1 < 2 ^ 64" using Cons.prems(2) by simp
  note eff = assign_effect [OF Cons.prems(1) room one]
  have "unat (next_ino m1) + length ns < 2 ^ 64" using eff(4) Cons.prems(2) by simp
  from Cons.IH [OF eff(1) this rest(1)] eff(2,3) rest(2) show ?case
    by (auto simp: nth_Cons split: nat.splits)
qed simp

section \<open>Properties\<close>

text \<open>C40: Over any run of lookups the kernel's inode numbers identify nodes: the same node always
  gets the same number, two nodes never share one, each number handed out leads back to its node,
  and the root keeps its number, as long as the 64-bit counter does not run out.\<close>

theorem inodes_identify_nodes:
  assumes "unat root_ino + 1 + length ns < 2 ^ 64"
    and "inode_run ns (inode_map_new root_ino) = (inos, m)"
  shows "length inos = length ns \<and>
    (\<forall>i < length ns. \<forall>j < length ns. inos ! i = inos ! j \<longleftrightarrow> ns ! i = ns ! j) \<and>
    (\<forall>i < length ns. get_node_id m (inos ! i) = Some (ns ! i) \<and> (inos ! i = root_ino \<longleftrightarrow> ns ! i = ROOT)) \<and>
    get_node_id m root_ino = Some ROOT"
proof -
  have "unat root_ino + 1 < 2 ^ 64" using assms(1) by simp
  note new = inode_inv_new [OF this]
  from inode_run_effect [OF new(1) _ assms(2)] assms(1) new(3,4) have
    inv: "inode_inv m" and len: "length inos = length ns"
    and fwd: "\<forall>j < length ns. hget (id_to_ino m) (ns ! j) = Some (inos ! j)"
    and root: "hget (id_to_ino m) ROOT = Some root_ino" by auto
  have inverse: "get_node_id m i = Some n \<longleftrightarrow> hget (id_to_ino m) n = Some i" for i n
    using inv by (simp add: inode_inv_def get_node_id_def)
  have bwd: "\<forall>j < length ns. get_node_id m (inos ! j) = Some (ns ! j)" "get_node_id m root_ino = Some ROOT"
    using fwd root inverse by simp_all
  moreover have "inos ! i = inos ! j \<longleftrightarrow> ns ! i = ns ! j" if "i < length ns" "j < length ns" for i j
    using bwd(1) fwd that by (metis option.inject)
  moreover have "inos ! i = root_ino \<longleftrightarrow> ns ! i = ROOT" if "i < length ns" for i
    using bwd fwd root that by (metis option.inject)
  ultimately show ?thesis using len by blast
qed

theorem inodes_identify_nodes_witness:
  "fst (inode_run [NodeId 5, NodeId 9, NodeId 5] (inode_map_new 1)) ! 0 =
   fst (inode_run [NodeId 5, NodeId 9, NodeId 5] (inode_map_new 1)) ! 2"
proof -
  obtain inos m where r: "inode_run [NodeId 5, NodeId 9, NodeId 5] (inode_map_new 1) = (inos, m)" by force
  have "unat (1 :: u64) + 1 + length [NodeId 5, NodeId 9, NodeId 5] < 2 ^ 64" by simp
  from inodes_identify_nodes [OF this r] have
    "\<forall>i < 3. \<forall>j < 3. inos ! i = inos ! j \<longleftrightarrow> [NodeId 5, NodeId 9, NodeId 5] ! i = [NodeId 5, NodeId 9, NodeId 5] ! j"
    by simp
  then have "inos ! 0 = inos ! 2" by (auto dest!: spec [of _ 0] spec [of _ 2])
  with r show ?thesis by simp
qed

end
