(* ===== verification/FuseTypes.thy ===== *)
theory FuseTypes
  imports Domain
begin

text \<open>
  The values the FUSE layer answers with: error numbers (\<open>src/src/fuse/error.rs\<close>) and file
  attributes (\<open>src/src/fuse/attr.rs\<close>). The \<open>Errno\<close> constants and \<open>FileType\<close> of async_fuser are
  enumerations of the values the code uses; a time is its distance from the epoch. \<open>PANIC\<close> is no error
  number: it stands for a handler that panics (\<open>CapacityOverflow\<close> of theory Domain), whose task unwinds
  without giving the reply it was to give.
\<close>

datatype errno =
    ENOENT | ENOTDIR | EISDIR | ENOTEMPTY | EEXIST | ENOSPC | EPERM | EBADF | EFBIG | EIO | EINVAL | ENOTSUP | PANIC

fun errno_of :: "fs_error \<Rightarrow> errno" where
  "errno_of NotFound = ENOENT"
| "errno_of NotADirectory = ENOTDIR"
| "errno_of IsADirectory = EISDIR"
| "errno_of DirectoryNotEmpty = ENOTEMPTY"
| "errno_of AlreadyExists = EEXIST"
| "errno_of StorageFull = ENOSPC"
| "errno_of ReservedNode = EPERM"
| "errno_of CapacityOverflow = PANIC"

definition FUSE_BLOCK_SIZE_BYTES :: "32 word" where
  "FUSE_BLOCK_SIZE_BYTES = 512"

definition FUSE_MAX_NAME_LENGTH :: "32 word" where
  "FUSE_MAX_NAME_LENGTH = 255"

datatype file_type = FtDirectory | FtRegularFile | FtSymlink

record file_attr =
  fa_ino :: u64
  fa_size :: u64
  fa_blocks :: u64
  fa_atime :: nat
  fa_mtime :: nat
  fa_ctime :: nat
  fa_crtime :: nat
  fa_kind :: file_type
  fa_perm :: "16 word"
  fa_nlink :: "32 word"
  fa_uid :: "32 word"
  fa_gid :: "32 word"
  fa_rdev :: "32 word"
  fa_blksize :: "32 word"
  fa_flags :: "32 word"

text \<open>\<open>u64::div_ceil\<close>.\<close>

definition div_ceil :: "u64 \<Rightarrow> u64 \<Rightarrow> u64" where
  "div_ceil a b = (if a mod b > 0 then a div b + 1 else a div b)"

definition file_type_of :: "node_meta \<Rightarrow> file_type" where
  "file_type_of m = (case m of Directory _ \<Rightarrow> FtDirectory | RegularFile _ _ _ \<Rightarrow> FtRegularFile | Symlink _ _ \<Rightarrow> FtSymlink)"

definition to_attr :: "node_meta \<Rightarrow> u64 \<Rightarrow> file_attr" where
  "to_attr m ino =
     (let (kind, sz) = (case m of
            Directory _ \<Rightarrow> (FtDirectory, ucast FUSE_BLOCK_SIZE_BYTES)
          | RegularFile _ s _ \<Rightarrow> (FtRegularFile, s)
          | Symlink _ target \<Rightarrow> (FtSymlink, vec_len target))
      in \<lparr>fa_ino = ino, fa_size = sz, fa_blocks = div_ceil sz (ucast FUSE_BLOCK_SIZE_BYTES),
          fa_atime = 0, fa_mtime = 0, fa_ctime = 0, fa_crtime = 0, fa_kind = kind,
          fa_perm = 0x1FF, fa_nlink = (if kind = FtDirectory then 2 else 1),
          fa_uid = 0, fa_gid = 0, fa_rdev = 0, fa_blksize = FUSE_BLOCK_SIZE_BYTES, fa_flags = 0\<rparr>)"

end
