(* ===== verification/OpenFile.thy ===== *)
theory OpenFile
  imports FuseTypes
begin

text \<open>
  Open files: \<open>src/src/fuse/open_file.rs\<close>. Each file handle has the metadata it was opened with
  and, once it has been written to, a buffer with the whole content. The manager's lock makes each
  operation atomic.
\<close>

section \<open>The code\<close>

type_synonym file_handle = u64

record open_file =
  of_meta :: node_meta
  of_buffer :: "bytes option"
  of_dirty :: bool

type_synonym open_files = "(file_handle, open_file) hmap"

definition open_file_new :: "node_meta \<Rightarrow> bytes option \<Rightarrow> open_file" where
  "open_file_new m buffer = \<lparr>of_meta = m, of_buffer = buffer, of_dirty = False\<rparr>"

definition ofm_create_file :: "file_handle \<Rightarrow> node_meta \<Rightarrow> open_files \<Rightarrow> open_files" where
  "ofm_create_file fh m files = hinsert fh (open_file_new m (Some [])) files"

definition ofm_open_file :: "file_handle \<Rightarrow> node_meta \<Rightarrow> open_files \<Rightarrow> open_files" where
  "ofm_open_file fh m files = hinsert fh (open_file_new m None) files"

definition ofm_release_file :: "file_handle \<Rightarrow> open_files \<Rightarrow> bytes option \<times> open_files" where
  "ofm_release_file fh files =
     (case hget files fh of
        None \<Rightarrow> (None, files)
      | Some session \<Rightarrow> (if \<not> of_dirty session then None else of_buffer session, hremove fh files))"

definition ofm_metadata :: "open_files \<Rightarrow> file_handle \<Rightarrow> node_meta option" where
  "ofm_metadata files fh = map_option of_meta (hget files fh)"

definition ofm_read :: "open_files \<Rightarrow> file_handle \<Rightarrow> u64 \<Rightarrow> u64 \<Rightarrow> bytes option" where
  "ofm_read files fh offset len =
     (case hget files fh of
        None \<Rightarrow> None
      | Some file \<Rightarrow>
          (case of_buffer file of
             None \<Rightarrow> None
           | Some buffer \<Rightarrow>
               (let buffer_size = vec_len buffer in
                if offset \<ge> buffer_size then Some []
                else (let end = unat (min (saturating_add offset len) buffer_size)
                      in Some (subslice buffer (unat offset) end)))))"

text \<open>\<open>buffer[a..b].copy_from_slice(data)\<close> for a range inside the buffer.\<close>

definition copy_into :: "bytes \<Rightarrow> nat \<Rightarrow> bytes \<Rightarrow> bytes" where
  "copy_into buffer a data = take a buffer @ data @ drop (a + length data) buffer"

definition ofm_write ::
  "file_handle \<Rightarrow> u64 \<Rightarrow> bytes \<Rightarrow> open_files \<Rightarrow> (u64, errno) result \<times> open_files"
where
  "ofm_write fh offset data files =
     (case hget files fh of
        None \<Rightarrow> (Err EBADF, files)
      | Some file \<Rightarrow>
          (case of_buffer file of
             None \<Rightarrow> (Err EBADF, files)
           | Some buffer \<Rightarrow>
               (case checked_add offset (vec_len data) of
                  None \<Rightarrow> (Err EFBIG, files)
                | Some write_end \<Rightarrow>
                    if unat write_end > length buffer \<and> capacity_overflow write_end then (Err PANIC, files)
                    else
                    (let buffer' = (if unat write_end > length buffer then vec_resize (unat write_end) 0 buffer else buffer);
                         meta' = (case of_meta file of
                                    RegularFile name sz refs \<Rightarrow> RegularFile name (max sz write_end) refs
                                  | other \<Rightarrow> other)
                     in (Ok (vec_len data),
                         hmodify fh (\<lambda>f. f\<lparr>of_meta := meta', of_buffer := Some (copy_into buffer' (unat offset) data),
                                          of_dirty := True\<rparr>) files)))))"

definition ofm_needs_buffer :: "open_files \<Rightarrow> file_handle \<Rightarrow> (bool, errno) result" where
  "ofm_needs_buffer files fh =
     (case hget files fh of None \<Rightarrow> Err EBADF | Some file \<Rightarrow> Ok (of_buffer file = None))"

definition ofm_set_buffer :: "file_handle \<Rightarrow> bytes \<Rightarrow> open_files \<Rightarrow> open_files" where
  "ofm_set_buffer fh buffer files = hmodify fh (\<lambda>session. session\<lparr>of_buffer := Some buffer\<rparr>) files"

section \<open>The buffer as a file\<close>

text \<open>What a write does to a file's content, byte by byte: the data at its place, zeros in a gap
  beyond the old end, everything else unchanged.\<close>

definition patched :: "bytes \<Rightarrow> nat \<Rightarrow> bytes \<Rightarrow> nat \<Rightarrow> byte" where
  "patched old off data i =
     (if off \<le> i \<and> i < off + length data then data ! (i - off) else if i < length old then old ! i else 0)"

definition patch :: "bytes \<Rightarrow> nat \<Rightarrow> bytes \<Rightarrow> bytes" where
  "patch old off data = map (patched old off data) [0..<max (length old) (off + length data)]"

lemma patch_length [simp]: "length (patch old off data) = max (length old) (off + length data)"
  by (simp add: patch_def)

lemma patch_nth: "i < max (length old) (off + length data) \<Longrightarrow> patch old off data ! i = patched old off data i"
  by (simp add: patch_def)

lemma vec_resize_nth:
  "length xs \<le> n \<Longrightarrow> i < n \<Longrightarrow> vec_resize n x xs ! i = (if i < length xs then xs ! i else x)"
  by (auto simp: vec_resize_def nth_append)

lemma vec_resize_length: "length xs \<le> n \<Longrightarrow> length (vec_resize n x xs) = n"
  by (simp add: vec_resize_def)

lemma copy_into_patch:
  assumes "off + length data \<le> length buffer"
  shows "copy_into buffer off data = patch buffer off data"
proof (rule nth_equalityI)
  show "length (copy_into buffer off data) = length (patch buffer off data)"
    using assms by (simp add: copy_into_def)
  show "copy_into buffer off data ! i = patch buffer off data ! i" if "i < length (copy_into buffer off data)" for i
    using that assms by (auto simp: copy_into_def patch_def patched_def nth_append min_def)
qed

lemma write_buffer_patch:
  assumes "e = off + length data"
  shows "copy_into (if e > length buffer then vec_resize e 0 buffer else buffer) off data = patch buffer off data"
proof (cases "e > length buffer")
  case True
  have "copy_into (vec_resize e 0 buffer) off data = patch (vec_resize e 0 buffer) off data"
    using assms True by (intro copy_into_patch) (simp add: vec_resize_length)
  also have "\<dots> = patch buffer off data"
  proof (rule nth_equalityI)
    show "length (patch (vec_resize e 0 buffer) off data) = length (patch buffer off data)"
      using assms True by (simp add: vec_resize_length)
    show "patch (vec_resize e 0 buffer) off data ! i = patch buffer off data ! i"
      if "i < length (patch (vec_resize e 0 buffer) off data)" for i
      using that assms True by (auto simp: patch_def patched_def vec_resize_length vec_resize_nth)
  qed
  finally show ?thesis using True by simp
qed (use assms in \<open>simp add: copy_into_patch\<close>)

text \<open>Both outcomes of a write to a session that has a buffer.\<close>

lemma ofm_write_effect:
  assumes "hget files fh = Some f" and "of_buffer f = Some buffer" and "vec_ok data"
    and "unat offset + length data < 2 ^ 64" and "ofm_write fh offset data files = (r, files')"
    and "\<not> (length buffer < unat offset + length data \<and> 2 ^ 63 \<le> unat offset + length data)"
  shows "r = Ok (vec_len data)"
    and "hget files' k = (if k = fh then Some (f\<lparr>of_meta := (case of_meta f of
          RegularFile name sz refs \<Rightarrow> RegularFile name (max sz (offset + vec_len data)) refs | other \<Rightarrow> other),
        of_buffer := Some (patch buffer (unat offset) data), of_dirty := True\<rparr>) else hget files k)"
    and "unat (offset + vec_len data) = unat offset + length data"
proof -
  have len: "unat (vec_len data) = length data" using assms(3) by (rule unat_vec_len)
  then have chk: "checked_add offset (vec_len data) = Some (offset + vec_len data)"
    using assms(4) by (simp add: checked_add_Some)
  show sum: "unat (offset + vec_len data) = unat offset + length data"
    using assms(4) len unat_add_no_overflow [of offset "vec_len data"] by simp
  note buf = write_buffer_patch [OF sum [symmetric, symmetric], of buffer]
  have room: "(length buffer < unat (offset + vec_len data) \<and> capacity_overflow (offset + vec_len data)) = False"
    using assms(6) sum by (simp add: capacity_overflow_def)
  show "r = Ok (vec_len data)"
    using assms(1,2,5) chk by (simp add: ofm_write_def Let_def room)
  show "hget files' k = (if k = fh then Some (f\<lparr>of_meta := (case of_meta f of
          RegularFile name sz refs \<Rightarrow> RegularFile name (max sz (offset + vec_len data)) refs | other \<Rightarrow> other),
        of_buffer := Some (patch buffer (unat offset) data), of_dirty := True\<rparr>) else hget files k)"
    using assms(1,2,5) chk buf by (auto simp: ofm_write_def Let_def room)
qed

lemma ofm_write_refused:
  assumes "hget files fh = Some f" and "of_buffer f = Some buffer" and "vec_ok data"
    and "ofm_write fh offset data files = (r, files')"
  shows "2 ^ 64 \<le> unat offset + length data \<Longrightarrow> r = Err EFBIG \<and> files' = files"
    and "unat offset + length data < 2 ^ 64 \<Longrightarrow> length buffer < unat offset + length data \<Longrightarrow>
      2 ^ 63 \<le> unat offset + length data \<Longrightarrow> r = Err PANIC \<and> files' = files"
proof -
  have len: "unat (vec_len data) = length data" using assms(3) by (rule unat_vec_len)
  {
    assume "2 ^ 64 \<le> unat offset + length data"
    with len have "checked_add offset (vec_len data) = None"
      using checked_add_Some [of offset "vec_len data"] by (cases "checked_add offset (vec_len data)") auto
    with assms(1,2,4) show "r = Err EFBIG \<and> files' = files" by (simp add: ofm_write_def)
  next
    assume *: "unat offset + length data < 2 ^ 64" "length buffer < unat offset + length data" "2 ^ 63 \<le> unat offset + length data"
    then have "checked_add offset (vec_len data) = Some (offset + vec_len data)"
      and "unat (offset + vec_len data) = unat offset + length data"
      using len unat_add_no_overflow [of offset "vec_len data"] by (simp_all add: checked_add_Some)
    with * assms(1,2,4) show "r = Err PANIC \<and> files' = files" by (simp add: ofm_write_def capacity_overflow_def)
  }
qed

lemma ofm_read_value:
  assumes "hget files fh = Some f" and "of_buffer f = Some buffer" and "length buffer < 2 ^ 64"
  shows "ofm_read files fh offset len =
    Some (subslice buffer (unat offset) (min (unat offset + unat len) (length buffer)))"
proof -
  have sz: "unat (vec_len buffer) = length buffer" using assms(3) by (rule unat_vec_len_lt)
  have "unat (min (saturating_add offset len) (vec_len buffer)) = min (unat offset + unat len) (length buffer)"
    using sz assms(3) by (simp add: min_def word_le_nat_alt unat_saturating_add)
  then show ?thesis
    using assms sz by (auto simp: ofm_read_def Let_def word_le_nat_alt subslice_def)
qed

section \<open>Properties\<close>

text \<open>C25: A write through an open handle with a buffer has the effect of \<open>pwrite\<close>: the data is put at
  the offset, a gap beyond the old end reads as zeros, all other bytes stay, the recorded size is
  at least the end of the write and the session becomes dirty; the number of bytes written is
  returned. No other handle is affected. Reading back any range of the handle gives the slice of
  that content. A handle that is unknown or has no buffer is
  refused with \<open>EBADF\<close> and a range that overflows with \<open>EFBIG\<close>; a write whose end lies beyond the old content
  and beyond what a \<open>Vec\<close> can hold panics. All of these leave every handle as it was.\<close>

theorem write_patches_buffer:
  assumes "vec_ok data" and "ofm_write fh offset data files = (r, files')"
  shows "case hget files fh of
      None \<Rightarrow> r = Err EBADF \<and> files' = files
    | Some f \<Rightarrow>
        (case of_buffer f of
           None \<Rightarrow> r = Err EBADF \<and> files' = files
         | Some old \<Rightarrow>
             (if unat offset + length data \<ge> 2 ^ 64 then r = Err EFBIG \<and> files' = files
              else if length old < unat offset + length data \<and> 2 ^ 63 \<le> unat offset + length data
              then r = Err PANIC \<and> files' = files
              else r = Ok (vec_len data) \<and>
                (\<exists>f'. hget files' fh = Some f' \<and> of_dirty f' \<and> of_buffer f' = Some (patch old (unat offset) data) \<and>
                   (\<forall>name sz rs. of_meta f = RegularFile name sz rs \<longrightarrow>
                      (\<exists>sz'. of_meta f' = RegularFile name sz' rs \<and> unat sz' = max (unat sz) (unat offset + length data)))) \<and>
                (vec_ok old \<longrightarrow> vec_ok (patch old (unat offset) data) \<and> (\<forall>off' len. ofm_read files' fh off' len =
                   Some (subslice (patch old (unat offset) data) (unat off')
                     (min (unat off' + unat len) (max (length old) (unat offset + length data)))))) \<and>
                (\<forall>k. k \<noteq> fh \<longrightarrow> hget files' k = hget files k)))"
proof (cases "hget files fh")
  case None
  with assms(2) show ?thesis by (simp add: ofm_write_def)
next
  case (Some f)
  show ?thesis
  proof (cases "of_buffer f")
    case None
    with Some assms(2) show ?thesis by (simp add: ofm_write_def)
  next
    case buf: (Some old)
    consider (wraps) "2 ^ 64 \<le> unat offset + length data"
      | (panics) "unat offset + length data < 2 ^ 64" "length old < unat offset + length data" "2 ^ 63 \<le> unat offset + length data"
      | (fits) "unat offset + length data < 2 ^ 64" "\<not> (length old < unat offset + length data \<and> 2 ^ 63 \<le> unat offset + length data)"
      by linarith
    then show ?thesis
    proof cases
      case wraps
      with Some buf ofm_write_refused(1) [OF Some buf assms] show ?thesis by simp
    next
      case panics
      with Some buf ofm_write_refused(2) [OF Some buf assms] show ?thesis by simp
    next
      case fits
      note eff = ofm_write_effect [OF Some buf assms(1) fits(1) assms(2) fits(2)]
      let ?new = "patch old (unat offset) data"
      let ?f = "f\<lparr>of_meta := (case of_meta f of
          RegularFile name sz refs \<Rightarrow> RegularFile name (max sz (offset + vec_len data)) refs | other \<Rightarrow> other),
        of_buffer := Some ?new, of_dirty := True\<rparr>"
      have here: "hget files' fh = Some ?f" using eff(2) [of fh] by simp
      have sz: "unat (max sz (offset + vec_len data)) = max (unat sz) (unat offset + length data)" for sz
        using eff(3) by (simp add: max_def word_le_nat_alt)
      have vec: "vec_ok old \<longrightarrow> vec_ok ?new" using fits by (auto simp: vec_ok_def)
      then have reads: "vec_ok old \<longrightarrow> vec_ok ?new \<and> (\<forall>off' len. ofm_read files' fh off' len =
          Some (subslice ?new (unat off') (min (unat off' + unat len) (max (length old) (unat offset + length data)))))"
        using ofm_read_value [OF here, of ?new] fits(1) by (auto simp: vec_ok_def)
      have "\<exists>f'. hget files' fh = Some f' \<and> of_dirty f' \<and> of_buffer f' = Some ?new \<and>
          (\<forall>name sz rs. of_meta f = RegularFile name sz rs \<longrightarrow>
             (\<exists>sz'. of_meta f' = RegularFile name sz' rs \<and> unat sz' = max (unat sz) (unat offset + length data)))"
        using here sz by (intro exI [of _ ?f]) simp
      with Some buf eff(1,2) reads fits show ?thesis by simp
    qed
  qed
qed

theorem write_patches_buffer_witness:
  defines "files \<equiv> ofm_create_file 1 (RegularFile ''a'' 0 []) []"
  shows "ofm_read (snd (ofm_write 1 2 [7, 8] files)) 1 0 9 = Some [0, 0, 7, 8]"
proof -
  obtain r files' where w: "ofm_write 1 2 [7, 8] files = (r, files')" by force
  have "vec_ok [7, 8 :: byte]" by (simp add: vec_ok_def)
  from write_patches_buffer [OF this w] w show ?thesis
    by (simp add: files_def ofm_create_file_def open_file_new_def patch_def patched_def subslice_def upt_rec vec_ok_def)
qed

end
