(* ===== verification/Fuse.thy ===== *)
theory Fuse
  imports FsReach Inode OpenFile
begin

text \<open>
  The FUSE request handlers: \<open>src/src/fuse/mod.rs\<close> and \<open>gateway.rs\<close>. Each handler is one function
  from the state to a result and the state it leaves behind.

  Parameters: \<open>now\<close> is the system time a mutation reads; \<open>answers i\<close> is what the network gateway's
  \<open>fetch\<close> returns for the \<open>i\<close>-th missing chunk; \<open>directory_api\<close> is the reply buffer of
  async_fuser. What the gateway's \<open>broadcast\<close> is given is kept as a log (\<open>ff_sent\<close>). A handler is one
  function here; theory FuseSteps takes it apart at its \<open>await\<close> points. A name is the string
  \<open>to_string_lossy\<close> made of it.
\<close>

section \<open>State\<close>

definition TTL :: nat where "TTL = 0"

definition GENERATION :: u64 where "GENERATION = 0"

record 't fuse_file_system =
  ff_filesystem :: "'t file_system"
  ff_inode_map :: inode_map
  ff_open_files :: open_files
  ff_next_fh :: u64
  ff_sent :: "node_operation list list"

definition fuse_new :: "inode_no \<Rightarrow> 't file_system \<Rightarrow> 't fuse_file_system" where
  "fuse_new root_ino filesystem =
     \<lparr>ff_filesystem = filesystem, ff_inode_map = inode_map_new root_ino, ff_open_files = [],
      ff_next_fh = 1, ff_sent = []\<rparr>"

definition fuse_next_fh :: "'t fuse_file_system \<Rightarrow> file_handle \<times> 't fuse_file_system" where
  "fuse_next_fh s = (ff_next_fh s, s\<lparr>ff_next_fh := ff_next_fh s + 1\<rparr>)"

definition ino_to_node_id :: "'t fuse_file_system \<Rightarrow> inode_no \<Rightarrow> (node_id, errno) result" where
  "ino_to_node_id s ino = ok_or ENOENT (get_node_id (ff_inode_map s) ino)"

definition node_id_to_ino :: "node_id \<Rightarrow> 't fuse_file_system \<Rightarrow> inode_no \<times> 't fuse_file_system" where
  "node_id_to_ino node s =
     (let (ino, m) = get_or_assign_ino node (ff_inode_map s) in (ino, s\<lparr>ff_inode_map := m\<rparr>))"

text \<open>The \<open>?\<close> operator: on a value, and on a call that changes the state.\<close>

definition ask :: "('a, 'e) result \<Rightarrow> ('a \<Rightarrow> 's \<Rightarrow> ('b, 'e) result \<times> 's) \<Rightarrow> 's \<Rightarrow> ('b, 'e) result \<times> 's" where
  "ask r k s = (case r of Inl e \<Rightarrow> (Err e, s) | Inr a \<Rightarrow> k a s)"

definition ask_st ::
  "('s \<Rightarrow> ('a, 'e) result \<times> 's) \<Rightarrow> ('a \<Rightarrow> 's \<Rightarrow> ('b, 'e) result \<times> 's) \<Rightarrow> 's \<Rightarrow> ('b, 'e) result \<times> 's"
where
  "ask_st m k s = (case m s of (Inl e, s') \<Rightarrow> (Err e, s') | (Inr a, s') \<Rightarrow> k a s')"

definition fuse_metadata :: "'t fs_env \<Rightarrow> 't fuse_file_system \<Rightarrow> node_id \<Rightarrow> (node_meta, errno) result" where
  "fuse_metadata E s n = map_err errno_of (fs_metadata E (ff_filesystem s) n)"

section \<open>The gateway\<close>

definition fuse_broadcast ::
  "('t file_system \<Rightarrow> ('a tree_mutation, fs_error) result \<times> 't file_system) \<Rightarrow>
    't fuse_file_system \<Rightarrow> ('a, errno) result \<times> 't fuse_file_system"
where
  "fuse_broadcast mutation s =
     (case mutation (ff_filesystem s) of
        (Inl e, fs) \<Rightarrow> (Err (errno_of e), s\<lparr>ff_filesystem := fs\<rparr>)
      | (Inr changes, fs) \<Rightarrow>
          (let (result, sent) = tree_mutation_broadcast changes (ff_sent s)
           in (Ok result, s\<lparr>ff_filesystem := fs, ff_sent := sent\<rparr>)))"

text \<open>The loop over the fetched chunks.\<close>

fun cache_fetched :: "'t fs_env \<Rightarrow> bytes option list \<Rightarrow> bool \<Rightarrow> 't file_system \<Rightarrow> bool \<times> 't file_system" where
  "cache_fetched E [] all_fetched fs = (all_fetched, fs)"
| "cache_fetched E (Some data # rest) all_fetched fs = cache_fetched E rest all_fetched (fs_cache_chunk E data fs)"
| "cache_fetched E (None # rest) all_fetched fs = cache_fetched E rest False fs"

definition fuse_fetch_missing_chunks ::
  "'t fs_env \<Rightarrow> (nat \<Rightarrow> bytes option) \<Rightarrow> node_id \<Rightarrow> u64 \<Rightarrow> u64 \<Rightarrow> 't fuse_file_system \<Rightarrow>
    (bool, errno) result \<times> 't fuse_file_system"
where
  "fuse_fetch_missing_chunks E answers node_id offset len s =
     (case fs_missing_chunk_hashes_for E (ff_filesystem s) node_id offset len of
        Inl e \<Rightarrow> (Err (errno_of e), s)
      | Inr missing_hashes \<Rightarrow>
          (let fetched = map answers [0..<length missing_hashes];
               (all_fetched, fs) = cache_fetched E fetched True (ff_filesystem s)
           in (Ok all_fetched, s\<lparr>ff_filesystem := fs\<rparr>)))"

section \<open>Names\<close>

record entry_response =
  er_ttl :: nat
  er_attr :: file_attr
  er_generation :: u64

definition entry_response_new :: "file_attr \<Rightarrow> entry_response" where
  "entry_response_new attr = \<lparr>er_ttl = TTL, er_attr = attr, er_generation = GENERATION\<rparr>"

definition fuse_lookup ::
  "'t fs_env \<Rightarrow> inode_no \<Rightarrow> string \<Rightarrow> 't fuse_file_system \<Rightarrow> (entry_response, errno) result \<times> 't fuse_file_system"
where
  "fuse_lookup E parent_ino name s =
     ask (ino_to_node_id s parent_ino) (\<lambda>parent_id.
     ask (map_err errno_of (fs_child_id E (ff_filesystem s) parent_id name)) (\<lambda>node_id.
     ask (fuse_metadata E s node_id) (\<lambda>meta s.
       let (node_ino, s) = node_id_to_ino node_id s
       in (Ok (entry_response_new (to_attr meta node_ino)), s)))) s"

definition fuse_getattr ::
  "'t fs_env \<Rightarrow> inode_no \<Rightarrow> file_handle option \<Rightarrow> 't fuse_file_system \<Rightarrow>
    (file_attr, errno) result \<times> 't fuse_file_system"
where
  "fuse_getattr E node_ino fh s =
     (case (case fh of None \<Rightarrow> None | Some fh \<Rightarrow> ofm_metadata (ff_open_files s) fh) of
        Some meta \<Rightarrow> (Ok (to_attr meta node_ino), s)
      | None \<Rightarrow>
          ask (ino_to_node_id s node_ino) (\<lambda>node_id.
          ask (fuse_metadata E s node_id) (\<lambda>meta s. (Ok (to_attr meta node_ino), s))) s)"

text \<open>\<open>unsupported\<close> says that one of the ten attributes other than the size was given.\<close>

definition fuse_setattr ::
  "'t fs_env \<Rightarrow> nat option \<Rightarrow> inode_no \<Rightarrow> bool \<Rightarrow> u64 option \<Rightarrow> 't fuse_file_system \<Rightarrow>
    (file_attr, errno) result \<times> 't fuse_file_system"
where
  "fuse_setattr E now node_ino unsupported new_size s =
     (if unsupported then (Err ENOTSUP, s)
      else
        ask (ino_to_node_id s node_ino) (\<lambda>node_id.
        ask_st (case new_size of None \<Rightarrow> (\<lambda>s. (Ok (), s))
                | Some new_size \<Rightarrow> fuse_broadcast (fs_truncate_file E now node_id new_size)) (\<lambda>_ s.
        ask (fuse_metadata E s node_id) (\<lambda>meta s. (Ok (to_attr meta node_ino), s)) s)) s)"

text \<open>The entry a creation returns, with its inode number: the end of \<open>mkdir\<close> and \<open>symlink\<close>.\<close>

definition entry_created ::
  "fs_entry \<Rightarrow> 't fuse_file_system \<Rightarrow> (entry_response, errno) result \<times> 't fuse_file_system"
where
  "entry_created entry s =
     (let (node_ino, s) = node_id_to_ino (fe_node_id entry) s
      in (Ok (entry_response_new (to_attr (fe_meta entry) node_ino)), s))"

definition fuse_mkdir ::
  "'t fs_env \<Rightarrow> nat option \<Rightarrow> inode_no \<Rightarrow> string \<Rightarrow> 't fuse_file_system \<Rightarrow>
    (entry_response, errno) result \<times> 't fuse_file_system"
where
  "fuse_mkdir E now parent_ino name s =
     ask (ino_to_node_id s parent_ino) (\<lambda>parent_id.
     ask_st (fuse_broadcast (fs_create_directory E now parent_id name)) entry_created) s"

definition fuse_symlink ::
  "'t fs_env \<Rightarrow> nat option \<Rightarrow> inode_no \<Rightarrow> string \<Rightarrow> string \<Rightarrow> 't fuse_file_system \<Rightarrow>
    (entry_response, errno) result \<times> 't fuse_file_system"
where
  "fuse_symlink E now parent name target s =
     ask (ino_to_node_id s parent) (\<lambda>parent_id.
     ask_st (fuse_broadcast (fs_create_symlink E now parent_id name target)) entry_created) s"

definition fuse_rmdir ::
  "'t fs_env \<Rightarrow> nat option \<Rightarrow> inode_no \<Rightarrow> string \<Rightarrow> 't fuse_file_system \<Rightarrow> (unit, errno) result \<times> 't fuse_file_system"
where
  "fuse_rmdir E now parent_ino name s =
     ask (ino_to_node_id s parent_ino) (\<lambda>parent_id. fuse_broadcast (fs_delete_directory E now parent_id name)) s"

definition fuse_unlink ::
  "'t fs_env \<Rightarrow> nat option \<Rightarrow> inode_no \<Rightarrow> string \<Rightarrow> 't fuse_file_system \<Rightarrow> (unit, errno) result \<times> 't fuse_file_system"
where
  "fuse_unlink E now parent_ino name s =
     ask (ino_to_node_id s parent_ino) (\<lambda>parent_id. fuse_broadcast (fs_delete_file E now parent_id name)) s"

definition fuse_rename ::
  "'t fs_env \<Rightarrow> nat option \<Rightarrow> inode_no \<Rightarrow> string \<Rightarrow> inode_no \<Rightarrow> string \<Rightarrow> 't fuse_file_system \<Rightarrow>
    (unit, errno) result \<times> 't fuse_file_system"
where
  "fuse_rename E now parent_ino name new_parent_ino new_name s =
     ask (ino_to_node_id s parent_ino) (\<lambda>parent_id.
     ask (ino_to_node_id s new_parent_ino) (\<lambda>new_parent_id.
       fuse_broadcast (fs_rename E now parent_id name new_parent_id new_name))) s"

section \<open>Open files\<close>

definition fuse_create ::
  "'t fs_env \<Rightarrow> nat option \<Rightarrow> inode_no \<Rightarrow> string \<Rightarrow> 't fuse_file_system \<Rightarrow>
    (entry_response \<times> file_handle, errno) result \<times> 't fuse_file_system"
where
  "fuse_create E now parent_ino name s =
     ask (ino_to_node_id s parent_ino) (\<lambda>parent_id.
     ask_st (fuse_broadcast (fs_create_file E now parent_id name)) (\<lambda>entry s.
       let (node_ino, s) = node_id_to_ino (fe_node_id entry) s;
           (fh, s) = fuse_next_fh s;
           s = s\<lparr>ff_open_files := ofm_create_file fh (fe_meta entry) (ff_open_files s)\<rparr>
       in (Ok (entry_response_new (to_attr (fe_meta entry) node_ino), fh), s))) s"

definition fuse_open ::
  "'t fs_env \<Rightarrow> inode_no \<Rightarrow> 't fuse_file_system \<Rightarrow> (file_handle, errno) result \<times> 't fuse_file_system"
where
  "fuse_open E node_ino s =
     ask (ino_to_node_id s node_ino) (\<lambda>node_id.
     ask (fuse_metadata E s node_id) (\<lambda>meta s.
       case meta of
         RegularFile _ _ _ \<Rightarrow>
           (let (fh, s) = fuse_next_fh s
            in (Ok fh, s\<lparr>ff_open_files := ofm_open_file fh meta (ff_open_files s)\<rparr>))
       | Directory _ \<Rightarrow> (Err EISDIR, s)
       | Symlink _ _ \<Rightarrow> (Err EINVAL, s))) s"

definition fuse_opendir ::
  "'t fs_env \<Rightarrow> inode_no \<Rightarrow> 't fuse_file_system \<Rightarrow> (file_handle, errno) result \<times> 't fuse_file_system"
where
  "fuse_opendir E ino s =
     ask (ino_to_node_id s ino) (\<lambda>node_id.
     ask (fuse_metadata E s node_id) (\<lambda>meta s.
       case meta of
         Directory _ \<Rightarrow> (let (fh, s) = fuse_next_fh s in (Ok fh, s))
       | _ \<Rightarrow> (Err ENOTDIR, s))) s"

definition fuse_read ::
  "'t fs_env \<Rightarrow> (nat \<Rightarrow> bytes option) \<Rightarrow> inode_no \<Rightarrow> file_handle \<Rightarrow> u64 \<Rightarrow> 32 word \<Rightarrow> 't fuse_file_system \<Rightarrow>
    (bytes, errno) result \<times> 't fuse_file_system"
where
  "fuse_read E answers node_ino fh offset sz s =
     (case ofm_read (ff_open_files s) fh offset (ucast sz) of
        Some data \<Rightarrow> (Ok data, s)
      | None \<Rightarrow>
          ask (ino_to_node_id s node_ino) (\<lambda>node_id.
          ask_st (fuse_fetch_missing_chunks E answers node_id offset (ucast sz)) (\<lambda>all_fetched s.
            if \<not> all_fetched then (Err EIO, s)
            else
              (let (r, fs) = fs_read_file E node_id offset (ucast sz) (ff_filesystem s)
               in (map_err errno_of r, s\<lparr>ff_filesystem := fs\<rparr>)))) s)"

text \<open>The first part of \<open>write\<close>: the buffer is filled before the first write to an opened file.\<close>

definition fuse_fill_buffer ::
  "'t fs_env \<Rightarrow> (nat \<Rightarrow> bytes option) \<Rightarrow> inode_no \<Rightarrow> file_handle \<Rightarrow> 't fuse_file_system \<Rightarrow>
    (unit, errno) result \<times> 't fuse_file_system"
where
  "fuse_fill_buffer E answers node_ino fh s =
     ask (ofm_needs_buffer (ff_open_files s) fh) (\<lambda>needed s.
       if \<not> needed then (Ok (), s)
       else
         ask (ino_to_node_id s node_ino) (\<lambda>node.
         ask_st (fuse_fetch_missing_chunks E answers node 0 (- 1)) (\<lambda>all_fetched s.
           if \<not> all_fetched then (Err EIO, s)
           else
             (let (r, fs) = fs_read_file_all E node (ff_filesystem s); s = s\<lparr>ff_filesystem := fs\<rparr>
              in ask (map_err errno_of r) (\<lambda>buffer s.
                   (Ok (), s\<lparr>ff_open_files := ofm_set_buffer fh buffer (ff_open_files s)\<rparr>)) s))) s) s"

definition fuse_write ::
  "'t fs_env \<Rightarrow> (nat \<Rightarrow> bytes option) \<Rightarrow> inode_no \<Rightarrow> file_handle \<Rightarrow> u64 \<Rightarrow> bytes \<Rightarrow> 't fuse_file_system \<Rightarrow>
    (32 word, errno) result \<times> 't fuse_file_system"
where
  "fuse_write E answers node_ino fh offset data s =
     (if data = [] then (Ok 0, s)
      else
        ask_st (fuse_fill_buffer E answers node_ino fh) (\<lambda>_ s.
          let (r, files) = ofm_write fh offset data (ff_open_files s); s = s\<lparr>ff_open_files := files\<rparr>
          in ask r (\<lambda>written s. (Ok (ucast written), s)) s) s)"

definition fuse_release ::
  "'t fs_env \<Rightarrow> nat option \<Rightarrow> inode_no \<Rightarrow> file_handle \<Rightarrow> 't fuse_file_system \<Rightarrow>
    (unit, errno) result \<times> 't fuse_file_system"
where
  "fuse_release E now node_ino fh s =
     (case ofm_release_file fh (ff_open_files s) of
        (None, files) \<Rightarrow> (Ok (), s\<lparr>ff_open_files := files\<rparr>)
      | (Some buffer, files) \<Rightarrow>
          (let s = s\<lparr>ff_open_files := files\<rparr> in
           ask (ino_to_node_id s node_ino) (\<lambda>node s.
             if \<not> is_ok (fs_metadata E (ff_filesystem s) node) then (Ok (), s)
             else fuse_broadcast (fs_write_file E now node buffer) s) s))"

section \<open>Directories, links, statistics\<close>

record 'r directory_api =
  dr_new :: "usize \<Rightarrow> 'r"
  dr_add :: "inode_no \<Rightarrow> u64 \<Rightarrow> file_type \<Rightarrow> string \<Rightarrow> 'r \<Rightarrow> bool \<times> 'r"

text \<open>The two loops of \<open>readdir\<close>: numbering the children, and filling the reply until it is full.\<close>

fun number_children ::
  "(node_id \<times> string \<times> node_meta) list \<Rightarrow> 't fuse_file_system \<Rightarrow>
    (inode_no \<times> file_type \<times> string) list \<times> 't fuse_file_system"
where
  "number_children [] s = ([], s)"
| "number_children ((child_id, name, meta) # children) s =
     (let (child_ino, s) = node_id_to_ino child_id s; (rest, s) = number_children children s
      in ((child_ino, file_type_of meta, name) # rest, s))"

fun fill_reply :: "'r directory_api \<Rightarrow> nat \<Rightarrow> (inode_no \<times> file_type \<times> string) list \<Rightarrow> 'r \<Rightarrow> 'r" where
  "fill_reply D i [] reply = reply"
| "fill_reply D i ((child_ino, kind, name) # rest) reply =
     (let (full, reply) = dr_add D child_ino (of_nat (i + 1)) kind name reply
      in if full then reply else fill_reply D (i + 1) rest reply)"

definition fuse_readdir ::
  "'t fs_env \<Rightarrow> 'r directory_api \<Rightarrow> inode_no \<Rightarrow> 32 word \<Rightarrow> u64 \<Rightarrow> 't fuse_file_system \<Rightarrow>
    ('r, errno) result \<times> 't fuse_file_system"
where
  "fuse_readdir E D node_ino sz offset s =
     ask (ino_to_node_id s node_ino) (\<lambda>node_id.
     ask (map_err errno_of (fs_list_directory E (ff_filesystem s) node_id)) (\<lambda>children s.
       let parent_id = fs_parent_id E (ff_filesystem s) node_id;
           (parent_ino, s) = node_id_to_ino parent_id s;
           (entries, s) = number_children children s;
           all = [(node_ino, FtDirectory, ''.''), (parent_ino, FtDirectory, ''..'')] @ entries
       in (Ok (fill_reply D (unat offset) (drop (unat offset) all) (dr_new D (ucast sz))), s))) s"

definition fuse_readlink ::
  "'t fs_env \<Rightarrow> inode_no \<Rightarrow> 't fuse_file_system \<Rightarrow> (string, errno) result \<times> 't fuse_file_system"
where
  "fuse_readlink E ino s =
     ask (ino_to_node_id s ino) (\<lambda>node_id.
     ask (fuse_metadata E s node_id) (\<lambda>meta s.
       case meta of Symlink _ target \<Rightarrow> (Ok target, s) | _ \<Rightarrow> (Err EINVAL, s))) s"

record statfs_response =
  sf_blocks :: u64
  sf_bfree :: u64
  sf_bavail :: u64
  sf_files :: u64
  sf_ffree :: u64
  sf_bsize :: "32 word"
  sf_namelen :: "32 word"
  sf_frsize :: "32 word"

definition fuse_statfs :: "'t fuse_file_system \<Rightarrow> (statfs_response, errno) result" where
  "fuse_statfs s =
     (let block_size = ucast FUSE_BLOCK_SIZE_BYTES;
          total = div_ceil (fs_capacity_bytes (ff_filesystem s)) block_size;
          free = fs_free_bytes (ff_filesystem s) div block_size
      in Ok \<lparr>sf_blocks = total, sf_bfree = free, sf_bavail = free, sf_files = - 1, sf_ffree = - 1,
             sf_bsize = FUSE_BLOCK_SIZE_BYTES, sf_namelen = FUSE_MAX_NAME_LENGTH,
             sf_frsize = FUSE_BLOCK_SIZE_BYTES\<rparr>)"

text \<open>\<open>releasedir\<close> and \<open>access\<close> always succeed.\<close>

definition fuse_releasedir :: "inode_no \<Rightarrow> file_handle \<Rightarrow> 't fuse_file_system \<Rightarrow> (unit, errno) result \<times> 't fuse_file_system" where
  "fuse_releasedir ino fh s = (Ok (), s)"

definition fuse_access :: "inode_no \<Rightarrow> 't fuse_file_system \<Rightarrow> (unit, errno) result \<times> 't fuse_file_system" where
  "fuse_access ino s = (Ok (), s)"

end
