(* ===== verification/FuseFiles.thy ===== *)
theory FuseFiles
  imports Fuse
begin

text \<open>
  File data through the FUSE handlers: what a release makes of an open file's buffer, what a read
  returns when chunks have to be fetched first, and when it returns filler instead.
\<close>

section \<open>Caching fetched chunks\<close>

lemma lru_fit_all: "(\<Sum>(h, d)\<leftarrow>xs. length d) \<le> limit \<Longrightarrow> lru_fit limit xs = xs"
  by (cases xs) simp_all

text \<open>With room for it, a chunk is added to the cache and nothing is evicted.\<close>

lemma cache_with_room:
  assumes "storage_inv st" and "vec_ok (ch_data c)"
    and "cached_total st + length (ch_data c) \<le> unat (st_max_cached_bytes st)"
  defines "st' \<equiv> storage_cache c st"
  shows "storage_inv st'" and "st_max_cached_bytes st' = st_max_cached_bytes st"
    and "hget (st_chunks st') h = (case hget (st_chunks st) h of Some e \<Rightarrow> Some e
      | None \<Rightarrow> if h = ch_hash c then Some \<lparr>ent_data = ch_data c, ent_pinned = False\<rparr> else None)"
    and "cached_total st' \<le> cached_total st + length (ch_data c)"
proof -
  have core: "storage_core st" using assms(1) by (simp add: storage_inv_def)
  have "storage_inv st' \<and> st_max_cached_bytes st' = st_max_cached_bytes st \<and>
    (\<forall>h. hget (st_chunks st') h = (case hget (st_chunks st) h of Some e \<Rightarrow> Some e
      | None \<Rightarrow> if h = ch_hash c then Some \<lparr>ent_data = ch_data c, ent_pinned = False\<rparr> else None)) \<and>
    cached_total st' \<le> cached_total st + length (ch_data c)"
  proof (cases "storage_contains st (ch_hash c)")
    case True
    then have "st' = st" using storage_cache_skip [of st c] by (simp add: st'_def)
    with True assms(1) show ?thesis by (auto simp: storage_contains_def hcontains_def split: option.splits)
  next
    case False
    have fits: "length (ch_data c) \<le> unat (st_max_cached_bytes st)" using assms(3) by simp
    note eff = storage_cache_effect [OF assms(1,2) False fits, folded st'_def]
    have "cached_total st \<le> unat (st_max_cached_bytes st) - length (ch_data c)" using assms(3) by simp
    then have view: "cache_view st' = cache_view st @ [(ch_hash c, ch_data c)]"
      using eff(2) lru_fit_all [of "cache_view st"] cache_view_total [OF core] by simp
    from arg_cong [OF view, of "map fst"] have lru: "st_lru st' = st_lru st @ [ch_hash c]"
      by (simp add: cache_view_def comp_def)
    have core': "storage_core st'" using eff(1) by (simp add: storage_inv_def)
    have "cached_total st' = cached_total st + length (ch_data c)"
      using cache_view_total [OF core'] cache_view_total [OF core] view by simp
    moreover have "hget (st_chunks st) (ch_hash c) = None"
      using False by (simp add: storage_contains_def hcontains_def)
    ultimately show ?thesis using eff(1,3,5) lru by (auto split: option.splits)
  qed
  then show "storage_inv st'" "st_max_cached_bytes st' = st_max_cached_bytes st"
    "hget (st_chunks st') h = (case hget (st_chunks st) h of Some e \<Rightarrow> Some e
      | None \<Rightarrow> if h = ch_hash c then Some \<lparr>ent_data = ch_data c, ent_pinned = False\<rparr> else None)"
    "cached_total st' \<le> cached_total st + length (ch_data c)" by blast+
qed

lemma cache_chunk_inv:
  assumes "fs_inv E valid fs" and "vec_ok data"
  shows "fs_inv E valid (fs_cache_chunk E data fs)" and "fs_tree (fs_cache_chunk E data fs) = fs_tree fs"
  using storage_op_fs_inv [OF assms(1), of "CacheChunk (chunk_new (e_sha E) data)"] assms(2)
  by (simp_all add: fs_cache_chunk_def chunk_ok_def)

text \<open>Every fetched chunk is in the store afterwards, and nothing that was there is gone.\<close>

lemma cache_fetched_all:
  assumes "fs_inv E valid fs" and "\<forall>d \<in> set ds. vec_ok d"
    and "cached_total (fs_storage fs) + (\<Sum>d\<leftarrow>ds. length d) \<le> unat (st_max_cached_bytes (fs_storage fs))"
    and "cache_fetched E (map Some ds) all fs = (b, fs')"
  shows "b = all \<and> fs_inv E valid fs' \<and> fs_tree fs' = fs_tree fs \<and>
    (\<forall>h x. fs_look fs h = Some x \<longrightarrow> fs_look fs' h = Some x) \<and>
    (\<forall>d \<in> set ds. fs_look fs' (hash_of (e_sha E) d) \<noteq> None) \<and>
    (\<forall>h x. fs_look fs' h = Some x \<longrightarrow> fs_look fs h = Some x \<or> (x \<in> set ds \<and> h = hash_of (e_sha E) x))"
  using assms
proof (induction ds arbitrary: fs)
  case (Cons d ds)
  let ?c = "chunk_new (e_sha E) d" and ?fs = "fs_cache_chunk E d fs"
  have st: "fs_storage ?fs = storage_cache ?c (fs_storage fs)" by (simp add: fs_cache_chunk_def)
  have "vec_ok (ch_data ?c)" "cached_total (fs_storage fs) + length (ch_data ?c) \<le> unat (st_max_cached_bytes (fs_storage fs))"
    using Cons.prems(2,3) by simp_all
  note eff = cache_with_room [OF fs_inv_parts(2) [OF Cons.prems(1)] this, folded st]
  have look: "fs_look ?fs h = (case fs_look fs h of Some x \<Rightarrow> Some x
      | None \<Rightarrow> if h = hash_of (e_sha E) d then Some d else None)" for h
    using eff(3) [of h] by (auto simp: fs_look_def chunk_look_def split: option.splits)
  have inv: "fs_inv E valid ?fs" "fs_tree ?fs = fs_tree fs"
    using cache_chunk_inv [OF Cons.prems(1)] Cons.prems(2) by simp_all
  have room: "cached_total (fs_storage ?fs) + (\<Sum>d\<leftarrow>ds. length d) \<le> unat (st_max_cached_bytes (fs_storage ?fs))"
    using eff(2,4) Cons.prems(3) by simp
  have "fs_look ?fs (hash_of (e_sha E) d) \<noteq> None" by (simp add: look split: option.splits)
  with Cons.IH [OF inv(1) _ room] Cons.prems(2,4) inv(2) look show ?case
    by (auto split: option.splits) (metis option.distinct(1) option.inject)+
qed simp

lemma cache_fetched_failed: "None \<in> set ds \<Longrightarrow> fst (cache_fetched E ds all fs) = False"
proof (induction ds arbitrary: all fs)
  case (Cons d ds)
  have "fst (cache_fetched E ds False fs') = False" for fs'
    by (induction ds arbitrary: fs') (auto split: option.splits, metis cache_fetched.simps(2,3) option.exhaust)
  with Cons show ?case by (cases d) auto
qed simp

lemma ask_simps [simp]: "ask (Ok a) k s = k a s" "ask (Err e) k s = (Err e, s)"
  by (simp_all add: ask_def)

section \<open>Reading after a fetch\<close>

lemma fetch_missing_run:
  assumes "fs_missing_chunk_hashes_for E (ff_filesystem s) n off len = Ok hs"
    and "cache_fetched E (map answers [0..<length hs]) True (ff_filesystem s) = (b, fs')"
  shows "fuse_fetch_missing_chunks E answers n off len s = (Ok b, s\<lparr>ff_filesystem := fs'\<rparr>)"
  using assms by (simp add: fuse_fetch_missing_chunks_def Let_def)

lemma fuse_read_run:
  assumes "ofm_read (ff_open_files s) fh off (ucast sz) = None" and "ino_to_node_id s ino = Ok n"
    and "fs_missing_chunk_hashes_for E (ff_filesystem s) n off (ucast sz) = Ok hs"
    and "cache_fetched E (map answers [0..<length hs]) True (ff_filesystem s) = (b, fs')"
  shows "fst (fuse_read E answers ino fh off sz s) =
    (if b then map_err errno_of (fst (fs_read_file E n off (ucast sz) fs')) else Err EIO)"
  using assms fetch_missing_run [OF assms(3,4)]
  by (simp add: fuse_read_def ask_st_def split_def Let_def)

section \<open>A concrete mount\<close>

definition demo_mount :: "node_operation list file_system \<Rightarrow> open_files \<Rightarrow> node_operation list fuse_file_system" where
  "demo_mount fs files =
     \<lparr>ff_filesystem = fs, ff_inode_map = snd (get_or_assign_ino (NodeId 2) (inode_map_new 1)),
      ff_open_files = files, ff_next_fh = 9, ff_sent = []\<rparr>"

lemma demo_mount_simps [simp]:
  "ff_filesystem (demo_mount fs files) = fs" "ff_open_files (demo_mount fs files) = files"
  "ff_sent (demo_mount fs files) = []" "ino_to_node_id (demo_mount fs files) 2 = Ok (NodeId 2)"
  by (simp_all add: demo_mount_def ino_to_node_id_def get_node_id_def get_or_assign_ino_def inode_map_new_def
      ROOT_def from_uuid_def Let_def)

text \<open>The read when every missing chunk arrives and the cache has room for all.\<close>

text \<open>What FUSE can ask for at once fits a \<open>Vec\<close>.\<close>

lemma u32_length: "unat (ucast (sz :: 32 word) :: u64) < 2 ^ 32"
proof -
  have "unat sz < 2 ^ 32" using unsigned_less [of sz, where ?'a = nat] by simp
  then show ?thesis by (simp add: unsigned_ucast_eq take_bit_nat_eq_self)
qed

lemma u32_range: "min (unat off + unat (ucast (sz :: 32 word) :: u64)) b - unat off < 2 ^ 63"
  using u32_length [of sz] by simp

lemma fetched_read_value:
  assumes "fs_inv E valid (ff_filesystem s)" and "ofm_read (ff_open_files s) fh off (ucast sz) = None"
    and "ino_to_node_id s ino = Ok n" and "fs_metadata E (ff_filesystem s) n = Ok (RegularFile name fsz rs)"
    and "refs_total rs < 2 ^ 64" and "refs_sound true_data rs"
    and "\<forall>h d. fs_look (ff_filesystem s) h = Some d \<longrightarrow> true_data h = Some d"
    and "fs_missing_chunk_hashes_for E (ff_filesystem s) n off (ucast sz) = Ok hs"
    and "\<forall>i < length hs. \<forall>d. answers i = Some d \<longrightarrow>
      hash_of (e_sha E) d = hs ! i \<and> true_data (hs ! i) = Some d \<and> vec_ok d"
    and all: "(\<forall>i < length hs. answers i \<noteq> None) \<and>
     cached_total (fs_storage (ff_filesystem s)) + (\<Sum>i\<leftarrow>[0..<length hs]. length (the (answers i)))
       \<le> unat (st_max_cached_bytes (fs_storage (ff_filesystem s)))"
  shows "fst (fuse_read E answers ino fh off sz s) = Ok (subslice (file_bytes true_data rs) (unat off)
       (min (unat off + unat (ucast sz :: u64)) (unat fsz)))"
proof -
  let ?fs = "ff_filesystem s" and ?len = "ucast sz :: u64"
  obtain b fs' where c: "cache_fetched E (map answers [0..<length hs]) True ?fs = (b, fs')" by force
  note run = fuse_read_run [OF assms(2,3,8) c]
  let ?ds = "map (\<lambda>i. the (answers i)) [0..<length hs]"
  have some: "map answers [0..<length hs] = map Some ?ds" using all by auto
  have good: "hash_of (e_sha E) (the (answers i)) = hs ! i \<and> true_data (hs ! i) = Some (the (answers i)) \<and>
      vec_ok (the (answers i))" if "i < length hs" for i
    using that all assms(9) by auto
  have vec: "\<forall>d \<in> set ?ds. vec_ok d" using good by auto
  have room: "cached_total (fs_storage ?fs) + (\<Sum>d\<leftarrow>?ds. length d) \<le> unat (st_max_cached_bytes (fs_storage ?fs))"
    using all by (simp add: comp_def)
  from cache_fetched_all [OF assms(1) vec room c [unfolded some]] have
    b: "b" and inv: "fs_inv E valid fs'" and tree: "fs_tree fs' = fs_tree ?fs"
    and keep: "\<And>h x. fs_look ?fs h = Some x \<Longrightarrow> fs_look fs' h = Some x"
    and got: "\<And>d. d \<in> set ?ds \<Longrightarrow> fs_look fs' (hash_of (e_sha E) d) \<noteq> None"
    and only: "\<And>h x. fs_look fs' h = Some x \<Longrightarrow> fs_look ?fs h = Some x \<or> (x \<in> set ?ds \<and> h = hash_of (e_sha E) x)"
    by blast+
  have agree: "true_data h = Some x" if "fs_look fs' h = Some x" for h x
    using only [OF that]
  proof
    assume "x \<in> set ?ds \<and> h = hash_of (e_sha E) x"
    then obtain i where "i < length hs" "x = the (answers i)" "h = hash_of (e_sha E) x" by auto
    with good [of i] show ?thesis by simp
  qed (use assms(7) in blast)
  have sound: "refs_sound (fs_look fs') rs" using assms(6) agree by (auto simp: refs_sound_def)
  have m: "fs_metadata E fs' n = Ok (RegularFile name fsz rs)"
    using assms(4) tree by (auto simp: fs_metadata_Ok fs_find_def)
  let ?stop = "min (unat off + unat ?len) (unat fsz)"
  have hs: "hs = map (ref_hash \<circ> snd) (filter (\<lambda>x. span_hits (unat off) ?stop x \<and>
      \<not> storage_contains (fs_storage ?fs) (ref_hash (snd x))) (ref_spans 0 rs))"
    using missing_hashes_eq [OF assms(4,5), of off ?len] assms(8) by simp
  have held: "fs_look fs' (ref_hash (snd x)) \<noteq> None" if x: "x \<in> set (ref_spans 0 rs)" "span_hits (unat off) ?stop x" for x
  proof (cases "storage_contains (fs_storage ?fs) (ref_hash (snd x))")
    case True
    then obtain d where "fs_look ?fs (ref_hash (snd x)) = Some d"
      by (auto simp: fs_look_def chunk_look_def storage_contains_def hcontains_def)
    from keep [OF this] show ?thesis by simp
  next
    case False
    with x have "ref_hash (snd x) \<in> set hs" unfolding hs by auto
    then obtain i where i: "i < length hs" "hs ! i = ref_hash (snd x)" by (auto simp: in_set_conv_nth)
    then have "the (answers i) \<in> set ?ds" by auto
    from got [OF this] good [OF i(1)] i(2) show ?thesis by simp
  qed
  then have "\<forall>x \<in> set (ref_spans 0 rs). span_hits (0 + unat off) (0 + ?stop) x \<longrightarrow>
      fs_look fs' (ref_hash (snd x)) = true_data (ref_hash (snd x))"
    using agree by (metis add_0 option.exhaust)
  note same = subslice_file_bytes_cong [OF sound assms(6) this, unfolded add_0]
  have "\<not> read_panics (fs_look fs') (unat off) ?stop rs"
    using u32_range held by (rule complete_read_returns)
  note got_value = read_file_value [OF inv m sound assms(5) this]
  show "fst (fuse_read E answers ino fh off sz s) = Ok (subslice (file_bytes true_data rs) (unat off) ?stop)"
    using run b got_value same by simp
qed

text \<open>A chunk that does not fit beside the others evicts the oldest.\<close>

lemma oldest_evicted:
  assumes "fs_inv E valid fs" and "st_lru (fs_storage fs) = h # newer"
    and "\<not> storage_contains (fs_storage fs) (hash_of (e_sha E) db)" and "vec_ok db"
    and "length db \<le> unat (st_max_cached_bytes (fs_storage fs))"
    and "unat (st_max_cached_bytes (fs_storage fs)) < cached_total (fs_storage fs) + length db"
    and "h \<noteq> hash_of (e_sha E) db"
  shows "fs_look (fs_cache_chunk E db fs) h = None" and "fs_look (fs_cache_chunk E db fs) (hash_of (e_sha E) db) = Some db"
proof -
  let ?c = "chunk_new (e_sha E) db" and ?st = "fs_storage fs" and ?max = "unat (st_max_cached_bytes (fs_storage fs))"
  note inv = fs_inv_parts [OF assms(1)]
  have core: "storage_core ?st" using inv(2) by (simp add: storage_inv_def)
  have c: "\<not> storage_contains ?st (ch_hash ?c)" "vec_ok (ch_data ?c)" "length (ch_data ?c) \<le> ?max"
    using assms(3,4,5) by simp_all
  note eff = storage_cache_effect [OF inv(2) c(2,1,3)]
  have "cache_view ?st = (h, entry_data ?st h) # map (\<lambda>h. (h, entry_data ?st h)) newer"
    using assms(2) by (simp add: cache_view_def)
  moreover have "\<not> (\<Sum>(h, d)\<leftarrow>cache_view ?st. length d) \<le> ?max - length db"
    using cache_view_total [OF core] assms(5,6) by simp
  ultimately have fit: "lru_fit (?max - length db) (cache_view ?st) =
      lru_fit (?max - length db) (map (\<lambda>h. (h, entry_data ?st h)) newer)" by simp
  obtain old where "map (\<lambda>h. (h, entry_data ?st h)) newer = old @ lru_fit (?max - length db) (cache_view ?st)"
    using lru_fit_minimal [of "map (\<lambda>h. (h, entry_data ?st h)) newer" "?max - length db"] fit by metis
  from arg_cong [OF this, of "\<lambda>q. fst ` set q"] have
    sub: "fst ` set (lru_fit (?max - length db) (cache_view ?st)) \<subseteq> set newer" by (auto simp: image_Un image_image)
  have "h \<notin> set newer" using core assms(2) by (simp add: storage_core_def)
  with sub have "h \<notin> fst ` set (cache_view (storage_cache ?c ?st))" using assms(7) unfolding eff(2) by auto
  then have "h \<notin> set (st_lru (storage_cache ?c ?st))" by (auto simp: cache_view_def image_image)
  with eff(3) [of h] assms(2,7) show "fs_look (fs_cache_chunk E db fs) h = None"
    by (simp add: fs_look_def chunk_look_def fs_cache_chunk_def)
  show "fs_look (fs_cache_chunk E db fs) (hash_of (e_sha E) db) = Some db"
    using eff(3) [of "hash_of (e_sha E) db"] by (simp add: fs_look_def chunk_look_def fs_cache_chunk_def)
qed

text \<open>A mount whose cache is filled by one chunk of 16 MiB.\<close>

definition demo_big :: bytes where "demo_big = replicate (2 ^ 24) 1"

lemma demo_big_length: "length demo_big = 2 ^ 24"
  unfolding demo_big_def by (rule length_replicate)

lemma demo_big_hash: "ChunkHash demo_big \<noteq> ChunkHash [5]"
proof
  assume "ChunkHash demo_big = ChunkHash [5]"
  then have "length demo_big = length [5 :: byte]" by (simp only: chunk_hash.inject)
  then show False unfolding demo_big_length by simp
qed

lemma demo_full_cache:
  obtains s where "fs_inv demo_env ref_valid (ff_filesystem s)" "fs_metadata demo_env (ff_filesystem s) (NodeId 2) = Ok m"
    "ino_to_node_id s 2 = Ok (NodeId 2)" "ff_open_files s = []" "st_lru (fs_storage (ff_filesystem s)) = [ChunkHash demo_big]"
    "unat (st_max_cached_bytes (fs_storage (ff_filesystem s))) = 2 ^ 24" "cached_total (fs_storage (ff_filesystem s)) = 2 ^ 24"
    "fs_look (ff_filesystem s) (ChunkHash demo_big) = Some demo_big"
    "\<not> storage_contains (fs_storage (ff_filesystem s)) (ChunkHash [5])"
proof -
  have len: "length demo_big = 2 ^ 24" by (rule demo_big_length)
  define st where "st = \<lparr>st_chunks = [(ChunkHash demo_big, \<lparr>ent_data = demo_big, ent_pinned = False\<rparr>)], st_lru = [ChunkHash demo_big],
      st_pinned_bytes = 0, st_cached_bytes = 2 ^ 24, st_max_pinned_bytes = 1000, st_max_cached_bytes = MAX_CACHED_BYTES\<rparr>"
  obtain fs0 where inv0: "fs_inv demo_env ref_valid fs0" "fs_can_stamp (Some 6) fs0"
    and look0: "\<And>k. fs_find demo_env fs0 k = (if k = NodeId 2 then Some (ROOT, RegularFile ''a'' 0 []) else None)"
    by (rule demo_file) (rule that)
  have rep: "replica (e_replica demo_env) ref_valid" using ref.replica_axioms by simp
  have "fs_find demo_env fs0 (NodeId 2) = Some (ROOT, RegularFile ''a'' 0 [])" by (simp add: look0)
  from fs_replace_meta_effect [OF rep inv0 this, of m] obtain fs1 where
    inv1: "fs_inv demo_env ref_valid fs1" and look1: "fs_find demo_env fs1 (NodeId 2) = Some (ROOT, m)" by metis
  have max: "unat (st_max_cached_bytes st) = 2 ^ 24" and lru: "st_lru st = [ChunkHash demo_big]"
    by (simp_all add: st_def MAX_CACHED_BYTES_def FASTCDC_MAX_CHUNK_SIZE_def)
  have tot: "pinned_total st = 0" "cached_total st = 2 ^ 24"
    using len by (simp_all add: st_def pinned_total_def cached_total_def hsum_def pinned_len_def cached_len_def)
  have cached: "storage_is_cached st = (\<lambda>h. h = ChunkHash demo_big)" by (auto simp: st_def fun_eq_iff is_cached_iff hget_def)
  have "storage_inv st"
    unfolding storage_inv_def storage_core_def storage_limits_def tot max cached by (simp add: st_def hwf_def)
  moreover have "content_addressed (e_sha demo_env) st"
    by (auto simp: st_def content_addressed_def hget_def hash_of_def)
  ultimately have inv: "fs_inv demo_env ref_valid (fs1\<lparr>fs_storage := st\<rparr>)" using inv1 by (simp add: fs_inv_def)
  let ?s = "demo_mount (fs1\<lparr>fs_storage := st\<rparr>) []"
  have "NodeId 2 \<noteq> ROOT" by (simp add: ROOT_def from_uuid_def)
  then have m: "fs_metadata demo_env (ff_filesystem ?s) (NodeId 2) = Ok m" by (simp add: fs_metadata_Ok look1)
  have held: "fs_look (ff_filesystem ?s) (ChunkHash demo_big) = Some demo_big"
    by (simp add: st_def fs_look_def chunk_look_def hget_def)
  have absent: "\<not> storage_contains (fs_storage (ff_filesystem ?s)) (ChunkHash [5])"
    using demo_big_hash by (simp add: st_def storage_contains_def hcontains_def hget_def)
  show thesis by (rule that [of ?s]) (use inv m lru max tot held absent in simp_all)
qed

section \<open>Properties\<close>

text \<open>C24: Closing a file that was written makes its buffer the file's content: whatever the node's
  metadata was, one operation is broadcast, the handle is closed and the file then reads as the
  buffer. So a truncation done through \<open>setattr\<close> while the handle was dirty is undone. When the
  store is full the release reports \<open>ENOSPC\<close>, but the handle is closed all the same: the data
  written, which every \<open>write\<close> had acknowledged, is gone and the file keeps its old content.\<close>

theorem release_persists_buffer:
  assumes "replica (e_replica E) valid" and "fs_inv E valid (ff_filesystem s)" and "fs_can_stamp now (ff_filesystem s)"
    and "cdc_ok (e_cdc E)" and "vec_ok buffer" and "ino_to_node_id s ino = Ok n"
    and "fs_metadata E (ff_filesystem s) n = Ok (RegularFile name sz rs)"
    and "hget (ff_open_files s) fh = Some f" and "of_dirty f" and "of_buffer f = Some buffer"
    and "pin_addressable (fs_storage (ff_filesystem s)) (chunk_split (e_sha E) (e_cdc E) buffer)"
    and "collision_free (e_sha E) (fs_storage (ff_filesystem s)) (chunk_split (e_sha E) (e_cdc E) buffer)"
    and "fuse_release E now ino fh s = (r, s')"
  shows "hget (ff_open_files s') fh = None \<and>
    (if unat (st_max_pinned_bytes (fs_storage (ff_filesystem s))) < pinned_total (fs_storage (ff_filesystem s)) +
          required_bytes (fs_storage (ff_filesystem s)) (chunk_split (e_sha E) (e_cdc E) buffer)
     then r = Err ENOSPC \<and> ff_filesystem s' = ff_filesystem s \<and> ff_sent s' = ff_sent s
     else r = Ok () \<and> fst (fs_read_file_all E n (ff_filesystem s')) = Ok buffer \<and>
       fs_metadata E (ff_filesystem s') n =
         Ok (RegularFile name (vec_len buffer) (map chunk_reference (chunk_split (e_sha E) (e_cdc E) buffer))) \<and>
       (\<exists>x. ff_sent s' = ff_sent s @ [[x]] \<and> op_child x = n))"
proof -
  let ?fs = "ff_filesystem s" and ?cs = "chunk_split (e_sha E) (e_cdc E) buffer"
  let ?st = "fs_storage ?fs" and ?s = "s\<lparr>ff_open_files := hremove fh (ff_open_files s)\<rparr>"
  obtain w fs' where w: "fs_write_file E now n buffer ?fs = (w, fs')" by force
  have "ino_to_node_id ?s ino = Ok n" using assms(6) by (simp add: ino_to_node_id_def)
  then have run: "fuse_release E now ino fh s = fuse_broadcast (fs_write_file E now n buffer) ?s"
    using assms(6-10) by (simp add: fuse_release_def ofm_release_file_def Let_def)
  from write_file_effect [OF assms(1-3,7,11) w] consider
      (full) "w = Err StorageFull" "fs' = ?fs" "unat (st_max_pinned_bytes ?st) < pinned_total ?st + required_bytes ?st ?cs"
    | (written) x p st' where "w = Ok (tree_mutation_new () [x])" "op_child x = n" "p \<noteq> TRASH"
        "storage_try_pin ?cs ?st = (Ok (), st')" "fs_storage fs' = st'" "fs_inv E valid fs'"
        "\<forall>k. fs_find E fs' k = (if k = n then Some (p, RegularFile name (vec_len buffer) (map chunk_reference ?cs))
           else fs_find E ?fs k)"
    by blast
  then show ?thesis
  proof cases
    case full
    with assms(13) run w show ?thesis by (auto simp: fuse_broadcast_def)
  next
    case written
    have room: "\<not> unat (st_max_pinned_bytes ?st) < pinned_total ?st + required_bytes ?st ?cs"
      using written(4) try_pin_cases [OF fs_inv_parts(2) [OF assms(2)] assms(11)] by (auto split: if_splits)
    have "n \<noteq> ROOT" using assms(7) by (auto simp: fs_metadata_Ok)
    with written(3,7) have m: "fs_metadata E fs' n = Ok (RegularFile name (vec_len buffer) (map chunk_reference ?cs))"
      by (simp add: fs_metadata_Ok)
    note reads = written_file_reads(2) [OF assms(4,5,2,11,12) written(4) [folded written(5)] written(6) m]
    from run w written(1,2) assms(13) room m reads show ?thesis
      by (auto simp: fuse_broadcast_def tree_mutation_broadcast_def tree_mutation_new_def)
  qed
qed

text \<open>The witness is the lost truncation: the file has been cut to zero bytes behind the handle's
  back, and the release brings the buffer.\<close>

theorem release_persists_buffer_witness:
  "\<exists>s s' r. fs_metadata demo_env (ff_filesystem s) (NodeId 2) = Ok (RegularFile ''a'' 0 []) \<and>
    fuse_release demo_env (Some 6) 2 4 s = (r, s') \<and>
    fst (fs_read_file_all demo_env (NodeId 2) (ff_filesystem s')) = Ok [1, 2, 3]"
proof -
  let ?cs = "chunk_split (e_sha demo_env) (e_cdc demo_env) [1, 2, 3]"
  let ?f = "\<lparr>of_meta = RegularFile ''a'' 3 [], of_buffer = Some [1, 2, 3], of_dirty = True\<rparr>"
  obtain fs where fs: "fs_inv demo_env ref_valid fs" "fs_can_stamp (Some 6) fs" and st: "fs_storage fs = storage_new 1000"
    and look: "\<And>k. fs_find demo_env fs k = (if k = NodeId 2 then Some (ROOT, RegularFile ''a'' 0 []) else None)"
    by (rule demo_file) (rule that)
  let ?s = "demo_mount fs [(4, ?f)]"
  obtain r s' where rel: "fuse_release demo_env (Some 6) 2 4 ?s = (r, s')" by force
  have rep: "replica (e_replica demo_env) ref_valid" using ref.replica_axioms by simp
  have "NodeId 2 \<noteq> ROOT" by (simp add: ROOT_def from_uuid_def)
  then have m: "fs_metadata demo_env (ff_filesystem ?s) (NodeId 2) = Ok (RegularFile ''a'' 0 [])"
    by (simp add: fs_metadata_Ok look)
  have inv: "fs_inv demo_env ref_valid (ff_filesystem ?s)" "fs_can_stamp (Some 6) (ff_filesystem ?s)"
    "ino_to_node_id ?s 2 = Ok (NodeId 2)" and opened: "hget (ff_open_files ?s) 4 = Some ?f" "of_dirty ?f"
    "of_buffer ?f = Some [1, 2, 3]" using fs by (simp_all add: hget_def)
  have cdc: "cdc_ok (e_cdc demo_env)" and vec: "vec_ok [1, 2, 3 :: byte]"
    and pin: "pin_addressable (fs_storage (ff_filesystem ?s)) ?cs"
    and cf: "collision_free (e_sha demo_env) (fs_storage (ff_filesystem ?s)) ?cs"
    using demo_pin(1) [OF st] by (simp_all add: cdc_ok_fixed vec_ok_def collision_free_def)
  from release_persists_buffer [OF rep inv(1,2) cdc vec inv(3) m opened pin cf rel] demo_pin(2) [OF st]
  have "fst (fs_read_file_all demo_env (NodeId 2) (ff_filesystem s')) = Ok [1, 2, 3]" by simp
  with m rel show ?thesis by blast
qed

text \<open>C26: Reading a file through a handle without a buffer fetches what is missing first. When a
  chunk cannot be fetched the read fails with \<open>EIO\<close>. When every missing chunk arrives (with the
  data its hash names) and the cache has room for them all, the read returns exactly the slice of
  the file's true content, whatever part of it was stored here.\<close>

theorem fuse_read_fetches:
  assumes "fs_inv E valid (ff_filesystem s)" and "ofm_read (ff_open_files s) fh off (ucast sz) = None"
    and "ino_to_node_id s ino = Ok n" and "fs_metadata E (ff_filesystem s) n = Ok (RegularFile name fsz rs)"
    and "refs_total rs < 2 ^ 64" and "refs_sound true_data rs"
    and "\<forall>h d. fs_look (ff_filesystem s) h = Some d \<longrightarrow> true_data h = Some d"
    and "fs_missing_chunk_hashes_for E (ff_filesystem s) n off (ucast sz) = Ok hs"
    and "\<forall>i < length hs. \<forall>d. answers i = Some d \<longrightarrow>
      hash_of (e_sha E) d = hs ! i \<and> true_data (hs ! i) = Some d \<and> vec_ok d"
  shows "((\<exists>i < length hs. answers i = None) \<longrightarrow> fst (fuse_read E answers ino fh off sz s) = Err EIO) \<and>
    ((\<forall>i < length hs. answers i \<noteq> None) \<and>
     cached_total (fs_storage (ff_filesystem s)) + (\<Sum>i\<leftarrow>[0..<length hs]. length (the (answers i)))
       \<le> unat (st_max_cached_bytes (fs_storage (ff_filesystem s))) \<longrightarrow>
     fst (fuse_read E answers ino fh off sz s) = Ok (subslice (file_bytes true_data rs) (unat off)
       (min (unat off + unat (ucast sz :: u64)) (unat fsz))))"
proof (intro conjI impI)
  let ?fs = "ff_filesystem s" and ?len = "ucast sz :: u64"
  obtain b fs' where c: "cache_fetched E (map answers [0..<length hs]) True ?fs = (b, fs')" by force
  note run = fuse_read_run [OF assms(2,3,8) c]
  show "fst (fuse_read E answers ino fh off sz s) = Err EIO" if "\<exists>i < length hs. answers i = None"
  proof -
    from that have "None \<in> set (map answers [0..<length hs])" by force
    from cache_fetched_failed [OF this, of E True ?fs] c run show ?thesis by simp
  qed
qed (use fetched_read_value [OF assms] in blast)

text \<open>The witness reads a file none of whose chunks is stored.\<close>

theorem fuse_read_fetches_witness:
  "\<exists>s. fst (fuse_read demo_env (\<lambda>_. Some [1, 2, 3]) 2 4 1 9 s) = Ok [2, 3] \<and>
    \<not> storage_contains (fs_storage (ff_filesystem s)) (ChunkHash [1, 2, 3])"
proof -
  let ?rs = "[\<lparr>ref_hash = ChunkHash [1, 2, 3], ref_size = 3\<rparr> :: chunk_ref]"
  obtain fs0 where inv0: "fs_inv demo_env ref_valid fs0" "fs_can_stamp (Some 7) fs0"
    and m0: "fs_metadata demo_env fs0 (NodeId 2) = Ok (RegularFile ''a'' 3 ?rs)"
    by (rule demo_data) (rule that)
  let ?fs = "fs0\<lparr>fs_storage := storage_new 1000\<rparr>"
  let ?s = "demo_mount ?fs []" and ?ans = "\<lambda>i :: nat. Some [1, 2, 3 :: byte]"
  have inv: "fs_inv demo_env ref_valid (ff_filesystem ?s)"
    using inv0(1) storage_inv_new by (simp add: fs_inv_def content_addressed_def storage_new_def)
  have m: "fs_metadata demo_env (ff_filesystem ?s) (NodeId 2) = Ok (RegularFile ''a'' 3 ?rs)" using m0 by simp
  have closed: "ofm_read (ff_open_files ?s) 4 1 (ucast (9 :: 32 word)) = None" by (simp add: ofm_read_def)
  have known: "ino_to_node_id ?s 2 = Ok (NodeId 2)" by simp
  have none: "\<not> storage_contains (fs_storage ?fs) h" for h
    by (simp add: storage_contains_def hcontains_def storage_new_def)
  have miss: "fs_missing_chunk_hashes_for demo_env (ff_filesystem ?s) (NodeId 2) 1 (ucast (9 :: 32 word))
      = Ok [ChunkHash [1, 2, 3]]"
    using m none by (simp add: fs_missing_chunk_hashes_for_def saturating_add_def Let_def)
  let ?truth = "\<lambda>h :: chunk_hash. Some [1, 2, 3 :: byte]"
  have agree: "\<forall>h d. fs_look (ff_filesystem ?s) h = Some d \<longrightarrow> ?truth h = Some d"
    by (simp add: fs_look_def chunk_look_def storage_new_def)
  have sound: "refs_total ?rs < 2 ^ 64" "refs_sound ?truth ?rs" by (simp_all add: refs_sound_def)
  have ans: "\<forall>i < length [ChunkHash [1, 2, 3]]. \<forall>d. ?ans i = Some d \<longrightarrow> hash_of (e_sha demo_env) d = [ChunkHash [1, 2, 3]] ! i \<and>
      ?truth ([ChunkHash [1, 2, 3]] ! i) = Some d \<and> vec_ok d" by (simp add: hash_of_def vec_ok_def)
  have "cached_total (fs_storage ?fs) + (\<Sum>i\<leftarrow>[0..<length [ChunkHash [1, 2, 3]]]. length (the (?ans i)))
      \<le> unat (st_max_cached_bytes (fs_storage ?fs))"
    by (simp add: cached_total_def storage_new_def MAX_CACHED_BYTES_def FASTCDC_MAX_CHUNK_SIZE_def)
  with fuse_read_fetches [OF inv closed known m sound agree miss ans]
  have "fst (fuse_read demo_env ?ans 2 4 1 9 ?s) = Ok [2, 3]" by (simp add: ref_bytes_def subslice_def)
  with none show ?thesis by (intro exI [of _ ?s]) simp
qed

text \<open>The chunks a read needs are looked up, the missing ones cached, and the file read, in three
  steps; caching evicts the least recently used chunks, and looking a chunk up does not count as a
  use. So when a file's first chunk is the next to be evicted and its second one is missing and
  does not fit beside it, the fetch reports success and evicts the first: the read succeeds and
  returns zeros in its place, although every chunk was there or arrived.\<close>

theorem fuse_read_zero_fill:
  assumes "fs_inv E valid (ff_filesystem s)" and "ofm_read (ff_open_files s) fh 0 (ucast sz) = None"
    and "ino_to_node_id s ino = Ok n" and "fs_metadata E (ff_filesystem s) n = Ok (RegularFile name fsz [ra, rb])"
    and "st_lru (fs_storage (ff_filesystem s)) = ref_hash ra # newer"
    and "fs_look (ff_filesystem s) (ref_hash ra) = Some da" and "length da = unat (ref_size ra)"
    and "\<not> storage_contains (fs_storage (ff_filesystem s)) (ref_hash rb)"
    and "answers 0 = Some db" and "hash_of (e_sha E) db = ref_hash rb" and "length db = unat (ref_size rb)"
    and "vec_ok db" and "db \<noteq> []" and "length db \<le> unat (st_max_cached_bytes (fs_storage (ff_filesystem s)))"
    and "unat (st_max_cached_bytes (fs_storage (ff_filesystem s))) < cached_total (fs_storage (ff_filesystem s)) + length db"
    and "unat fsz = length da + length db" and "length da + length db \<le> unat (ucast sz :: u64)"
  shows "fst (fuse_read E answers ino fh 0 sz s) = Ok (replicate (length da) 0 @ db)"
proof -
  let ?fs = "ff_filesystem s" and ?len = "ucast sz :: u64"
  let ?st = "fs_storage ?fs" and ?fs' = "fs_cache_chunk E db ?fs"
  have total: "refs_total [ra, rb] < 2 ^ 64" using assms(7,11,16) unat_lt_2_64 [of fsz] by simp
  have held: "storage_contains ?st (ref_hash ra)"
    using assms(6) by (auto simp: fs_look_def chunk_look_def storage_contains_def hcontains_def)
  have ne: "ref_hash ra \<noteq> ref_hash rb" using held assms(8) by auto
  have stop: "min (unat (0 :: u64) + unat ?len) (unat fsz) = length da + length db" using assms(16,17) by simp
  have "0 < unat (ref_size rb)" using assms(11,13) by (metis length_greater_0_conv)
  then have hits: "span_hits 0 (length da + length db) (unat (ref_size ra), rb)"
    using assms(7,11) by (simp add: span_hits_def)
  have miss: "fs_missing_chunk_hashes_for E ?fs n 0 ?len = Ok [ref_hash rb]"
    unfolding missing_hashes_eq [OF assms(4) total] stop using assms(8) held hits by simp
  have "cache_fetched E (map answers [0..<length [ref_hash rb]]) True ?fs = (True, ?fs')"
    using assms(9) by simp
  note run = fuse_read_run [OF assms(2,3) miss this]
  have inv': "fs_inv E valid ?fs'" by (rule cache_chunk_inv(1) [OF assms(1,12)])
  note evicted = oldest_evicted [OF assms(1,5) _ assms(12,14,15), unfolded assms(10), OF assms(8) ne]
  have sound: "refs_sound (fs_look ?fs') [ra, rb]" using evicted assms(11) by (simp add: refs_sound_def)
  have m: "fs_metadata E ?fs' n = Ok (RegularFile name fsz [ra, rb])"
    using assms(4) by (simp add: fs_cache_chunk_def)
  have bytes: "file_bytes (fs_look ?fs') [ra, rb] = replicate (length da) 0 @ db"
    using evicted assms(7,11) by (simp add: ref_bytes_def)
  have "length da + length db < 2 ^ 63" using assms(17) u32_length [of sz] by simp
  then have "\<not> read_panics (fs_look ?fs') (unat (0 :: u64)) (min (unat (0 :: u64) + unat ?len) (unat fsz)) [ra, rb]"
    unfolding stop using assms(7,11) by (intro small_read_returns) auto
  note got_value = read_file_value [OF inv' m sound total this]
  have "fst (fs_read_file E n 0 ?len ?fs') = Ok (subslice (replicate (length da) 0 @ db) 0 (length da + length db))"
    using got_value stop unfolding bytes by simp
  then show ?thesis using run subslice_all [of "replicate (length da) 0 @ db"] by simp
qed

text \<open>A file of the 16 MiB that fill the cache and one more byte.\<close>

theorem fuse_read_zero_fill_witness:
  "\<exists>s. fs_look (ff_filesystem s) (ChunkHash demo_big) = Some demo_big \<and>
    fst (fuse_read demo_env (\<lambda>_. Some [5]) 2 4 0 (2 ^ 25) s) = Ok (replicate (2 ^ 24) 0 @ [5])"
proof -
  let ?ra = "\<lparr>ref_hash = ChunkHash demo_big, ref_size = 2 ^ 24\<rparr> :: chunk_ref"
    and ?rb = "\<lparr>ref_hash = ChunkHash [5], ref_size = 1\<rparr> :: chunk_ref"
  obtain s where s: "fs_inv demo_env ref_valid (ff_filesystem s)"
    "fs_metadata demo_env (ff_filesystem s) (NodeId 2) = Ok (RegularFile ''a'' (2 ^ 24 + 1) [?ra, ?rb])"
    "ino_to_node_id s 2 = Ok (NodeId 2)" "ff_open_files s = []" "st_lru (fs_storage (ff_filesystem s)) = [ChunkHash demo_big]"
    "unat (st_max_cached_bytes (fs_storage (ff_filesystem s))) = 2 ^ 24" "cached_total (fs_storage (ff_filesystem s)) = 2 ^ 24"
    "fs_look (ff_filesystem s) (ChunkHash demo_big) = Some demo_big"
    "\<not> storage_contains (fs_storage (ff_filesystem s)) (ChunkHash [5])" by (rule demo_full_cache)
  have closed: "ofm_read (ff_open_files s) 4 0 (ucast (2 ^ 25 :: 32 word)) = None" by (simp add: s(4) ofm_read_def)
  have size: "unat (16777217 :: u64) = 16777217" by simp
  have "fst (fuse_read demo_env (\<lambda>_. Some [5]) 2 4 0 (2 ^ 25) s) = Ok (replicate (length demo_big) 0 @ [5])"
    by (rule fuse_read_zero_fill [of demo_env ref_valid s 4 _ 2 _ _ "2 ^ 24 + 1" ?ra ?rb "[]" demo_big])
      (use s closed size in \<open>simp_all add: demo_big_length hash_of_def vec_ok_def\<close>)
  with s(8) show ?thesis unfolding demo_big_length by (intro exI [of _ s]) simp
qed

end
