(* ===== verification/FuseSteps.thy ===== *)
theory FuseSteps
  imports FuseFiles
begin

text \<open>
  The FUSE handlers of \<open>src/src/fuse/mod.rs\<close> and \<open>gateway.rs\<close> as tasks that run side by side. A request
  runs until it waits for the network or is between two acquisitions of the file system's lock; what it has
  left to do is its \<open>fuse_task\<close>. Between two steps of a task any other task, the bridge and the dispatcher
  may run.

  Theory Fuse has each handler as one function. Here it is shown that a request nobody interrupts
  does exactly that; what interruptions can do is the subject of the theories FuseRuns and Program.
\<close>

section \<open>Requests and replies\<close>

datatype fuse_request =
    ReqLookup inode_no string
  | ReqGetattr inode_no "file_handle option"
  | ReqSetattr inode_no bool "u64 option"
  | ReqMkdir inode_no string
  | ReqSymlink inode_no string string
  | ReqRmdir inode_no string
  | ReqUnlink inode_no string
  | ReqRename inode_no string inode_no string
  | ReqCreate inode_no string
  | ReqOpen inode_no
  | ReqOpendir inode_no
  | ReqReaddir inode_no "32 word" u64
  | ReqRead inode_no file_handle u64 "32 word"
  | ReqWrite inode_no file_handle u64 bytes
  | ReqRelease inode_no file_handle
  | ReqReadlink inode_no
  | ReqStatfs
  | ReqReleasedir inode_no file_handle
  | ReqAccess inode_no

datatype 'r fuse_reply =
    REntry entry_response
  | RAttr file_attr
  | RUnit
  | RCreated entry_response file_handle
  | ROpened file_handle
  | RDirectory 'r
  | RData bytes
  | RWritten "32 word"
  | RLink string
  | RStatfs statfs_response

definition map_ok :: "('a \<Rightarrow> 'b) \<Rightarrow> ('a, 'e) result \<times> 's \<Rightarrow> ('b, 'e) result \<times> 's" where
  "map_ok f x = (case x of (Inl e, s) \<Rightarrow> (Err e, s) | (Inr a, s) \<Rightarrow> (Ok (f a), s))"

text \<open>The trait's methods: each request goes to its handler.\<close>

fun fuse_handle ::
  "'t fs_env \<Rightarrow> 'r directory_api \<Rightarrow> nat option \<Rightarrow> (nat \<Rightarrow> bytes option) \<Rightarrow> fuse_request \<Rightarrow>
    't fuse_file_system \<Rightarrow> ('r fuse_reply, errno) result \<times> 't fuse_file_system"
where
  "fuse_handle E D now answers (ReqLookup p name) s = map_ok REntry (fuse_lookup E p name s)"
| "fuse_handle E D now answers (ReqGetattr ino fh) s = map_ok RAttr (fuse_getattr E ino fh s)"
| "fuse_handle E D now answers (ReqSetattr ino unsupported sz) s = map_ok RAttr (fuse_setattr E now ino unsupported sz s)"
| "fuse_handle E D now answers (ReqMkdir p name) s = map_ok REntry (fuse_mkdir E now p name s)"
| "fuse_handle E D now answers (ReqSymlink p name target) s = map_ok REntry (fuse_symlink E now p name target s)"
| "fuse_handle E D now answers (ReqRmdir p name) s = map_ok (\<lambda>_. RUnit) (fuse_rmdir E now p name s)"
| "fuse_handle E D now answers (ReqUnlink p name) s = map_ok (\<lambda>_. RUnit) (fuse_unlink E now p name s)"
| "fuse_handle E D now answers (ReqRename p name p' name') s = map_ok (\<lambda>_. RUnit) (fuse_rename E now p name p' name' s)"
| "fuse_handle E D now answers (ReqCreate p name) s = map_ok (\<lambda>(e, fh). RCreated e fh) (fuse_create E now p name s)"
| "fuse_handle E D now answers (ReqOpen ino) s = map_ok ROpened (fuse_open E ino s)"
| "fuse_handle E D now answers (ReqOpendir ino) s = map_ok ROpened (fuse_opendir E ino s)"
| "fuse_handle E D now answers (ReqReaddir ino sz off) s = map_ok RDirectory (fuse_readdir E D ino sz off s)"
| "fuse_handle E D now answers (ReqRead ino fh off sz) s = map_ok RData (fuse_read E answers ino fh off sz s)"
| "fuse_handle E D now answers (ReqWrite ino fh off data) s = map_ok RWritten (fuse_write E answers ino fh off data s)"
| "fuse_handle E D now answers (ReqRelease ino fh) s = map_ok (\<lambda>_. RUnit) (fuse_release E now ino fh s)"
| "fuse_handle E D now answers (ReqReadlink ino) s = map_ok RLink (fuse_readlink E ino s)"
| "fuse_handle E D now answers ReqStatfs s = map_ok RStatfs (fuse_statfs s, s)"
| "fuse_handle E D now answers (ReqReleasedir ino fh) s = map_ok (\<lambda>_. RUnit) (fuse_releasedir ino fh s)"
| "fuse_handle E D now answers (ReqAccess ino) s = map_ok (\<lambda>_. RUnit) (fuse_access ino s)"

section \<open>Tasks\<close>

text \<open>What follows a broadcast, and what follows a fetch.\<close>

datatype after_send =
    AfterUnit
  | AfterEntry fs_entry
  | AfterCreate fs_entry
  | AfterSetattr inode_no node_id

datatype after_fetch =
    ThenRead node_id u64 u64
  | ThenFill node_id file_handle u64 bytes

text \<open>Waiting to hand operations to the bridge; waiting for chunks; holding the chunks that came, those
  still to be cached and whether none is missing; holding the content for a handle's buffer; about to
  write to the buffer; holding the buffer of a handle just released, before and after the node was
  looked up.\<close>

datatype fuse_task =
    Sending "node_operation list" after_send
  | Awaiting "chunk_hash list" after_fetch
  | Caching "bytes option list" bool after_fetch
  | Filling file_handle bytes u64 bytes
  | Writing file_handle u64 bytes
  | Releasing inode_no bytes
  | WritingBack node_id bytes

datatype 'r fuse_outcome = Done "('r fuse_reply, errno) result" | Pending fuse_task

definition stop :: "('r fuse_reply, errno) result \<times> 's \<Rightarrow> 'r fuse_outcome \<times> 's" where
  "stop x = (case x of (r, s) \<Rightarrow> (Done r, s))"

text \<open>The \<open>?\<close> operator of a task, and the first half of \<open>broadcast\<close>.\<close>

definition ask_task :: "('a, errno) result \<Rightarrow> ('a \<Rightarrow> 's \<Rightarrow> 'r fuse_outcome \<times> 's) \<Rightarrow> 's \<Rightarrow> 'r fuse_outcome \<times> 's" where
  "ask_task r k s = (case r of Inl e \<Rightarrow> (Done (Err e), s) | Inr a \<Rightarrow> k a s)"

definition mutate_task ::
  "('t file_system \<Rightarrow> ('a tree_mutation, fs_error) result \<times> 't file_system) \<Rightarrow> ('a \<Rightarrow> after_send) \<Rightarrow>
    't fuse_file_system \<Rightarrow> 'r fuse_outcome \<times> 't fuse_file_system"
where
  "mutate_task mutation after s =
     (case mutation (ff_filesystem s) of
        (Inl e, fs) \<Rightarrow> (Done (Err (errno_of e)), s\<lparr>ff_filesystem := fs\<rparr>)
      | (Inr changes, fs) \<Rightarrow>
          (Pending (Sending (tm_operations changes) (after (tm_result changes))), s\<lparr>ff_filesystem := fs\<rparr>))"

definition fetch_task ::
  "'t fs_env \<Rightarrow> node_id \<Rightarrow> u64 \<Rightarrow> u64 \<Rightarrow> after_fetch \<Rightarrow> 't fuse_file_system \<Rightarrow> 'r fuse_outcome \<times> 't fuse_file_system"
where
  "fetch_task E node_id offset len k s =
     (case fs_missing_chunk_hashes_for E (ff_filesystem s) node_id offset len of
        Inl e \<Rightarrow> (Done (Err (errno_of e)), s)
      | Inr missing_hashes \<Rightarrow> (Pending (Awaiting missing_hashes k), s))"

text \<open>A request begins. Those that neither wait nor take the lock twice are over at once.\<close>

fun fuse_start ::
  "'t fs_env \<Rightarrow> 'r directory_api \<Rightarrow> nat option \<Rightarrow> fuse_request \<Rightarrow> 't fuse_file_system \<Rightarrow>
    'r fuse_outcome \<times> 't fuse_file_system"
where
  "fuse_start E D now (ReqSetattr ino unsupported new_size) s =
     (if unsupported then (Done (Err ENOTSUP), s)
      else
        ask_task (ino_to_node_id s ino) (\<lambda>node_id s.
          case new_size of
            None \<Rightarrow> stop (map_ok RAttr (ask (fuse_metadata E s node_id) (\<lambda>meta s. (Ok (to_attr meta ino), s)) s))
          | Some new_size \<Rightarrow> mutate_task (fs_truncate_file E now node_id new_size) (\<lambda>_. AfterSetattr ino node_id) s) s)"
| "fuse_start E D now (ReqMkdir p name) s =
     ask_task (ino_to_node_id s p) (\<lambda>parent_id. mutate_task (fs_create_directory E now parent_id name) AfterEntry) s"
| "fuse_start E D now (ReqSymlink p name target) s =
     ask_task (ino_to_node_id s p) (\<lambda>parent_id. mutate_task (fs_create_symlink E now parent_id name target) AfterEntry) s"
| "fuse_start E D now (ReqRmdir p name) s =
     ask_task (ino_to_node_id s p) (\<lambda>parent_id. mutate_task (fs_delete_directory E now parent_id name) (\<lambda>_. AfterUnit)) s"
| "fuse_start E D now (ReqUnlink p name) s =
     ask_task (ino_to_node_id s p) (\<lambda>parent_id. mutate_task (fs_delete_file E now parent_id name) (\<lambda>_. AfterUnit)) s"
| "fuse_start E D now (ReqRename p name p' name') s =
     ask_task (ino_to_node_id s p) (\<lambda>parent_id.
     ask_task (ino_to_node_id s p') (\<lambda>new_parent_id.
       mutate_task (fs_rename E now parent_id name new_parent_id name') (\<lambda>_. AfterUnit))) s"
| "fuse_start E D now (ReqCreate p name) s =
     ask_task (ino_to_node_id s p) (\<lambda>parent_id. mutate_task (fs_create_file E now parent_id name) AfterCreate) s"
| "fuse_start E D now (ReqRead ino fh offset sz) s =
     (case ofm_read (ff_open_files s) fh offset (ucast sz) of
        Some data \<Rightarrow> (Done (Ok (RData data)), s)
      | None \<Rightarrow>
          ask_task (ino_to_node_id s ino) (\<lambda>node_id.
            fetch_task E node_id offset (ucast sz) (ThenRead node_id offset (ucast sz))) s)"
| "fuse_start E D now (ReqWrite ino fh offset data) s =
     (if data = [] then (Done (Ok (RWritten 0)), s)
      else
        ask_task (ofm_needs_buffer (ff_open_files s) fh) (\<lambda>needed s.
          if \<not> needed then (Pending (Writing fh offset data), s)
          else
            ask_task (ino_to_node_id s ino) (\<lambda>node.
              fetch_task E node 0 (- 1) (ThenFill node fh offset data)) s) s)"
| "fuse_start E D now (ReqRelease ino fh) s =
     (case ofm_release_file fh (ff_open_files s) of
        (None, files) \<Rightarrow> (Done (Ok RUnit), s\<lparr>ff_open_files := files\<rparr>)
      | (Some buffer, files) \<Rightarrow> (Pending (Releasing ino buffer), s\<lparr>ff_open_files := files\<rparr>))"
| "fuse_start E D now req s = stop (fuse_handle E D now (\<lambda>_. None) req s)"

text \<open>The end of a request after its operations were handed over.\<close>

fun after_sending ::
  "'t fs_env \<Rightarrow> after_send \<Rightarrow> 't fuse_file_system \<Rightarrow> ('r fuse_reply, errno) result \<times> 't fuse_file_system"
where
  "after_sending E AfterUnit s = (Ok RUnit, s)"
| "after_sending E (AfterEntry entry) s = map_ok REntry (entry_created entry s)"
| "after_sending E (AfterCreate entry) s =
     (let (node_ino, s) = node_id_to_ino (fe_node_id entry) s; (fh, s) = fuse_next_fh s;
          s = s\<lparr>ff_open_files := ofm_create_file fh (fe_meta entry) (ff_open_files s)\<rparr>
      in (Ok (RCreated (entry_response_new (to_attr (fe_meta entry) node_ino)) fh), s))"
| "after_sending E (AfterSetattr ino node_id) s =
     map_ok RAttr (ask (fuse_metadata E s node_id) (\<lambda>meta s. (Ok (to_attr meta ino), s)) s)"

text \<open>All chunks have come and were cached: \<open>read\<close> ends, \<open>write\<close> holds the content for the buffer.\<close>

fun after_fetching ::
  "'t fs_env \<Rightarrow> after_fetch \<Rightarrow> 't fuse_file_system \<Rightarrow> 'r fuse_outcome \<times> 't fuse_file_system"
where
  "after_fetching E (ThenRead node_id offset len) s =
     (let (r, fs) = fs_read_file E node_id offset len (ff_filesystem s)
      in stop (map_ok RData (map_err errno_of r, s\<lparr>ff_filesystem := fs\<rparr>)))"
| "after_fetching E (ThenFill node fh offset data) s =
     (let (r, fs) = fs_read_file_all E node (ff_filesystem s)
      in ask_task (map_err errno_of r) (\<lambda>buffer s. (Pending (Filling fh buffer offset data), s)) (s\<lparr>ff_filesystem := fs\<rparr>))"

text \<open>One step of a task; \<open>answers\<close> gives what the fetches of a waiting task returned.\<close>

fun fuse_resume ::
  "'t fs_env \<Rightarrow> nat option \<Rightarrow> (nat \<Rightarrow> bytes option) \<Rightarrow> fuse_task \<Rightarrow> 't fuse_file_system \<Rightarrow>
    'r fuse_outcome \<times> 't fuse_file_system"
where
  "fuse_resume E now answers (Sending operations k) s =
     stop (after_sending E k (s\<lparr>ff_sent := ff_sent s @ [operations]\<rparr>))"
| "fuse_resume E now answers (Awaiting hashes k) s = (Pending (Caching (map answers [0..<length hashes]) True k), s)"
| "fuse_resume E now answers (Caching (Some data # rest) all_fetched k) s =
     (Pending (Caching rest all_fetched k), s\<lparr>ff_filesystem := fs_cache_chunk E data (ff_filesystem s)\<rparr>)"
| "fuse_resume E now answers (Caching (None # rest) all_fetched k) s = (Pending (Caching rest False k), s)"
| "fuse_resume E now answers (Caching [] all_fetched k) s =
     (if \<not> all_fetched then (Done (Err EIO), s) else after_fetching E k s)"
| "fuse_resume E now answers (Filling fh buffer offset data) s =
     (Pending (Writing fh offset data), s\<lparr>ff_open_files := ofm_set_buffer fh buffer (ff_open_files s)\<rparr>)"
| "fuse_resume E now answers (Writing fh offset data) s =
     (let (r, files) = ofm_write fh offset data (ff_open_files s)
      in stop (map_ok RWritten (ask r (\<lambda>written s. (Ok (ucast written), s)) (s\<lparr>ff_open_files := files\<rparr>))))"
| "fuse_resume E now answers (Releasing ino buffer) s =
     ask_task (ino_to_node_id s ino) (\<lambda>node s.
       if \<not> is_ok (fs_metadata E (ff_filesystem s) node) then (Done (Ok RUnit), s)
       else (Pending (WritingBack node buffer), s)) s"
| "fuse_resume E now answers (WritingBack node buffer) s =
     mutate_task (fs_write_file E now node buffer) (\<lambda>_. AfterUnit) s"

section \<open>A request that is not interrupted\<close>

definition task_weight :: "fuse_task \<Rightarrow> nat" where
  "task_weight t = (case t of
     Sending _ _ \<Rightarrow> 1 | Writing _ _ _ \<Rightarrow> 1 | Filling _ _ _ _ \<Rightarrow> 2 | Caching xs _ _ \<Rightarrow> 3 + length xs
   | Awaiting hs _ \<Rightarrow> 4 + length hs | WritingBack _ _ \<Rightarrow> 2 | Releasing _ _ \<Rightarrow> 3)"

text \<open>Every step of a task brings it closer to its end.\<close>

lemma resume_progress: "fuse_resume E now answers t s = (Pending t', s') \<Longrightarrow> task_weight t' < task_weight t"
proof (induction E now answers t s rule: fuse_resume.induct)
  case (5 E now answers all_fetched k s)
  then show ?case
    by (cases k) (auto simp: task_weight_def ask_task_def stop_def map_ok_def Let_def split: if_splits prod.splits sum.splits)
qed (auto simp: task_weight_def stop_def map_ok_def ask_task_def mutate_task_def Let_def
    split: prod.splits sum.splits if_splits)

function fuse_finish ::
  "'t fs_env \<Rightarrow> nat option \<Rightarrow> (nat \<Rightarrow> bytes option) \<Rightarrow> 'r fuse_outcome \<times> 't fuse_file_system \<Rightarrow>
    ('r fuse_reply, errno) result \<times> 't fuse_file_system"
where
  "fuse_finish E now answers (Done r, s) = (r, s)"
| "fuse_finish E now answers (Pending t, s) = fuse_finish E now answers (fuse_resume E now answers t s)"
  by pat_completeness auto
termination
  by (relation "measure (\<lambda>(_, _, _, out, _). case out of Done _ \<Rightarrow> 0 | Pending t \<Rightarrow> Suc (task_weight t))")
    (auto split: fuse_outcome.split prod.split dest: resume_progress simp: less_Suc_eq)

lemma finish_stop [simp]: "fuse_finish E now answers (stop x) = x"
  by (cases x) (simp add: stop_def)

lemma finish_ask:
  "fuse_finish E now answers (ask_task r k s) = ask r (\<lambda>a s. fuse_finish E now answers (k a s)) s"
  by (cases r) (simp_all add: ask_task_def ask_def)

lemma finish_mutate:
  "fuse_finish E now answers (mutate_task mutation after s) =
    ask_st (fuse_broadcast mutation) (\<lambda>a. after_sending E (after a)) s"
  by (auto simp: mutate_task_def fuse_broadcast_def ask_st_def tree_mutation_broadcast_def
      simp del: fuse_resume.simps(1) split: prod.split sum.split) (simp_all)

lemma finish_caching:
  "fuse_finish E now answers (Pending (Caching xs all_fetched k), s) =
    (case cache_fetched E xs all_fetched (ff_filesystem s) of (b, fs) \<Rightarrow>
       if b then fuse_finish E now answers (after_fetching E k (s\<lparr>ff_filesystem := fs\<rparr>))
       else (Err EIO, s\<lparr>ff_filesystem := fs\<rparr>))"
proof (induction E xs all_fetched "ff_filesystem s" arbitrary: s rule: cache_fetched.induct)
  case (1 E all_fetched)
  then show ?case by simp
next
  case (2 E data rest all_fetched)
  from 2 [of "s\<lparr>ff_filesystem := fs_cache_chunk E data (ff_filesystem s)\<rparr>"] show ?case by (simp split: prod.split)
next
  case (3 E rest all_fetched)
  from 3 [of s] show ?case by simp
qed

lemma finish_awaiting:
  "fuse_finish E now answers (Pending (Awaiting hs k), s) =
    fuse_finish E now answers (Pending (Caching (map answers [0..<length hs]) True k), s)"
  by (simp only: fuse_finish.simps(2) fuse_resume.simps(2))

lemma finish_fetch:
  "fuse_finish E now answers (fetch_task E node_id offset len k s) =
    ask_st (fuse_fetch_missing_chunks E answers node_id offset len)
      (\<lambda>all_fetched s. if \<not> all_fetched then (Err EIO, s) else fuse_finish E now answers (after_fetching E k s)) s"
  by (auto simp: fetch_task_def fuse_fetch_missing_chunks_def ask_st_def finish_awaiting finish_caching Let_def
      simp del: fuse_finish.simps(2) split: sum.split prod.split)

lemma map_ok_ask: "map_ok f (ask r k s) = ask r (\<lambda>a s. map_ok f (k a s)) s"
  by (cases r) (simp_all add: ask_def map_ok_def)

lemma map_ok_ask_st: "map_ok f (ask_st m k s) = ask_st m (\<lambda>a s. map_ok f (k a s)) s"
  by (auto simp: ask_st_def map_ok_def split: sum.split prod.split)

lemma map_ok_if: "map_ok f (if b then x else y) = (if b then map_ok f x else map_ok f y)"
  by simp

lemma map_ok_simps [simp]: "map_ok f (Ok a, s) = (Ok (f a), s)" "map_ok f (Err e, s) = (Err e, s)"
  by (simp_all add: map_ok_def)

lemmas map_ok_pull = map_ok_ask map_ok_ask_st map_ok_if

lemma finish_fill:
  "fuse_finish E now answers (Pending (Filling fh buffer offset data), s) =
    map_ok RWritten (let (r, files) = ofm_write fh offset data (ofm_set_buffer fh buffer (ff_open_files s));
        s = s\<lparr>ff_open_files := files\<rparr>
      in ask r (\<lambda>written s. (Ok (ucast written), s)) s)"
  by (simp add: Let_def split: prod.split)

lemma after_sending_unit: "after_sending E AfterUnit = (\<lambda>s. (Ok RUnit, s))"
  and after_sending_entry: "after_sending E (AfterEntry entry) = (\<lambda>s. map_ok REntry (entry_created entry s))"
  by (simp_all add: fun_eq_iff)

lemma finish_release:
  "fuse_finish E now answers (Pending (Releasing ino buffer), s) =
    ask (ino_to_node_id s ino) (\<lambda>node s.
      if \<not> is_ok (fs_metadata E (ff_filesystem s) node) then (Ok RUnit, s)
      else ask_st (fuse_broadcast (fs_write_file E now node buffer)) (\<lambda>_ s. (Ok RUnit, s)) s) s"
  by (simp add: finish_ask finish_mutate after_sending_unit if_distrib [of "fuse_finish E now answers"] cong: if_cong)

lemma map_ok_unit: "map_ok (\<lambda>_. RUnit) (ask_st m (\<lambda>_ s. (Ok (), s)) s) = ask_st m (\<lambda>_ s. (Ok RUnit, s)) s"
  by (simp add: map_ok_ask_st)

lemma map_ok_sent:
  "map_ok (\<lambda>_. RUnit) (fuse_broadcast m s) = ask_st (fuse_broadcast m) (\<lambda>_ s. (Ok RUnit, s)) s"
  by (simp add: map_ok_def ask_st_def)

lemma run_mutation:
  "fuse_finish E now answers (ask_task r (\<lambda>a. mutate_task (m a) (\<lambda>_. AfterUnit)) s) =
    map_ok (\<lambda>_. RUnit) (ask r (\<lambda>a. fuse_broadcast (m a)) s)"
  by (simp add: finish_ask finish_mutate after_sending_unit map_ok_ask map_ok_sent)

lemma finish_write:
  "fuse_finish E now answers (fuse_start E D now (ReqWrite ino fh off data) s) =
    map_ok RWritten (fuse_write E answers ino fh off data s)"
proof (cases "data = [] \<or> \<not> is_ok (ofm_needs_buffer (ff_open_files s) fh) \<or> ofm_needs_buffer (ff_open_files s) fh = Ok False")
  case True
  then show ?thesis
    by (cases "ofm_needs_buffer (ff_open_files s) fh")
      (auto simp: fuse_write_def fuse_fill_buffer_def ask_task_def ask_st_def map_ok_ask Let_def split: prod.split)
next
  case False
  then have need: "data \<noteq> []" "ofm_needs_buffer (ff_open_files s) fh = Ok True"
    by (cases "ofm_needs_buffer (ff_open_files s) fh"; auto)+
  show ?thesis
  proof (cases "ino_to_node_id s ino")
    case (Inl e)
    with need show ?thesis by (simp add: fuse_write_def fuse_fill_buffer_def ask_task_def ask_st_def)
  next
    case (Inr node)
    with need show ?thesis
      by (auto simp: fuse_write_def fuse_fill_buffer_def ask_task_def finish_fetch ask_st_def ask_def finish_fill Let_def
          simp del: fuse_finish.simps(2) split: prod.splits sum.splits)
  qed
qed

section \<open>Steps and handlers agree\<close>

text \<open>The handlers are translated twice, as one function each (theory Fuse) and as steps from one
  \<open>await\<close> to the next; a check that both translations say the same. What the handlers do is stated
  of the functions (theory FuseFiles), what interruptions can do of the steps (theory FuseRuns).\<close>

theorem uninterrupted_is_handler:
  "fuse_finish E now answers (fuse_start E D now req s) = fuse_handle E D now answers req s"
proof (cases req)
  case (ReqSetattr ino unsupported new_size)
  then show ?thesis
    by (cases new_size; cases "ino_to_node_id s ino")
      (auto simp: fuse_setattr_def ask_task_def finish_mutate ask_st_def map_ok_def split: prod.split sum.split)
next
  case (ReqMkdir p name)
  then show ?thesis by (simp add: fuse_mkdir_def finish_ask finish_mutate after_sending_entry map_ok_pull)
next
  case (ReqSymlink p name target)
  then show ?thesis by (simp add: fuse_symlink_def finish_ask finish_mutate after_sending_entry map_ok_pull)
next
  case (ReqRmdir p name)
  then show ?thesis by (simp add: fuse_rmdir_def run_mutation)
next
  case (ReqUnlink p name)
  then show ?thesis by (simp add: fuse_unlink_def run_mutation)
next
  case (ReqRename p name p' name')
  then show ?thesis by (simp add: fuse_rename_def finish_ask [of E now answers "ino_to_node_id s p"] run_mutation map_ok_ask)
next
  case (ReqCreate p name)
  then show ?thesis
    by (cases "ino_to_node_id s p")
      (auto simp: fuse_create_def ask_task_def finish_mutate ask_st_def Let_def split: prod.split sum.split)
next
  case (ReqRead ino fh off sz)
  then show ?thesis
    by (cases "ino_to_node_id s ino")
      (auto simp: fuse_read_def ask_task_def finish_fetch ask_st_def Let_def map_ok_def split: option.split prod.split sum.split)
next
  case (ReqWrite ino fh off data)
  then show ?thesis
    by (simp only: finish_write fuse_handle.simps)
next
  case (ReqRelease ino fh)
  then show ?thesis
    by (simp add: fuse_release_def finish_release map_ok_pull map_ok_sent Let_def if_distrib [of "map_ok (\<lambda>_. RUnit)"]
        del: fuse_finish.simps(2) cong: if_cong split: prod.split option.split)
qed simp_all

end
