(* ===== verification/FuseRuns.thy ===== *)
theory FuseRuns
  imports FuseSteps
begin

text \<open>
  Requests of the mount under interruption (theory FuseSteps): between two steps of a request the state may change in
  any way. What still holds: a request ends with a reply of its own kind, after a bounded number of its own steps.
  What does not: a read can lose a chunk to another request after it has looked for what is missing.
\<close>

section \<open>Kinds of replies\<close>

abbreviation entry_kind :: "entry_response \<Rightarrow> file_type" where
  "entry_kind e \<equiv> fa_kind (er_attr e)"

fun reply_for :: "fuse_request \<Rightarrow> 'r fuse_reply \<Rightarrow> bool" where
  "reply_for (ReqLookup p name) r \<longleftrightarrow> (case r of REntry e \<Rightarrow> True | _ \<Rightarrow> False)"
| "reply_for (ReqMkdir p name) r \<longleftrightarrow> (case r of REntry e \<Rightarrow> entry_kind e = FtDirectory | _ \<Rightarrow> False)"
| "reply_for (ReqSymlink p name target) r \<longleftrightarrow> (case r of REntry e \<Rightarrow> entry_kind e = FtSymlink | _ \<Rightarrow> False)"
| "reply_for (ReqCreate p name) r \<longleftrightarrow> (case r of RCreated e fh \<Rightarrow> entry_kind e = FtRegularFile | _ \<Rightarrow> False)"
| "reply_for (ReqGetattr ino fh) r \<longleftrightarrow> (case r of RAttr a \<Rightarrow> fa_ino a = ino | _ \<Rightarrow> False)"
| "reply_for (ReqSetattr ino unsupported sz) r \<longleftrightarrow> (case r of RAttr a \<Rightarrow> fa_ino a = ino \<and> \<not> unsupported | _ \<Rightarrow> False)"
| "reply_for (ReqRmdir p name) r \<longleftrightarrow> r = RUnit"
| "reply_for (ReqUnlink p name) r \<longleftrightarrow> r = RUnit"
| "reply_for (ReqRename p name p' name') r \<longleftrightarrow> r = RUnit"
| "reply_for (ReqRelease ino fh) r \<longleftrightarrow> r = RUnit"
| "reply_for (ReqReleasedir ino fh) r \<longleftrightarrow> r = RUnit"
| "reply_for (ReqAccess ino) r \<longleftrightarrow> r = RUnit"
| "reply_for (ReqOpen ino) r \<longleftrightarrow> (case r of ROpened fh \<Rightarrow> True | _ \<Rightarrow> False)"
| "reply_for (ReqOpendir ino) r \<longleftrightarrow> (case r of ROpened fh \<Rightarrow> True | _ \<Rightarrow> False)"
| "reply_for (ReqReaddir ino sz off) r \<longleftrightarrow> (case r of RDirectory d \<Rightarrow> True | _ \<Rightarrow> False)"
| "reply_for (ReqRead ino fh off sz) r \<longleftrightarrow> (case r of RData data \<Rightarrow> True | _ \<Rightarrow> False)"
| "reply_for (ReqWrite ino fh off data) r \<longleftrightarrow> r = RWritten (ucast (vec_len data))"
| "reply_for (ReqReadlink ino) r \<longleftrightarrow> (case r of RLink target \<Rightarrow> True | _ \<Rightarrow> False)"
| "reply_for ReqStatfs r \<longleftrightarrow> (case r of RStatfs x \<Rightarrow> True | _ \<Rightarrow> False)"

text \<open>Errors of the network and of a full store come from the requests that can meet them only.\<close>

fun error_for :: "fuse_request \<Rightarrow> errno \<Rightarrow> bool" where
  "error_for (ReqRead ino fh off sz) e \<longleftrightarrow> e \<notin> {ENOSPC, EBADF, EFBIG}"
| "error_for (ReqWrite ino fh off data) e \<longleftrightarrow> e \<noteq> ENOSPC"
| "error_for (ReqRelease ino fh) e \<longleftrightarrow> e \<notin> {EIO, EBADF, EFBIG, PANIC}"
| "error_for req e \<longleftrightarrow> e \<notin> {ENOSPC, EIO, EBADF, EFBIG, PANIC}"

text \<open>What the tasks of a request can be.\<close>

fun entry_for :: "fuse_request \<Rightarrow> after_send \<Rightarrow> bool" where
  "entry_for (ReqMkdir p name) k \<longleftrightarrow> (case k of AfterEntry x \<Rightarrow> file_type_of (fe_meta x) = FtDirectory | _ \<Rightarrow> False)"
| "entry_for (ReqSymlink p name target) k \<longleftrightarrow> (case k of AfterEntry x \<Rightarrow> file_type_of (fe_meta x) = FtSymlink | _ \<Rightarrow> False)"
| "entry_for (ReqCreate p name) k \<longleftrightarrow> (case k of AfterCreate x \<Rightarrow> file_type_of (fe_meta x) = FtRegularFile | _ \<Rightarrow> False)"
| "entry_for (ReqSetattr ino unsupported sz) k \<longleftrightarrow> (case k of AfterSetattr ino' n \<Rightarrow> ino' = ino \<and> \<not> unsupported | _ \<Rightarrow> False)"
| "entry_for (ReqRmdir p name) k \<longleftrightarrow> k = AfterUnit"
| "entry_for (ReqUnlink p name) k \<longleftrightarrow> k = AfterUnit"
| "entry_for (ReqRename p name p' name') k \<longleftrightarrow> k = AfterUnit"
| "entry_for (ReqRelease ino fh) k \<longleftrightarrow> k = AfterUnit"
| "entry_for req k \<longleftrightarrow> False"

fun fetch_for :: "fuse_request \<Rightarrow> after_fetch \<Rightarrow> bool" where
  "fetch_for (ReqRead ino fh off sz) k \<longleftrightarrow> (case k of ThenRead n off' len \<Rightarrow> off' = off \<and> len = ucast sz | _ \<Rightarrow> False)"
| "fetch_for (ReqWrite ino fh off data) k \<longleftrightarrow> (case k of ThenFill n fh' off' data' \<Rightarrow> fh' = fh \<and> off' = off \<and> data' = data | _ \<Rightarrow> False)"
| "fetch_for req k \<longleftrightarrow> False"

fun task_for :: "fuse_request \<Rightarrow> fuse_task \<Rightarrow> bool" where
  "task_for req (Sending ops k) \<longleftrightarrow> entry_for req k"
| "task_for req (Awaiting hs k) \<longleftrightarrow> fetch_for req k"
| "task_for req (Caching xs b k) \<longleftrightarrow> fetch_for req k"
| "task_for req (Filling fh' buffer off data) \<longleftrightarrow> (case req of ReqWrite ino fh off' data' \<Rightarrow> fh' = fh \<and> off' = off \<and> data' = data | _ \<Rightarrow> False)"
| "task_for req (Writing fh' off data) \<longleftrightarrow> (case req of ReqWrite ino fh off' data' \<Rightarrow> fh' = fh \<and> off' = off \<and> data' = data | _ \<Rightarrow> False)"
| "task_for req (Releasing ino' buffer) \<longleftrightarrow> (case req of ReqRelease ino fh \<Rightarrow> ino' = ino | _ \<Rightarrow> False)"
| "task_for req (WritingBack n buffer) \<longleftrightarrow> (case req of ReqRelease ino fh \<Rightarrow> True | _ \<Rightarrow> False)"

definition outcome_for :: "fuse_request \<Rightarrow> 'r fuse_outcome \<Rightarrow> bool" where
  "outcome_for req out \<longleftrightarrow> (case out of
     Done r \<Rightarrow> (case r of Inl e \<Rightarrow> error_for req e | Inr reply \<Rightarrow> reply_for req reply)
   | Pending t \<Rightarrow> task_for req t)"

text \<open>The outcomes of a request, in whatever state each of its steps finds the mount; the number counts the
  steps.\<close>

inductive interrupted :: "'t fs_env \<Rightarrow> 'r directory_api \<Rightarrow> fuse_request \<Rightarrow> nat \<Rightarrow> 'r fuse_outcome \<Rightarrow> bool" for E D req where
  begins: "interrupted E D req 0 (fst (fuse_start E D now req s))"
| goes_on: "interrupted E D req k (Pending t) \<Longrightarrow> interrupted E D req (Suc k) (fst (fuse_resume E now answers t s))"

inductive_cases interruptedE: "interrupted E D req k out"

section \<open>What the file system's errors can be\<close>

lemma file_type_attr [simp]: "fa_kind (to_attr m ino) = file_type_of m" "fa_ino (to_attr m ino) = ino"
  by (simp_all add: to_attr_def file_type_of_def Let_def split: node_meta.split)

lemma errno_kinds [simp]: "errno_of e \<noteq> EIO" "errno_of e \<noteq> EBADF" "errno_of e \<noteq> EFBIG" "errno_of e = ENOSPC \<longleftrightarrow> e = StorageFull"
  "errno_of e = PANIC \<longleftrightarrow> e = CapacityOverflow"
  by (cases e; simp)+

lemma map_err_Err [simp]: "map_err f r = Err e \<longleftrightarrow> (\<exists>x. r = Err x \<and> f x = e)"
  by (cases r) (auto simp: map_err_def)

text \<open>The file system reports a full store from a write only, and panics in a read only.\<close>

definition plain :: "fs_error \<Rightarrow> bool" where
  "plain e \<longleftrightarrow> e \<noteq> StorageFull \<and> e \<noteq> CapacityOverflow"

lemma plain_simps [simp]:
  "plain NotFound" "plain ReservedNode" "plain NotADirectory" "plain IsADirectory" "plain DirectoryNotEmpty"
  "plain AlreadyExists" "plain (from_tree_error e')"
  by (simp_all add: plain_def) (cases e'; simp add: plain_def)

lemma queries_plain:
  "fs_children E fs n = Err e \<Longrightarrow> plain e" "fs_metadata E fs n = Err e \<Longrightarrow> plain e"
  "fs_child_id E fs p name = Err e \<Longrightarrow> plain e" "fs_missing_chunk_hashes_for E fs n off len = Err e \<Longrightarrow> plain e"
  "fs_list_directory E fs p = Err e \<Longrightarrow> plain e"
proof -
  show c: "fs_children E fs n = Err e \<Longrightarrow> plain e" for n e
    by (auto simp: fs_children_def map_err_def split: sum.splits)
  show m: "fs_metadata E fs n = Err e \<Longrightarrow> plain e" for n e
    by (auto simp: fs_metadata_def ok_or_def split: option.splits if_splits)
  show "fs_child_id E fs p name = Err e \<Longrightarrow> plain e"
    using c [of p] by (auto simp: fs_child_id_def ok_or_def split: sum.splits option.splits)
  show "fs_missing_chunk_hashes_for E fs n off len = Err e \<Longrightarrow> plain e"
    using m [of n] by (auto simp: fs_missing_chunk_hashes_for_def Let_def split: sum.splits node_meta.splits)
  show "fs_list_directory E fs p = Err e \<Longrightarrow> plain e"
    using c [of p] m [of p] by (auto simp: fs_list_directory_def split: sum.splits node_meta.splits)
qed

lemma node_mutations_plain:
  "fs_create_node E now p name md fs = (Err e, fs') \<Longrightarrow> plain e" "fs_delete_node E now n fs = (Err e, fs') \<Longrightarrow> plain e"
  "fs_replace_meta E now n md fs = (Err e, fs') \<Longrightarrow> plain e"
  by (auto simp: fs_create_node_def fs_delete_node_def fs_replace_meta_def Let_def
      split: prod.splits sum.splits option.splits if_splits)

lemma mutations_plain:
  "fs_delete_file E now p name fs = (Err e, fs') \<Longrightarrow> plain e" "fs_delete_directory E now p name fs = (Err e, fs') \<Longrightarrow> plain e"
  "fs_truncate_file E now n sz fs = (Err e, fs') \<Longrightarrow> plain e" "fs_rename E now p name p' name' fs = (Err e, fs') \<Longrightarrow> plain e"
  by (auto simp: fs_delete_file_def fs_delete_directory_def fs_truncate_file_def fs_rename_def
      split: sum.splits node_meta.splits prod.splits if_split_asm dest: queries_plain node_mutations_plain)

lemma from_storage_full [simp]: "from_storage_error e = StorageFull"
  by (cases e) simp

lemma write_no_panic: "fs_write_file E now n data fs = (Err e, fs') \<Longrightarrow> e \<noteq> CapacityOverflow"
  by (auto simp: fs_write_file_def Let_def plain_def
      split: sum.splits node_meta.splits prod.splits dest!: queries_plain node_mutations_plain)

lemma reads_not_full:
  "fs_read_file E n off len fs = (Err e, fs') \<Longrightarrow> e \<noteq> StorageFull" "fs_read_file_all E n fs = (Err e, fs') \<Longrightarrow> e \<noteq> StorageFull"
proof -
  have m: "fs_metadata E fs n \<noteq> Err StorageFull" using queries_plain(2) by (auto simp: plain_def)
  show r: "fs_read_file E n off len fs = (Err e, fs') \<Longrightarrow> e \<noteq> StorageFull" for off len
    using m by (auto simp: fs_read_file_def ok_or_def Let_def split: sum.splits node_meta.splits if_splits prod.splits option.splits)
  then show "fs_read_file_all E n fs = (Err e, fs') \<Longrightarrow> e \<noteq> StorageFull"
    using m by (auto simp: fs_read_file_all_def split: sum.splits node_meta.splits)
qed

section \<open>Every step keeps the kind\<close>

lemma plain_error: "e \<notin> {ENOSPC, EIO, EBADF, EFBIG, PANIC} \<Longrightarrow> error_for req e"
  by (cases req) auto

declare error_for.simps [simp del]

lemma file_error: "plain e \<Longrightarrow> error_for req (errno_of e)"
  by (rule plain_error) (simp add: plain_def)

lemma outcome_Done [simp]:
  "outcome_for req (Done (Err e)) = error_for req e" "outcome_for req (Done (Ok reply)) = reply_for req reply"
  "outcome_for req (Pending t) = task_for req t"
  by (simp_all add: outcome_for_def)

lemma outcome_stop:
  "outcome_for req (fst (stop (map_ok f x))) \<longleftrightarrow>
    (\<forall>e. fst x = Err e \<longrightarrow> error_for req e) \<and> (\<forall>a. fst x = Ok a \<longrightarrow> reply_for req (f a))"
  by (cases x; cases "fst x") (auto simp: stop_def map_ok_def outcome_for_def)

lemma outcome_ask:
  "(\<And>e. r = Err e \<Longrightarrow> error_for req e) \<Longrightarrow> (\<And>a. r = Ok a \<Longrightarrow> outcome_for req (fst (k a s))) \<Longrightarrow>
    outcome_for req (fst (ask_task r k s))"
  by (cases r) (auto simp: ask_task_def)

lemma outcome_mutate:
  assumes "\<And>e fs'. m (ff_filesystem s) = (Err e, fs') \<Longrightarrow> plain e"
    and "\<And>c fs'. m (ff_filesystem s) = (Ok c, fs') \<Longrightarrow> entry_for req (after (tm_result c))"
  shows "outcome_for req (fst (mutate_task m after s))"
proof (cases "m (ff_filesystem s)")
  case (Pair r fs')
  show ?thesis
  proof (cases r)
    case (Inl e)
    with assms(1) Pair have "plain e" by simp
    with Pair Inl show ?thesis by (simp add: mutate_task_def file_error)
  qed (use assms(2) Pair in \<open>simp add: mutate_task_def\<close>)
qed

lemma outcome_fetch: "fetch_for req k \<Longrightarrow> outcome_for req (fst (fetch_task E n off len k s))"
  by (auto simp: fetch_task_def file_error split: sum.split dest: queries_plain(4))

lemma ino_error: "ino_to_node_id s ino = Err e \<Longrightarrow> error_for req e"
  by (auto simp: ino_to_node_id_def ok_or_def plain_error split: option.splits)

lemma meta_error: "fuse_metadata E s n = Err e \<Longrightarrow> error_for req e"
  by (auto simp: fuse_metadata_def file_error dest: queries_plain(2))

definition errs_as :: "fuse_request \<Rightarrow> ('a, errno) result \<times> 's \<Rightarrow> bool" where
  "errs_as req x \<longleftrightarrow> (\<forall>e. fst x = Err e \<longrightarrow> error_for req e)"

lemma errs_as_simps [simp]: "errs_as req (Ok a, s)" "errs_as req (Err e, s) \<longleftrightarrow> error_for req e"
  by (simp_all add: errs_as_def)

lemma errs_as_ask:
  "(\<And>e. r = Err e \<Longrightarrow> error_for req e) \<Longrightarrow> (\<And>a. r = Ok a \<Longrightarrow> errs_as req (k a s)) \<Longrightarrow> errs_as req (ask r k s)"
  by (cases r) (auto simp: ask_def)

lemma quick_errors:
  "errs_as req (fuse_lookup E p name s)" "errs_as req (fuse_getattr E ino fh s)" "errs_as req (fuse_open E ino s)"
  "errs_as req (fuse_opendir E ino s)" "errs_as req (fuse_readdir E R ino sz off s)" "errs_as req (fuse_readlink E ino s)"
  unfolding fuse_lookup_def fuse_getattr_def fuse_open_def fuse_opendir_def fuse_readdir_def fuse_readlink_def
  by (auto intro!: errs_as_ask file_error dest: ino_error meta_error queries_plain
      simp: Let_def plain_error split: option.split prod.split node_meta.split)

text \<open>The attributes a request asks for carry its inode number.\<close>

lemma attr_ino:
  "fst (fuse_getattr E ino fh s) = Ok a \<Longrightarrow> fa_ino a = ino"
  "fst (ask (fuse_metadata E s n) (\<lambda>meta s. (Ok (to_attr meta ino), s)) s) = Ok a \<Longrightarrow> fa_ino a = ino"
  by (auto simp: fuse_getattr_def ask_def split: option.splits sum.splits)

lemma attr_error: "errs_as req (ask (fuse_metadata E s n) (\<lambda>meta s. (Ok (to_attr meta ino), s)) s)"
  by (auto intro!: errs_as_ask dest: meta_error)

lemma outcome_stopI:
  "errs_as req x \<Longrightarrow> (\<And>a. fst x = Ok a \<Longrightarrow> reply_for req (f a)) \<Longrightarrow> outcome_for req (fst (stop (map_ok f x)))"
  by (simp add: outcome_stop errs_as_def)

lemma created_entry: "fs_create_node E now p name md fs = (Ok c, fs') \<Longrightarrow> fe_meta (tm_result c) = md"
  by (auto simp: fs_create_node_def tree_mutation_new_def Let_def split: if_splits prod.splits)

lemma start_outcome: "outcome_for req (fst (fuse_start E D now req s))"
proof (cases req)
  case (ReqSetattr ino unsupported new_size)
  show ?thesis
  proof (cases new_size)
    case None
    show ?thesis unfolding ReqSetattr None fuse_start.simps option.case
      by (auto simp: plain_error intro!: outcome_ask outcome_stopI attr_error dest: ino_error attr_ino)
  next
    case (Some sz)
    then show ?thesis
      by (auto intro!: outcome_ask outcome_mutate dest: ino_error mutations_plain simp: ReqSetattr plain_error)
  qed
next
  case (ReqRead ino fh off sz)
  then show ?thesis by (auto intro!: outcome_ask outcome_fetch dest: ino_error split: option.split)
next
  case (ReqWrite ino fh off data)
  then show ?thesis
    by (auto intro!: outcome_ask outcome_fetch dest: ino_error
        simp: vec_len_def ofm_needs_buffer_def error_for.simps split: option.splits)
next
  case (ReqRelease ino fh)
  then show ?thesis by (auto split: prod.split option.split)
next
  case ReqStatfs
  then show ?thesis by (simp add: stop_def fuse_statfs_def Let_def)
next
  case (ReqReleasedir ino fh)
  then show ?thesis by (simp add: stop_def fuse_releasedir_def)
next
  case (ReqAccess ino)
  then show ?thesis by (simp add: stop_def fuse_access_def)
qed (auto intro!: outcome_ask outcome_mutate outcome_stopI quick_errors dest: ino_error attr_ino mutations_plain node_mutations_plain dest!: created_entry
    simp: fs_create_directory_def fs_create_symlink_def fs_create_file_def
      file_type_of_def plain_error)

lemma after_sending_outcome: "entry_for req k \<Longrightarrow> outcome_for req (fst (stop (after_sending E k s)))"
proof (cases k)
  case (AfterSetattr ino n)
  assume "entry_for req k"
  with AfterSetattr obtain sz where req: "req = ReqSetattr ino False sz" by (cases req) auto
  show ?thesis unfolding AfterSetattr after_sending.simps
    by (intro outcome_stopI attr_error) (auto dest: attr_ino simp: req)
next
  case (AfterCreate x)
  assume "entry_for req k"
  with AfterCreate obtain p name where req: "req = ReqCreate p name" by (cases req) auto
  with AfterCreate \<open>entry_for req k\<close> show ?thesis by (auto simp: stop_def entry_response_new_def Let_def split: prod.split)
next
  case (AfterEntry x)
  assume "entry_for req k"
  then show ?thesis unfolding AfterEntry
    by (cases req) (auto simp: stop_def entry_created_def entry_response_new_def Let_def split: prod.split)
next
  case AfterUnit
  assume "entry_for req k"
  with AfterUnit show ?thesis by (cases req) (auto simp: stop_def)
qed

lemma after_fetching_outcome: "fetch_for req k \<Longrightarrow> outcome_for req (fst (after_fetching E k s))"
proof (cases k)
  case (ThenRead n off len)
  assume "fetch_for req k"
  with ThenRead obtain ino fh sz where req: "req = ReqRead ino fh off sz" by (cases req) auto
  obtain r fs where "fs_read_file E n off len (ff_filesystem s) = (r, fs)" by force
  with reads_not_full(1) [of E n off len "ff_filesystem s" _ fs] show ?thesis unfolding ThenRead
    by (cases r) (auto simp: req stop_def map_ok_def map_err_def error_for.simps)
next
  case (ThenFill n fh off data)
  assume "fetch_for req k"
  with ThenFill obtain ino where req: "req = ReqWrite ino fh off data" by (cases req) auto
  obtain r fs where "fs_read_file_all E n (ff_filesystem s) = (r, fs)" by force
  with reads_not_full(2) [of E n "ff_filesystem s" _ fs] show ?thesis unfolding ThenFill
    by (cases r) (auto simp: req ask_task_def map_err_def error_for.simps)
qed

lemma resume_outcome: "task_for req t \<Longrightarrow> outcome_for req (fst (fuse_resume E now answers t s))"
proof (cases "(E, now, answers, t, s)" rule: fuse_resume.cases)
  case (1 E' now' answers' ops k s')
  assume "task_for req t"
  with 1 show ?thesis by (simp add: after_sending_outcome)
next
  case (5 E' now' answers' b k s')
  assume "task_for req t"
  with 5 show ?thesis
    by (cases req) (auto simp: error_for.simps intro!: after_fetching_outcome)
next
  case (7 E' now' answers' fh off data s')
  assume "task_for req t"
  with 7 obtain ino where req: "req = ReqWrite ino fh off data" by (cases req) auto
  have w: "ofm_write fh off data files = (Ok n, files') \<Longrightarrow> n = vec_len data"
    "ofm_write fh off data files = (Err e, files') \<Longrightarrow> e \<noteq> ENOSPC" for files files' n e
    by (auto simp: ofm_write_def Let_def split: option.splits if_splits)
  with 7 show ?thesis
    by (auto simp: req ask_def stop_def error_for.simps split: prod.split sum.split)
next
  case (8 E' now' answers' ino buffer s')
  assume "task_for req t"
  with 8 obtain fh where req: "req = ReqRelease ino fh" by (cases req) auto
  from 8 show ?thesis by (auto simp: req intro!: outcome_ask dest: ino_error)
next
  case (9 E' now' answers' n buffer s')
  assume "task_for req t"
  with 9 obtain ino fh where req: "req = ReqRelease ino fh" by (cases req) auto
  from 9 show ?thesis
    by (auto simp: req mutate_task_def error_for.simps split: prod.split sum.split dest: write_no_panic)
qed auto

section \<open>Properties\<close>

text \<open>C11: A request is answered in kind. Whatever happens between its steps, a request that ends returns an error
  it may have or the reply of its own kind: \<open>mkdir\<close> the entry of a directory, \<open>symlink\<close> that of a symbolic link,
  \<open>create\<close> that of a regular file with a handle, \<open>getattr\<close> and \<open>setattr\<close> attributes with the inode number asked
  for, \<open>write\<close> the number of bytes given. Only \<open>read\<close> and \<open>write\<close> fail with \<open>EIO\<close>, only \<open>write\<close> for its
  handle or range, only \<open>release\<close> for a full store, and only \<open>read\<close> and \<open>write\<close> panic. And every step brings the request closer to its end.\<close>

theorem requests_answered_in_kind:
  assumes "interrupted E D req k out"
  shows "outcome_for req out \<and>
    (\<forall>t t' s s' E' now answers. out = Pending t \<and> fuse_resume E' now answers t s = (Pending t' :: 'r fuse_outcome, s') \<longrightarrow>
      task_weight t' < task_weight t)"
  using assms
proof induction
  case (begins s)
  then show ?case using start_outcome resume_progress by blast
next
  case (goes_on k t now answers s)
  then show ?case using resume_outcome [of req t] resume_progress by auto
qed

text \<open>A directory is made, and the handler goes on in another state than it was left in.\<close>

theorem requests_answered_in_kind_witness:
  defines "R \<equiv> \<lparr>dr_new = (\<lambda>_. ()), dr_add = (\<lambda>_ _ _ _ _. (True, ()))\<rparr> :: unit directory_api"
    and "s \<equiv> fuse_new 1 (fs_new (nt_new ref_api (PeerId 1)) (storage_new 1000))"
    and "s' \<equiv> fuse_new 1 (fs_new (nt_new ref_api (PeerId 2)) (storage_new 500))"
  shows "\<exists>t e. fst (fuse_start demo_env R (Some 5) (ReqMkdir 1 ''d'') s) = Pending t \<and>
    fst (fuse_resume demo_env None (\<lambda>_. None) t s' :: unit fuse_outcome \<times> _) = Done (Ok (REntry e)) \<and> entry_kind e = FtDirectory"
proof -
  have "(case fst (fuse_start demo_env R (Some 5) (ReqMkdir 1 ''d'') s) of
      Pending t \<Rightarrow> (case fst (fuse_resume demo_env None (\<lambda>_. None) t s' :: unit fuse_outcome \<times> _) of
        Done (Inr (REntry e)) \<Rightarrow> True | _ \<Rightarrow> False) | _ \<Rightarrow> False)"
    unfolding R_def s_def s'_def by code_simp
  then obtain t e where t: "fst (fuse_start demo_env R (Some 5) (ReqMkdir 1 ''d'') s) = Pending t"
    and e: "fst (fuse_resume demo_env None (\<lambda>_. None) t s' :: unit fuse_outcome \<times> _) = Done (Ok (REntry e))"
    by (auto split: fuse_outcome.splits sum.splits fuse_reply.splits)
  have "interrupted demo_env R (ReqMkdir 1 ''d'') 1 (Done (Ok (REntry e)))"
    using interrupted.goes_on [OF interrupted.begins [of demo_env R "ReqMkdir 1 ''d''" "Some 5" s, unfolded t], of None "\<lambda>_. None" s']
    by (simp add: e)
  from requests_answered_in_kind [OF this] t e show ?thesis by simp
qed

text \<open>C27: A read can be robbed. A request looks for the chunks that are missing, waits, and reads afterwards; looking
  does not protect the chunks it found. When the only chunk of a file is the oldest in the cache, and a chunk that
  another request fetched is cached in between and does not fit beside it, the read of a file that was there
  completely succeeds and returns zeros. Uninterrupted it returns the data.\<close>

theorem read_loses_to_cache:
  fixes D :: "'r directory_api" and s :: "'t fuse_file_system"
  assumes "fs_inv E valid (ff_filesystem s)" and "ofm_read (ff_open_files s) fh 0 (ucast sz) = None"
    and "ino_to_node_id s ino = Ok n" and "fs_metadata E (ff_filesystem s) n = Ok (RegularFile name (ref_size r) [r])"
    and "st_lru (fs_storage (ff_filesystem s)) = ref_hash r # newer"
    and "fs_look (ff_filesystem s) (ref_hash r) = Some d" and "length d = unat (ref_size r)"
    and "length d \<le> unat (ucast sz :: u64)"
    and "\<not> storage_contains (fs_storage (ff_filesystem s)) (hash_of (e_sha E) other)" and "vec_ok other"
    and "length other \<le> unat (st_max_cached_bytes (fs_storage (ff_filesystem s)))"
    and "unat (st_max_cached_bytes (fs_storage (ff_filesystem s))) < cached_total (fs_storage (ff_filesystem s)) + length other"
  shows "\<exists>t. fuse_start E D now (ReqRead ino fh 0 sz) s = (Pending t, s) \<and>
    fst (fuse_finish E now answers (Pending t :: 'r fuse_outcome, s)) = Ok (RData d) \<and>
    fst (fuse_finish E now answers (Pending t :: 'r fuse_outcome, snd (fuse_resume E now' answers' (Caching (Some other # rest) b k) s
      :: 'r fuse_outcome \<times> 't fuse_file_system))) = Ok (RData (replicate (length d) 0))"
proof -
  let ?fs = "ff_filesystem s" and ?t = "Awaiting [] (ThenRead n 0 (ucast sz))"
  let ?fs' = "fs_cache_chunk E other ?fs"
  have total: "refs_total [r] < 2 ^ 64" using unat_lt_2_64 [of "ref_size r"] by simp
  have held: "storage_contains (fs_storage ?fs) (ref_hash r)"
    using assms(6) by (auto simp: fs_look_def chunk_look_def storage_contains_def hcontains_def)
  have "fs_missing_chunk_hashes_for E ?fs n 0 (ucast sz) = Ok []"
    unfolding missing_hashes_eq [OF assms(4) total] using held by simp
  then have start: "fuse_start E D now (ReqRead ino fh 0 sz) s = (Pending ?t, s)"
    using assms(2,3) by (simp add: ask_task_def fetch_task_def)
  have stop: "min (unat (0 :: u64) + unat (ucast sz :: u64)) (unat (ref_size r)) = length d" using assms(7,8) by simp
  have "length d < 2 ^ 63" using assms(8) u32_length [of sz] by simp
  then have no_panic: "\<not> read_panics look 0 (length d) [r]" for look
    using assms(7) by (intro small_read_returns) auto
  have finish: "fst (fuse_finish E now answers (Pending ?t :: 'r fuse_outcome, s1)) = Ok (RData (subslice (file_bytes (fs_look fs1) [r]) 0 (length d)))"
    if "fs_inv E valid fs1" "fs_metadata E fs1 n = Ok (RegularFile name (ref_size r) [r])" "refs_sound (fs_look fs1) [r]"
      "ff_filesystem s1 = fs1" for fs1 s1
    using read_file_value [OF that(1-3) total, of 0 "ucast sz"] that(4) stop no_panic
    by (auto simp: finish_awaiting map_ok_def split: prod.split)
  have sound: "refs_sound (fs_look ?fs) [r]" using assms(6,7) by (simp add: refs_sound_def)
  have bytes: "file_bytes (fs_look ?fs) [r] = d" using assms(6,7) by (simp add: ref_bytes_def)
  have ne: "ref_hash r \<noteq> hash_of (e_sha E) other" using held assms(9) by auto
  have inv': "fs_inv E valid ?fs'" by (rule cache_chunk_inv(1) [OF assms(1,10)])
  have gone: "fs_look ?fs' (ref_hash r) = None" by (rule oldest_evicted(1) [OF assms(1,5,9-12) ne])
  have m': "fs_metadata E ?fs' n = Ok (RegularFile name (ref_size r) [r])" using assms(4) by (simp add: fs_cache_chunk_def)
  have sound': "refs_sound (fs_look ?fs') [r]" using gone by (simp add: refs_sound_def)
  have bytes': "file_bytes (fs_look ?fs') [r] = replicate (length d) 0" using gone assms(7) by (simp add: ref_bytes_def)
  have "snd (fuse_resume E now' answers' (Caching (Some other # rest) b k) s :: 'r fuse_outcome \<times> 't fuse_file_system) =
      s\<lparr>ff_filesystem := ?fs'\<rparr>" by simp
  with start finish [OF assms(1,4) sound refl] finish [OF inv' m' sound', of "s\<lparr>ff_filesystem := ?fs'\<rparr>"]
  show ?thesis unfolding bytes bytes' by (simp add: subslice_def)
qed

text \<open>The cache is full with the file's chunk, and one byte of another file arrives.\<close>

theorem read_loses_to_cache_witness:
  defines "R \<equiv> \<lparr>dr_new = (\<lambda>_. ()), dr_add = (\<lambda>_ _ _ _ _. (True, ()))\<rparr> :: unit directory_api"
  shows "\<exists>t s k. fuse_start demo_env R None (ReqRead 2 4 0 (2 ^ 24)) s = (Pending t, s) \<and>
    fst (fuse_finish demo_env None (\<lambda>_. None) (Pending t :: unit fuse_outcome, s)) = Ok (RData demo_big) \<and>
    fst (fuse_finish demo_env None (\<lambda>_. None) (Pending t :: unit fuse_outcome,
      snd (fuse_resume demo_env None (\<lambda>_. None) (Caching [Some [5]] True k) s :: unit fuse_outcome \<times> _))) = Ok (RData (replicate (2 ^ 24) 0))"
proof -
  let ?r = "\<lparr>ref_hash = ChunkHash demo_big, ref_size = 2 ^ 24\<rparr> :: chunk_ref"
  obtain s where s: "fs_inv demo_env ref_valid (ff_filesystem s)"
    "fs_metadata demo_env (ff_filesystem s) (NodeId 2) = Ok (RegularFile ''a'' (2 ^ 24) [?r])"
    "ino_to_node_id s 2 = Ok (NodeId 2)" "ff_open_files s = []" "st_lru (fs_storage (ff_filesystem s)) = [ChunkHash demo_big]"
    "unat (st_max_cached_bytes (fs_storage (ff_filesystem s))) = 2 ^ 24" "cached_total (fs_storage (ff_filesystem s)) = 2 ^ 24"
    "fs_look (ff_filesystem s) (ChunkHash demo_big) = Some demo_big"
    "\<not> storage_contains (fs_storage (ff_filesystem s)) (ChunkHash [5])" by (rule demo_full_cache)
  have closed: "ofm_read (ff_open_files s) 4 0 (ucast (2 ^ 24 :: 32 word)) = None" by (simp add: s(4) ofm_read_def)
  have "\<exists>t. fuse_start demo_env R None (ReqRead 2 4 0 (2 ^ 24)) s = (Pending t, s) \<and>
    fst (fuse_finish demo_env None (\<lambda>_. None) (Pending t :: unit fuse_outcome, s)) = Ok (RData demo_big) \<and>
    fst (fuse_finish demo_env None (\<lambda>_. None) (Pending t :: unit fuse_outcome,
      snd (fuse_resume demo_env None (\<lambda>_. None) (Caching [Some [5]] True (ThenRead ROOT 0 0)) s :: unit fuse_outcome \<times> _))) =
      Ok (RData (replicate (length demo_big) 0))"
    by (rule read_loses_to_cache [of demo_env ref_valid s 4 "2 ^ 24" 2 "NodeId 2" "''a''" ?r "[]" demo_big "[5]"])
      (use s closed in \<open>simp_all add: demo_big_length hash_of_def vec_ok_def\<close>)
  then show ?thesis unfolding demo_big_length by blast
qed

end
