(* ===== verification/Network.thy ===== *)
theory Network
  imports FsReach Hrw
begin

text \<open>
  What the network handlers share: the messages of \<open>src/src/network/protocol.rs\<close>, the events and
  commands of \<open>event.rs\<close>, and the swarm.

  The swarm of libp2p is a parameter, seen through what the handlers use of it: the local peer id,
  the connected peers, and the log of the requests sent, the responses given, the addresses dialled
  and the messages handed to gossipsub. \<open>send_request\<close> returns an id that no earlier request has
  (\<open>rids_fresh\<close>); \<open>n_new_rid\<close> is how the swarm picks it. \<open>n_encode\<close> and \<open>n_decode\<close> are the codec of
  the crate \<open>bincode\<close>, \<open>n_hash_order\<close> and \<open>n_peer_order\<close> the order in which a hash set or the
  keys of a hash map are walked. Ids of requests, reply channels, waiting callers and addresses are
  opaque numbers; an \<open>Instant\<close> is a number of milliseconds.
\<close>

section \<open>Messages\<close>

datatype protocol_error = ChunkNotFound

datatype request =
    PullChunk chunk_hash
  | CheckChunks "chunk_hash list"
  | PullMissingOperations "op_id list"

datatype response =
    ChunkData bytes
  | HeldChunks "chunk_hash list"
  | MissingOperations "node_operation list"
  | ErrorResponse protocol_error

section \<open>Events\<close>

type_synonym request_id = nat
type_synonym reply_channel = nat
type_synonym chunk_reply = nat
type_synonym instant = nat

datatype swarm_command =
    BroadcastOperations "node_operation list"
  | FetchChunk chunk_hash "chunk_reply option" bool

text \<open>The swarm events the program tells apart; every other one is \<open>OtherEvent\<close>.\<close>

type_synonym multiaddr = nat

datatype swarm_event =
    MessageRequest request reply_channel
  | MessageResponse request_id response
  | GossipMessage bytes
  | MdnsDiscovered "(peer_id \<times> multiaddr) list"
  | ConnectionEstablished peer_id nat
  | OutboundFailure request_id
  | OtherEvent

datatype event =
    Tick
  | SwarmEvent swarm_event
  | RequestEvent request "reply_channel option"
  | ResponseEvent request_id response
  | GossipEvent bytes
  | Command swarm_command

definition event_from_command :: "swarm_command \<Rightarrow> event" where
  "event_from_command cmd = Command cmd"

fun event_from_swarm :: "swarm_event \<Rightarrow> event" where
  "event_from_swarm (MessageRequest request channel) = RequestEvent request (Some channel)"
| "event_from_swarm (MessageResponse rid response) = ResponseEvent rid response"
| "event_from_swarm (GossipMessage data) = GossipEvent data"
| "event_from_swarm other = SwarmEvent other"

text \<open>The pause before a chunk is asked for again.\<close>

definition CHUNK_FETCH_BACKOFF :: nat where "CHUNK_FETCH_BACKOFF = 5000"

section \<open>The swarm\<close>

type_synonym sent_log = "(request_id \<times> peer_id \<times> request) list"

text \<open>What became of a list of operations handed to gossip: published in a message, or not, for it could
  not be encoded or the library refused the message; the program then only logs an error.\<close>

datatype gossip_outcome = Published bytes | NotPublished "node_operation list"

record swarm =
  sw_local :: peer_id
  sw_connected :: "peer_id list"
  sw_sent :: sent_log
  sw_given :: "(reply_channel \<times> response) list"
  sw_dialed :: "multiaddr list"
  sw_gossip :: "gossip_outcome list"

record net_env =
  n_sha :: "bytes \<Rightarrow> bytes"
  n_peer_bytes :: "peer_id \<Rightarrow> bytes"
  n_new_rid :: "sent_log \<Rightarrow> request_id"
  n_encode :: "node_operation list \<Rightarrow> bytes option"
  n_decode :: "bytes \<Rightarrow> node_operation list option"
  n_hash_order :: "chunk_hash set \<Rightarrow> chunk_hash list"
  n_peer_order :: "peer_id set \<Rightarrow> peer_id list"

definition rids_fresh :: "net_env \<Rightarrow> bool" where
  "rids_fresh N \<longleftrightarrow> (\<forall>log. n_new_rid N log \<notin> fst ` set log)"

definition send_request :: "net_env \<Rightarrow> peer_id \<Rightarrow> request \<Rightarrow> swarm \<Rightarrow> request_id \<times> swarm" where
  "send_request N peer req sw =
     (let rid = n_new_rid N (sw_sent sw) in (rid, sw\<lparr>sw_sent := sw_sent sw @ [(rid, peer, req)]\<rparr>))"

definition send_response :: "reply_channel \<Rightarrow> response \<Rightarrow> swarm \<Rightarrow> swarm" where
  "send_response reply resp sw = sw\<lparr>sw_given := sw_given sw @ [(reply, resp)]\<rparr>"

text \<open>A walk over a finite set visits its elements, each once.\<close>

definition order_ok :: "('a set \<Rightarrow> 'a list) \<Rightarrow> bool" where
  "order_ok ord \<longleftrightarrow> (\<forall>A. finite A \<longrightarrow> set (ord A) = A \<and> distinct (ord A))"

text \<open>A swarm for the witnesses: ids in increasing order, sets walked in the order of the peers'
  numbers and of the hashes' bytes, and a codec that knows one message.\<close>

definition demo_net :: net_env where
  "demo_net = \<lparr>n_sha = (\<lambda>d. d), n_peer_bytes = (\<lambda>p. replicate (peer_number p) 0),
     n_new_rid = (\<lambda>log. Suc (fold max (map fst log) 0)),
     n_encode = (\<lambda>ops. if ops = [] then Some [] else None),
     n_decode = (\<lambda>data. if data = [] then Some [] else None),
     n_hash_order = (\<lambda>A. map ChunkHash (sorted_list_of_set (as_bytes ` A))),
     n_peer_order = sorted_list_of_set\<rparr>"

lemma order_ok_demo: "order_ok (n_peer_order demo_net)" "order_ok (n_hash_order demo_net)"
proof -
  show "order_ok (n_peer_order demo_net)" by (simp add: order_ok_def demo_net_def)
  have "ChunkHash ` as_bytes ` A = A" for A by (force simp: image_image)
  then show "order_ok (n_hash_order demo_net)"
    by (auto simp: order_ok_def demo_net_def distinct_map inj_on_def)
qed

lemma fold_max_ge: "a \<le> fold max xs (a :: nat) \<and> (\<forall>x \<in> set xs. x \<le> fold max xs a)"
proof (induction xs arbitrary: a)
  case (Cons y ys)
  then have "max y a \<le> fold max ys (max y a)" "\<forall>x \<in> set ys. x \<le> fold max ys (max y a)" by blast+
  then show ?case by simp
qed simp

lemma rids_fresh_demo: "rids_fresh demo_net"
proof -
  have "Suc (fold max (map fst log) 0) \<noteq> fst x" if "x \<in> set log" for log :: sent_log and x
    using fold_max_ge [of 0 "map fst log"] that by (fastforce simp: Suc_le_eq [symmetric])
  then show ?thesis by (force simp: rids_fresh_def demo_net_def)
qed

lemma peer_bytes_demo: "inj (n_peer_bytes demo_net)"
proof (rule injI)
  fix p q assume "n_peer_bytes demo_net p = n_peer_bytes demo_net q"
  then have "length (n_peer_bytes demo_net p) = length (n_peer_bytes demo_net q)" by simp
  then show "p = q" by (simp add: demo_net_def peer_id.expand)
qed

end
