(* ===== verification/Fetch.thy ===== *)
theory Fetch
  imports Network
begin

text \<open>
  Fetching chunks from peers: \<open>src/src/network/handlers/chunk.rs\<close>. A session per chunk asks the
  connected peers in the order of their rank, a few at a time, until one of them sends data with
  the right hash; callers that want the chunk wait in the session.

  The replies sent to the callers are a log of (caller, data); \<open>now\<close> is the instant a call reads.
\<close>

section \<open>The code\<close>

definition MAX_FETCH_TARGETS :: nat where "MAX_FETCH_TARGETS = 3"

definition next_targets ::
  "net_env \<Rightarrow> chunk_hash \<Rightarrow> peer_id list \<Rightarrow> peer_id set \<Rightarrow> nat \<Rightarrow> peer_id list"
where
  "next_targets N hash connected tried limit =
     take limit (filter (\<lambda>peer. peer \<notin> tried)
       (top_peers (n_sha N) (n_peer_bytes N) hash connected (length connected)))"

record fetch_session =
  se_waiters :: "chunk_reply list"
  se_attempts :: "(request_id, peer_id) hmap"
  se_tried :: "peer_id set"
  se_pin :: bool

record chunk_fetcher =
  cf_sessions :: "(chunk_hash, fetch_session) hmap"
  cf_requests :: "(request_id, chunk_hash) hmap"
  cf_blocked_until :: "(chunk_hash, instant) hmap"

definition chunk_fetcher_default :: chunk_fetcher where
  "chunk_fetcher_default = \<lparr>cf_sessions = [], cf_requests = [], cf_blocked_until = []\<rparr>"

text \<open>What the fetcher's methods work on: its own state, the swarm, and the replies to its callers.\<close>

record fetch_state =
  ft_fetcher :: chunk_fetcher
  ft_swarm :: swarm
  ft_replies :: "(chunk_reply \<times> bytes option) list"

definition answer :: "chunk_reply list \<Rightarrow> bytes option \<Rightarrow> fetch_state \<Rightarrow> fetch_state" where
  "answer waiters data s = s\<lparr>ft_replies := ft_replies s @ map (\<lambda>w. (w, data)) waiters\<rparr>"

definition is_blocked :: "instant \<Rightarrow> chunk_fetcher \<Rightarrow> chunk_hash \<Rightarrow> bool" where
  "is_blocked now f hash =
     (case hget (cf_blocked_until f) hash of None \<Rightarrow> False | Some until \<Rightarrow> until > now)"

definition block_chunk :: "instant \<Rightarrow> chunk_hash \<Rightarrow> chunk_fetcher \<Rightarrow> chunk_fetcher" where
  "block_chunk now hash f =
     f\<lparr>cf_blocked_until := hinsert hash (now + CHUNK_FETCH_BACKOFF) (cf_blocked_until f)\<rparr>"

text \<open>The body of the loop over the targets.\<close>

definition ask_peer :: "net_env \<Rightarrow> chunk_hash \<Rightarrow> peer_id \<Rightarrow> fetch_state \<Rightarrow> fetch_state" where
  "ask_peer N hash peer s =
     (let (rid, sw) = send_request N peer (PullChunk hash) (ft_swarm s); f = ft_fetcher s
      in s\<lparr>ft_swarm := sw,
           ft_fetcher := f\<lparr>cf_sessions := hmodify hash
               (\<lambda>se. se\<lparr>se_attempts := hinsert rid peer (se_attempts se), se_tried := insert peer (se_tried se)\<rparr>)
               (cf_sessions f),
             cf_requests := hinsert rid hash (cf_requests f)\<rparr>\<rparr>)"

definition walk_down :: "net_env \<Rightarrow> instant \<Rightarrow> chunk_hash \<Rightarrow> fetch_state \<Rightarrow> fetch_state" where
  "walk_down N now hash s =
     (let connected = sw_connected (ft_swarm s); f = ft_fetcher s in
      case hget (cf_sessions f) hash of
        None \<Rightarrow> s
      | Some session \<Rightarrow>
          (let targets = next_targets N hash connected (se_tried session) MAX_FETCH_TARGETS in
           if targets = [] then
             (let f' = f\<lparr>cf_sessions := hremove hash (cf_sessions f)\<rparr>;
                  s' = answer (se_waiters session) None (s\<lparr>ft_fetcher := f'\<rparr>)
              in if se_pin session then s'\<lparr>ft_fetcher := block_chunk now hash f'\<rparr> else s')
           else fold (ask_peer N hash) targets s))"

definition fetch_chunk ::
  "net_env \<Rightarrow> instant \<Rightarrow> chunk_hash \<Rightarrow> chunk_reply option \<Rightarrow> bool \<Rightarrow> fetch_state \<Rightarrow> fetch_state"
where
  "fetch_chunk N now hash reply pin s =
     (let f = ft_fetcher s; waiters = (case reply of None \<Rightarrow> [] | Some w \<Rightarrow> [w]) in
      if hcontains (cf_sessions f) hash then
        s\<lparr>ft_fetcher := f\<lparr>cf_sessions := hmodify hash
            (\<lambda>se. se\<lparr>se_waiters := se_waiters se @ waiters, se_pin := (se_pin se \<or> pin)\<rparr>) (cf_sessions f)\<rparr>\<rparr>
      else if \<not> pin \<and> is_blocked now f hash then answer waiters None s
      else
        walk_down N now hash
          (s\<lparr>ft_fetcher := f\<lparr>cf_sessions := hinsert hash
              \<lparr>se_waiters = waiters, se_attempts = [], se_tried = {}, se_pin = pin\<rparr> (cf_sessions f)\<rparr>\<rparr>))"

definition on_attempt_failed :: "net_env \<Rightarrow> instant \<Rightarrow> chunk_hash \<Rightarrow> request_id \<Rightarrow> fetch_state \<Rightarrow> fetch_state" where
  "on_attempt_failed N now hash rid s =
     (let f = ft_fetcher s in
      case hget (cf_sessions f) hash of
        None \<Rightarrow> s
      | Some session \<Rightarrow>
          (let attempts = hremove rid (se_attempts session);
               s' = s\<lparr>ft_fetcher := f\<lparr>cf_sessions := hmodify hash (\<lambda>se. se\<lparr>se_attempts := attempts\<rparr>) (cf_sessions f)\<rparr>\<rparr>
           in if attempts \<noteq> [] then s' else walk_down N now hash s'))"

definition handle_failure :: "net_env \<Rightarrow> instant \<Rightarrow> request_id \<Rightarrow> fetch_state \<Rightarrow> fetch_state" where
  "handle_failure N now rid s =
     (let f = ft_fetcher s in
      case hget (cf_requests f) rid of
        None \<Rightarrow> s
      | Some hash \<Rightarrow>
          on_attempt_failed N now hash rid (s\<lparr>ft_fetcher := f\<lparr>cf_requests := hremove rid (cf_requests f)\<rparr>\<rparr>))"

definition handle_response ::
  "'t fs_env \<Rightarrow> net_env \<Rightarrow> instant \<Rightarrow> request_id \<Rightarrow> bytes \<Rightarrow> fetch_state \<times> 't file_system \<Rightarrow>
    fetch_state \<times> 't file_system"
where
  "handle_response E N now rid data sf =
     (let (s, fs) = sf; f = ft_fetcher s in
      case hget (cf_requests f) rid of
        None \<Rightarrow> (s, fs)
      | Some hash \<Rightarrow>
          (let f = f\<lparr>cf_requests := hremove rid (cf_requests f)\<rparr>; s = s\<lparr>ft_fetcher := f\<rparr>;
               actual_hash = hash_of (e_sha E) data
           in if actual_hash \<noteq> hash then (on_attempt_failed N now hash rid s, fs)
              else
                (case hget (cf_sessions f) hash of
                   None \<Rightarrow> (s, fs)
                 | Some session \<Rightarrow>
                     (let f = f\<lparr>cf_sessions := hremove hash (cf_sessions f),
                                cf_requests := fold hremove (map fst (se_attempts session)) (cf_requests f)\<rparr>;
                          (f, fs) =
                            (if se_pin session
                             then (case fs_pin_chunk E data fs of
                                     (Inr _, fs) \<Rightarrow> (f, fs)
                                   | (Inl _, fs) \<Rightarrow> (block_chunk now hash f, fs_cache_chunk E data fs))
                             else (f, fs_cache_chunk E data fs))
                      in (answer (se_waiters session) (Some data) (s\<lparr>ft_fetcher := f\<rparr>), fs)))))"

text \<open>The handler. It takes the reply out of the event, so a later handler finds none.\<close>

fun chunk_handle ::
  "'t fs_env \<Rightarrow> net_env \<Rightarrow> instant \<Rightarrow> event \<Rightarrow> fetch_state \<times> 't file_system \<Rightarrow>
    event \<times> fetch_state \<times> 't file_system"
where
  "chunk_handle E N now (Command (FetchChunk hash reply pin)) (s, fs) =
     (Command (FetchChunk hash None pin), fetch_chunk N now hash reply pin s, fs)"
| "chunk_handle E N now (RequestEvent (PullChunk hash) reply) (s, fs) =
     (case reply of
        None \<Rightarrow> (RequestEvent (PullChunk hash) None, s, fs)
      | Some reply \<Rightarrow>
          (let (data, fs) = fs_chunk hash fs;
               response = (case data of Some data \<Rightarrow> ChunkData data | None \<Rightarrow> ErrorResponse ChunkNotFound)
           in (RequestEvent (PullChunk hash) None,
               s\<lparr>ft_swarm := send_response reply response (ft_swarm s)\<rparr>, fs)))"
| "chunk_handle E N now (ResponseEvent rid (ChunkData data)) (s, fs) =
     (ResponseEvent rid (ChunkData data), handle_response E N now rid data (s, fs))"
| "chunk_handle E N now (ResponseEvent rid (ErrorResponse e)) (s, fs) =
     (ResponseEvent rid (ErrorResponse e), handle_failure N now rid s, fs)"
| "chunk_handle E N now (SwarmEvent (OutboundFailure rid)) (s, fs) =
     (SwarmEvent (OutboundFailure rid), handle_failure N now rid s, fs)"
| "chunk_handle E N now ev (s, fs) = (ev, s, fs)"

section \<open>The invariant\<close>

text \<open>Outstanding requests and the attempts of the sessions are the same thing; they have all been
  sent; a session always has one. \<open>acc\<close> is the history of the callers accepted, with the chunk
  each wants: every one is answered or waits in that chunk's session, and the data it gets has the
  hash it asked for.\<close>

definition requests_linked :: "chunk_fetcher \<Rightarrow> bool" where
  "requests_linked f \<longleftrightarrow> (\<forall>rid h. hget (cf_requests f) rid = Some h \<longleftrightarrow>
     (\<exists>se. hget (cf_sessions f) h = Some se \<and> hget (se_attempts se) rid \<noteq> None))"

definition requests_sent :: "fetch_state \<Rightarrow> bool" where
  "requests_sent s \<longleftrightarrow> (\<forall>rid h. hget (cf_requests (ft_fetcher s)) rid = Some h \<longrightarrow>
     (\<exists>p. (rid, p, PullChunk h) \<in> set (sw_sent (ft_swarm s))))"

definition sessions_busy :: "chunk_hash set \<Rightarrow> chunk_fetcher \<Rightarrow> bool" where
  "sessions_busy H f \<longleftrightarrow> (\<forall>h se. h \<notin> H \<longrightarrow> hget (cf_sessions f) h = Some se \<longrightarrow> se_attempts se \<noteq> [])"

definition callers_kept :: "(bytes \<Rightarrow> bytes) \<Rightarrow> (chunk_reply \<times> chunk_hash) set \<Rightarrow> fetch_state \<Rightarrow> bool" where
  "callers_kept sha acc s \<longleftrightarrow>
     (\<forall>(w, h) \<in> acc. (\<exists>d. (w, d) \<in> set (ft_replies s)) \<or>
        (\<exists>se. hget (cf_sessions (ft_fetcher s)) h = Some se \<and> w \<in> set (se_waiters se))) \<and>
     (\<forall>h se w. hget (cf_sessions (ft_fetcher s)) h = Some se \<longrightarrow> w \<in> set (se_waiters se) \<longrightarrow> (w, h) \<in> acc) \<and>
     (\<forall>w d. (w, Some d) \<in> set (ft_replies s) \<longrightarrow> (w, hash_of sha d) \<in> acc)"

definition fetch_inv :: "(bytes \<Rightarrow> bytes) \<Rightarrow> (chunk_reply \<times> chunk_hash) set \<Rightarrow> chunk_hash set \<Rightarrow> fetch_state \<Rightarrow> bool" where
  "fetch_inv sha acc H s \<longleftrightarrow> requests_linked (ft_fetcher s) \<and> requests_sent s \<and>
     sessions_busy H (ft_fetcher s) \<and> callers_kept sha acc s"

lemma callers_keptI:
  assumes "\<And>w h. (w, h) \<in> acc \<Longrightarrow> (\<exists>d. (w, d) \<in> set (ft_replies s)) \<or>
      (\<exists>se. hget (cf_sessions (ft_fetcher s)) h = Some se \<and> w \<in> set (se_waiters se))"
    and "\<And>h se w. hget (cf_sessions (ft_fetcher s)) h = Some se \<Longrightarrow> w \<in> set (se_waiters se) \<Longrightarrow> (w, h) \<in> acc"
    and "\<And>w d. (w, Some d) \<in> set (ft_replies s) \<Longrightarrow> (w, hash_of sha d) \<in> acc"
  shows "callers_kept sha acc s"
  using assms unfolding callers_kept_def by fast

lemma callers_keptD:
  assumes "callers_kept sha acc s"
  shows "(w, h) \<in> acc \<Longrightarrow> (\<exists>d. (w, d) \<in> set (ft_replies s)) \<or>
      (\<exists>se. hget (cf_sessions (ft_fetcher s)) h = Some se \<and> w \<in> set (se_waiters se))"
    and "hget (cf_sessions (ft_fetcher s)) h = Some se \<Longrightarrow> w \<in> set (se_waiters se) \<Longrightarrow> (w, h) \<in> acc"
    and "(w, Some d) \<in> set (ft_replies s) \<Longrightarrow> (w, hash_of sha d) \<in> acc"
  using assms unfolding callers_kept_def by fast+

text \<open>A session ends: its callers are all given the same answer.\<close>

lemma callers_kept_end:
  assumes "callers_kept sha acc s" and "hget (cf_sessions (ft_fetcher s)) h = Some se"
    and "\<And>d. data = Some d \<Longrightarrow> h = hash_of sha d"
    and "cf_sessions (ft_fetcher s') = hremove h (cf_sessions (ft_fetcher s))"
    and "ft_replies s' = ft_replies s @ map (\<lambda>w. (w, data)) (se_waiters se)"
  shows "callers_kept sha acc s'"
proof (rule callers_keptI)
  fix w k
  assume "(w, k) \<in> acc"
  from callers_keptD(1) [OF assms(1) this] assms(2,4,5)
  show "(\<exists>d. (w, d) \<in> set (ft_replies s')) \<or>
      (\<exists>se. hget (cf_sessions (ft_fetcher s')) k = Some se \<and> w \<in> set (se_waiters se))"
    by (cases "k = h") auto
next
  fix k sk w
  assume "hget (cf_sessions (ft_fetcher s')) k = Some sk" "w \<in> set (se_waiters sk)"
  with callers_keptD(2) [OF assms(1), of k sk w] assms(4) show "(w, k) \<in> acc" by (simp split: if_splits)
next
  fix w d
  assume "(w, Some d) \<in> set (ft_replies s')"
  with callers_keptD(2) [OF assms(1,2), of w] callers_keptD(3) [OF assms(1), of w d] assms(3,5)
  show "(w, hash_of sha d) \<in> acc" by auto
qed

lemma hget_nonempty: "hget m k \<noteq> None \<Longrightarrow> m \<noteq> []"
  by auto

lemma ask_peer_effect:
  assumes "rids_fresh N" and "requests_sent s" and "hget (cf_sessions (ft_fetcher s)) h = Some se"
  obtains rid where "hget (cf_requests (ft_fetcher s)) rid = None"
    and "\<And>k. hget (cf_sessions (ft_fetcher (ask_peer N h p s))) k = (if k = h
      then Some (se\<lparr>se_attempts := hinsert rid p (se_attempts se), se_tried := insert p (se_tried se)\<rparr>)
      else hget (cf_sessions (ft_fetcher s)) k)"
    and "\<And>r. hget (cf_requests (ft_fetcher (ask_peer N h p s))) r =
      (if r = rid then Some h else hget (cf_requests (ft_fetcher s)) r)"
    and "sw_sent (ft_swarm (ask_peer N h p s)) = sw_sent (ft_swarm s) @ [(rid, p, PullChunk h)]"
    and "ft_replies (ask_peer N h p s) = ft_replies s"
proof -
  let ?rid = "n_new_rid N (sw_sent (ft_swarm s))"
  have fresh: "hget (cf_requests (ft_fetcher s)) ?rid = None"
  proof (cases "hget (cf_requests (ft_fetcher s)) ?rid")
    case (Some k)
    with assms(2) obtain q where "(?rid, q, PullChunk k) \<in> set (sw_sent (ft_swarm s))"
      by (auto simp: requests_sent_def)
    then have "?rid \<in> fst ` set (sw_sent (ft_swarm s))" by force
    with assms(1) show ?thesis by (simp add: rids_fresh_def)
  qed
  show thesis
    by (rule that [of ?rid, OF fresh])
      (use assms(3) in \<open>auto simp: ask_peer_def send_request_def Let_def\<close>)
qed

lemma ask_peer_inv:
  assumes "rids_fresh N" and "fetch_inv sha acc H s" and "hget (cf_sessions (ft_fetcher s)) h = Some se"
  shows "fetch_inv sha acc (H - {h}) (ask_peer N h p s)"
    and "\<exists>se'. hget (cf_sessions (ft_fetcher (ask_peer N h p s))) h = Some se' \<and>
      se_waiters se' = se_waiters se \<and> se_pin se' = se_pin se \<and> se_tried se' = insert p (se_tried se)"
    and "sw_sent (ft_swarm (ask_peer N h p s)) \<noteq> sw_sent (ft_swarm s)"
    and "\<exists>rid. sw_sent (ft_swarm (ask_peer N h p s)) = sw_sent (ft_swarm s) @ [(rid, p, PullChunk h)]"
    and "ft_replies (ask_peer N h p s) = ft_replies s"
proof -
  let ?s = "ask_peer N h p s"
  have parts: "requests_linked (ft_fetcher s)" "requests_sent s" "sessions_busy H (ft_fetcher s)" "callers_kept sha acc s"
    using assms(2) by (simp_all add: fetch_inv_def)
  obtain rid where new: "hget (cf_requests (ft_fetcher s)) rid = None"
    and se: "\<And>k. hget (cf_sessions (ft_fetcher ?s)) k = (if k = h
      then Some (se\<lparr>se_attempts := hinsert rid p (se_attempts se), se_tried := insert p (se_tried se)\<rparr>)
      else hget (cf_sessions (ft_fetcher s)) k)"
    and rq: "\<And>r. hget (cf_requests (ft_fetcher ?s)) r = (if r = rid then Some h else hget (cf_requests (ft_fetcher s)) r)"
    and sent: "sw_sent (ft_swarm ?s) = sw_sent (ft_swarm s) @ [(rid, p, PullChunk h)]"
    and rep: "ft_replies ?s = ft_replies s"
    using ask_peer_effect [OF assms(1) parts(2) assms(3)] by blast
  have "requests_linked (ft_fetcher ?s)"
    unfolding requests_linked_def
  proof (intro allI)
    fix r k
    have old: "hget (cf_requests (ft_fetcher s)) r = Some k \<longleftrightarrow>
        (\<exists>se. hget (cf_sessions (ft_fetcher s)) k = Some se \<and> hget (se_attempts se) r \<noteq> None)"
      using parts(1) by (simp add: requests_linked_def)
    show "hget (cf_requests (ft_fetcher ?s)) r = Some k \<longleftrightarrow>
        (\<exists>se. hget (cf_sessions (ft_fetcher ?s)) k = Some se \<and> hget (se_attempts se) r \<noteq> None)"
      using old new assms(3) by (cases "r = rid") (auto simp: se rq)
  qed
  moreover have "requests_sent ?s" using parts(2) by (auto simp: requests_sent_def rq sent split: if_splits)
  moreover have "sessions_busy (H - {h}) (ft_fetcher ?s)"
    using parts(3) by (auto simp: sessions_busy_def se hinsert_def split: if_splits)
  moreover have "callers_kept sha acc ?s"
    using parts(4) assms(3) unfolding callers_kept_def rep se by (auto split: if_splits)
  ultimately show "fetch_inv sha acc (H - {h}) ?s" by (simp add: fetch_inv_def)
  show "\<exists>se'. hget (cf_sessions (ft_fetcher ?s)) h = Some se' \<and>
      se_waiters se' = se_waiters se \<and> se_pin se' = se_pin se \<and> se_tried se' = insert p (se_tried se)"
    by (simp add: se)
  show "sw_sent (ft_swarm ?s) \<noteq> sw_sent (ft_swarm s)"
    "\<exists>rid. sw_sent (ft_swarm ?s) = sw_sent (ft_swarm s) @ [(rid, p, PullChunk h)]" "ft_replies ?s = ft_replies s"
    using sent rep by auto
qed

lemma ask_all_inv:
  fixes ps :: "peer_id list"
  assumes "rids_fresh N" and "fetch_inv sha acc H s" and "hget (cf_sessions (ft_fetcher s)) h = Some se"
  defines "s' \<equiv> fold (ask_peer N h) ps s"
  shows "fetch_inv sha acc (if ps = [] then H else H - {h}) s' \<and>
    (\<exists>se'. hget (cf_sessions (ft_fetcher s')) h = Some se' \<and> se_waiters se' = se_waiters se \<and>
       se_pin se' = se_pin se \<and> se_tried se' = se_tried se \<union> set ps) \<and>
    (\<exists>new. sw_sent (ft_swarm s') = sw_sent (ft_swarm s) @ new \<and> map snd new = map (\<lambda>p. (p, PullChunk h)) ps) \<and>
    ft_replies s' = ft_replies s"
  unfolding s'_def using assms(2,3)
proof (induction ps arbitrary: s se H)
  case (Cons p ps)
  let ?s = "ask_peer N h p s"
  note one = ask_peer_inv [OF assms(1) Cons.prems, of p]
  from one(2) obtain se1 where se1: "hget (cf_sessions (ft_fetcher ?s)) h = Some se1"
    "se_waiters se1 = se_waiters se" "se_pin se1 = se_pin se" "se_tried se1 = insert p (se_tried se)" by blast
  from Cons.IH [OF one(1) se1(1)] have
    inv: "fetch_inv sha acc (H - {h}) (fold (ask_peer N h) ps ?s)"
    and ses: "\<exists>se'. hget (cf_sessions (ft_fetcher (fold (ask_peer N h) ps ?s))) h = Some se' \<and>
      se_waiters se' = se_waiters se1 \<and> se_pin se' = se_pin se1 \<and> se_tried se' = se_tried se1 \<union> set ps"
    and new: "\<exists>new. sw_sent (ft_swarm (fold (ask_peer N h) ps ?s)) = sw_sent (ft_swarm ?s) @ new \<and>
      map snd new = map (\<lambda>p. (p, PullChunk h)) ps"
    and rep: "ft_replies (fold (ask_peer N h) ps ?s) = ft_replies ?s"
    by (auto split: if_splits)
  from one(4) obtain rid where rid: "sw_sent (ft_swarm ?s) = sw_sent (ft_swarm s) @ [(rid, p, PullChunk h)]" by blast
  from new obtain more where more: "sw_sent (ft_swarm (fold (ask_peer N h) ps ?s)) = sw_sent (ft_swarm ?s) @ more"
    "map snd more = map (\<lambda>p. (p, PullChunk h)) ps" by blast
  have "\<exists>new. sw_sent (ft_swarm (fold (ask_peer N h) (p # ps) s)) = sw_sent (ft_swarm s) @ new \<and>
      map snd new = map (\<lambda>p. (p, PullChunk h)) (p # ps)"
    by (rule exI [of _ "(rid, p, PullChunk h) # more"]) (simp add: rid more)
  with inv ses rep one(5) se1 show ?case by auto
qed simp

lemma walk_down_inv:
  assumes "rids_fresh N" and "fetch_inv sha acc {h} s"
    and "\<And>se. hget (cf_sessions (ft_fetcher s)) h = Some se \<Longrightarrow> se_attempts se = []"
  shows "fetch_inv sha acc {} (walk_down N now h s)"
proof (cases "hget (cf_sessions (ft_fetcher s)) h")
  case None
  then have "sessions_busy {} (ft_fetcher s)"
    using assms(2) unfolding fetch_inv_def sessions_busy_def by (metis option.distinct(1) singletonD)
  with None assms(2) show ?thesis by (simp add: walk_down_def fetch_inv_def)
next
  case (Some se)
  let ?targets = "next_targets N h (sw_connected (ft_swarm s)) (se_tried se) MAX_FETCH_TARGETS"
  show ?thesis
  proof (cases "?targets = []")
    case False
    then have "walk_down N now h s = fold (ask_peer N h) ?targets s"
      using Some by (simp add: walk_down_def Let_def)
    with ask_all_inv [OF assms(1,2) Some, of ?targets] False show ?thesis by simp
  next
    case True
    let ?s' = "walk_down N now h s" and ?f = "ft_fetcher s"
    have run: "cf_sessions (ft_fetcher ?s') = hremove h (cf_sessions ?f)"
      "cf_requests (ft_fetcher ?s') = cf_requests ?f" "ft_swarm ?s' = ft_swarm s"
      "ft_replies ?s' = ft_replies s @ map (\<lambda>w. (w, None)) (se_waiters se)"
      using Some True by (simp_all add: walk_down_def Let_def answer_def block_chunk_def)
    have parts: "requests_linked ?f" "requests_sent s" "sessions_busy {h} ?f" "callers_kept sha acc s"
      using assms(2) by (simp_all add: fetch_inv_def)
    have "requests_linked (ft_fetcher ?s')"
      using parts(1) assms(3) [OF Some] Some unfolding requests_linked_def run
      by (auto simp: hget_Nil)
    moreover have "requests_sent ?s'" using parts(2) by (simp add: requests_sent_def run)
    moreover have "sessions_busy {} (ft_fetcher ?s')" using parts(3) by (auto simp: sessions_busy_def run)
    moreover have "callers_kept sha acc ?s'"
      by (rule callers_kept_end [OF parts(4) Some _ run(1,4)]) simp
    ultimately show ?thesis by (simp add: fetch_inv_def)
  qed
qed

end
