(* ===== verification/FetchRuns.thy ===== *)
theory FetchRuns
  imports Fetch
begin

text \<open>
  Runs of the chunk fetcher (\<open>src/src/network/handlers/chunk.rs\<close>, theory Fetch): every operation
  keeps its invariant, callers are never lost, what they get is what they asked for, and a session
  whose requests keep failing ends.
\<close>

section \<open>Every operation keeps the invariant\<close>

lemma fetch_inv_parts:
  assumes "fetch_inv sha acc H s"
  shows "requests_linked (ft_fetcher s)" and "requests_sent s" and "sessions_busy H (ft_fetcher s)"
    and "callers_kept sha acc s"
  using assms by (simp_all add: fetch_inv_def)

lemma linkedD:
  assumes "requests_linked f" and "hget (cf_requests f) rid = Some h"
  obtains se where "hget (cf_sessions f) h = Some se" and "hget (se_attempts se) rid \<noteq> None"
  using assms unfolding requests_linked_def by blast

lemma callers_kept_weaken:
  assumes "callers_kept sha acc s" and "ft_replies s' = ft_replies s"
    and "\<And>h. map_option se_waiters (hget (cf_sessions (ft_fetcher s')) h) = map_option se_waiters (hget (cf_sessions (ft_fetcher s)) h)"
  shows "callers_kept sha acc s'"
proof (rule callers_keptI)
  fix w h assume "(w, h) \<in> acc"
  from callers_keptD(1) [OF assms(1) this] show "(\<exists>d. (w, d) \<in> set (ft_replies s')) \<or>
      (\<exists>se. hget (cf_sessions (ft_fetcher s')) h = Some se \<and> w \<in> set (se_waiters se))"
    using assms(2,3) by (metis (no_types, lifting) map_option_eq_Some)
next
  fix h se w assume "hget (cf_sessions (ft_fetcher s')) h = Some se" "w \<in> set (se_waiters se)"
  then show "(w, h) \<in> acc"
    using callers_keptD(2) [OF assms(1)] assms(3) [of h] by (metis (no_types, lifting) map_option_eq_Some)
next
  fix w d assume "(w, Some d) \<in> set (ft_replies s')"
  then show "(w, hash_of sha d) \<in> acc" using callers_keptD(3) [OF assms(1)] assms(2) by metis
qed

text \<open>A request ends without its chunk: it leaves both maps.\<close>

definition drop_request :: "request_id \<Rightarrow> chunk_hash \<Rightarrow> fetch_state \<Rightarrow> fetch_state" where
  "drop_request rid h s = (let f = ft_fetcher s;
     attempts = (case hget (cf_sessions f) h of None \<Rightarrow> [] | Some se \<Rightarrow> hremove rid (se_attempts se))
   in s\<lparr>ft_fetcher := f\<lparr>
     cf_requests := hremove rid (cf_requests f),
     cf_sessions := hmodify h (\<lambda>se. se\<lparr>se_attempts := attempts\<rparr>) (cf_sessions f)\<rparr>\<rparr>)"

lemma drop_request_simps [simp]:
  "hget (cf_sessions (ft_fetcher (drop_request rid h s))) k =
     (if k = h then map_option (\<lambda>se. se\<lparr>se_attempts := hremove rid (se_attempts se)\<rparr>)
        (hget (cf_sessions (ft_fetcher s)) h)
      else hget (cf_sessions (ft_fetcher s)) k)"
  "hget (cf_requests (ft_fetcher (drop_request rid h s))) r =
     (if r = rid then None else hget (cf_requests (ft_fetcher s)) r)"
  "ft_swarm (drop_request rid h s) = ft_swarm s" "ft_replies (drop_request rid h s) = ft_replies s"
  "cf_blocked_until (ft_fetcher (drop_request rid h s)) = cf_blocked_until (ft_fetcher s)"
  by (cases "hget (cf_sessions (ft_fetcher s)) h"; simp add: drop_request_def Let_def)+

lemma drop_request_inv:
  assumes "fetch_inv sha acc H s" and "hget (cf_requests (ft_fetcher s)) rid = Some h"
  shows "fetch_inv sha acc (insert h H) (drop_request rid h s)"
proof -
  note parts = fetch_inv_parts [OF assms(1)]
  have "requests_linked (ft_fetcher (drop_request rid h s))"
    unfolding requests_linked_def
  proof (intro allI)
    fix r k
    have "hget (cf_requests (ft_fetcher s)) r = Some k \<longleftrightarrow>
        (\<exists>se. hget (cf_sessions (ft_fetcher s)) k = Some se \<and> hget (se_attempts se) r \<noteq> None)"
      using parts(1) by (simp add: requests_linked_def)
    then show "hget (cf_requests (ft_fetcher (drop_request rid h s))) r = Some k \<longleftrightarrow>
        (\<exists>se. hget (cf_sessions (ft_fetcher (drop_request rid h s))) k = Some se \<and> hget (se_attempts se) r \<noteq> None)"
      using assms(2) by (cases "r = rid") auto
  qed
  moreover have "requests_sent (drop_request rid h s)"
    using parts(2) by (auto simp: requests_sent_def)
  moreover have "sessions_busy (insert h H) (ft_fetcher (drop_request rid h s))"
    using parts(3) by (auto simp: sessions_busy_def)
  moreover have "callers_kept sha acc (drop_request rid h s)"
    by (rule callers_kept_weaken [OF parts(4)]) (auto simp: option.map_comp comp_def)
  ultimately show ?thesis by (simp add: fetch_inv_def)
qed

lemma attempt_failed_eq:
  assumes "hget (cf_sessions (ft_fetcher s)) h = Some se"
  shows "on_attempt_failed N now h rid
      (s\<lparr>ft_fetcher := (ft_fetcher s)\<lparr>cf_requests := hremove rid (cf_requests (ft_fetcher s))\<rparr>\<rparr>) =
    (if hremove rid (se_attempts se) \<noteq> [] then drop_request rid h s else walk_down N now h (drop_request rid h s))"
  using assms by (simp add: on_attempt_failed_def drop_request_def Let_def)

lemma attempt_failed_inv:
  assumes "rids_fresh N" and "fetch_inv sha acc {} s" and "hget (cf_requests (ft_fetcher s)) rid = Some h"
  shows "fetch_inv sha acc {} (on_attempt_failed N now h rid
      (s\<lparr>ft_fetcher := (ft_fetcher s)\<lparr>cf_requests := hremove rid (cf_requests (ft_fetcher s))\<rparr>\<rparr>))"
proof -
  obtain se where se: "hget (cf_sessions (ft_fetcher s)) h = Some se" "hget (se_attempts se) rid \<noteq> None"
    using linkedD [OF fetch_inv_parts(1) [OF assms(2)] assms(3)] .
  note inv = drop_request_inv [OF assms(2,3)]
  show ?thesis
  proof (cases "hremove rid (se_attempts se) = []")
    case True
    have "fetch_inv sha acc {} (walk_down N now h (drop_request rid h s))"
      by (rule walk_down_inv [OF assms(1) inv]) (use se(1) True in auto)
    with True show ?thesis by (simp add: attempt_failed_eq [OF se(1)])
  next
    case False
    have "sessions_busy {} (ft_fetcher (drop_request rid h s))"
      using fetch_inv_parts(3) [OF inv] se(1) False by (auto simp: sessions_busy_def)
    with inv False show ?thesis by (simp add: attempt_failed_eq [OF se(1)] fetch_inv_def)
  qed
qed

lemma handle_failure_inv:
  assumes "rids_fresh N" and "fetch_inv sha acc {} s"
  shows "fetch_inv sha acc {} (handle_failure N now rid s)"
  using attempt_failed_inv [OF assms] assms(2) by (auto simp: handle_failure_def Let_def split: option.split)

lemma hget_fold_remove [simp]:
  "hget (fold hremove ks m) k = (if k \<in> set ks then None else hget m k)"
  by (induction ks arbitrary: m) auto

text \<open>A chunk already being fetched: the caller joins the session.\<close>

lemma fetch_chunk_inv_waiting:
  assumes inv: "fetch_inv sha acc {} s"
    and waiting: "hget (cf_sessions (ft_fetcher s)) h = Some se"
  shows "fetch_inv sha (acc \<union> {(w, h) |w. reply = Some w}) {} (fetch_chunk N now h reply pin s)"
proof -
  let ?acc = "acc \<union> {(w, h) |w. reply = Some w}"
  let ?ws = "case reply of None \<Rightarrow> [] | Some w \<Rightarrow> [w]"
  note parts = fetch_inv_parts [OF inv]
  have ws: "w \<in> set ?ws \<longleftrightarrow> reply = Some w" for w by (auto split: option.split)
  let ?s = "fetch_chunk N now h reply pin s"
  have run: "hget (cf_sessions (ft_fetcher ?s)) k = (if k = h
      then Some (se\<lparr>se_waiters := se_waiters se @ ?ws, se_pin := se_pin se \<or> pin\<rparr>)
      else hget (cf_sessions (ft_fetcher s)) k)"
    "cf_requests (ft_fetcher ?s) = cf_requests (ft_fetcher s)" "ft_swarm ?s = ft_swarm s" "ft_replies ?s = ft_replies s" for k
    using waiting by (simp_all add: fetch_chunk_def Let_def hcontains_def)
  have "requests_linked (ft_fetcher ?s)"
    using parts(1) waiting unfolding requests_linked_def run by auto
  moreover have "requests_sent ?s" using parts(2) by (simp add: requests_sent_def run)
  moreover have "sessions_busy {} (ft_fetcher ?s)"
    using parts(3) waiting by (auto simp: sessions_busy_def run)
  moreover have "callers_kept sha ?acc ?s"
  proof (rule callers_keptI)
    fix w k assume "(w, k) \<in> ?acc"
    then show "(\<exists>d. (w, d) \<in> set (ft_replies ?s)) \<or>
        (\<exists>se. hget (cf_sessions (ft_fetcher ?s)) k = Some se \<and> w \<in> set (se_waiters se))"
      using callers_keptD(1) [OF parts(4), of w k] waiting ws [of w] unfolding run by (cases "k = h") auto
  next
    fix k sk w assume "hget (cf_sessions (ft_fetcher ?s)) k = Some sk" "w \<in> set (se_waiters sk)"
    then consider "k \<noteq> h" "hget (cf_sessions (ft_fetcher s)) k = Some sk" | "k = h" "w \<in> set (se_waiters se)"
      | "k = h" "reply = Some w"
      using ws [of w] unfolding run by (cases "k = h") auto
    then show "(w, k) \<in> ?acc"
      by cases (use callers_keptD(2) [OF parts(4)] waiting \<open>w \<in> set (se_waiters sk)\<close> in blast)+
  next
    fix w d assume "(w, Some d) \<in> set (ft_replies ?s)"
    then show "(w, hash_of sha d) \<in> ?acc" using callers_keptD(3) [OF parts(4)] unfolding run by blast
  qed
  ultimately show ?thesis by (simp add: fetch_inv_def)
qed

text \<open>A chunk on the blocklist, not wanted for pinning: the caller is refused at once.\<close>

lemma fetch_chunk_inv_blocked:
  assumes inv: "fetch_inv sha acc {} s"
    and blocked: "hget (cf_sessions (ft_fetcher s)) h = None" "\<not> pin" "is_blocked now (ft_fetcher s) h"
  shows "fetch_inv sha (acc \<union> {(w, h) |w. reply = Some w}) {} (fetch_chunk N now h reply pin s)"
proof -
  let ?acc = "acc \<union> {(w, h) |w. reply = Some w}"
  let ?ws = "case reply of None \<Rightarrow> [] | Some w \<Rightarrow> [w]"
  note parts = fetch_inv_parts [OF inv]
  have ws: "w \<in> set ?ws \<longleftrightarrow> reply = Some w" for w by (auto split: option.split)
  let ?s = "fetch_chunk N now h reply pin s"
  have eq: "?s = answer ?ws None s"
    using blocked by (simp add: fetch_chunk_def Let_def hcontains_def)
  have run: "ft_fetcher ?s = ft_fetcher s" "ft_replies ?s = ft_replies s @ map (\<lambda>w. (w, None)) ?ws"
    by (simp_all add: eq answer_def)
  have "callers_kept sha ?acc ?s"
  proof (rule callers_keptI)
    fix w k assume "(w, k) \<in> ?acc"
    then show "(\<exists>d. (w, d) \<in> set (ft_replies ?s)) \<or>
        (\<exists>se. hget (cf_sessions (ft_fetcher ?s)) k = Some se \<and> w \<in> set (se_waiters se))"
      using callers_keptD(1) [OF parts(4), of w k] ws [of w] unfolding run by auto
  next
    fix k sk w assume "hget (cf_sessions (ft_fetcher ?s)) k = Some sk" "w \<in> set (se_waiters sk)"
    then show "(w, k) \<in> ?acc" using callers_keptD(2) [OF parts(4), of k sk w] unfolding run by blast
  next
    fix w d assume "(w, Some d) \<in> set (ft_replies ?s)"
    then have "(w, Some d) \<in> set (ft_replies s)" unfolding run by auto
    then show "(w, hash_of sha d) \<in> ?acc" using callers_keptD(3) [OF parts(4)] by blast
  qed
  with parts(1-3) show ?thesis by (simp add: fetch_inv_def eq answer_def requests_sent_def)
qed

text \<open>Any other chunk: a session is opened and the ranked peers are walked.\<close>

lemma fetch_chunk_inv_new:
  assumes fresh: "rids_fresh N" and inv: "fetch_inv sha acc {} s"
    and new: "hget (cf_sessions (ft_fetcher s)) h = None" "pin \<or> \<not> is_blocked now (ft_fetcher s) h"
  shows "fetch_inv sha (acc \<union> {(w, h) |w. reply = Some w}) {} (fetch_chunk N now h reply pin s)"
proof -
  let ?acc = "acc \<union> {(w, h) |w. reply = Some w}"
  let ?ws = "case reply of None \<Rightarrow> [] | Some w \<Rightarrow> [w]"
  note parts = fetch_inv_parts [OF inv]
  have ws: "w \<in> set ?ws \<longleftrightarrow> reply = Some w" for w by (auto split: option.split)
  let ?se = "\<lparr>se_waiters = ?ws, se_attempts = [], se_tried = {}, se_pin = pin\<rparr>"
  define s1 where "s1 = s\<lparr>ft_fetcher := (ft_fetcher s)\<lparr>cf_sessions := hinsert h ?se (cf_sessions (ft_fetcher s))\<rparr>\<rparr>"
  have run: "hget (cf_sessions (ft_fetcher s1)) k = (if k = h then Some ?se else hget (cf_sessions (ft_fetcher s)) k)"
    "cf_requests (ft_fetcher s1) = cf_requests (ft_fetcher s)" "ft_swarm s1 = ft_swarm s" "ft_replies s1 = ft_replies s" for k
    by (simp_all add: s1_def)
  have "requests_linked (ft_fetcher s1)"
    using parts(1) new(1) unfolding requests_linked_def run by (auto split: if_splits)
  moreover have "requests_sent s1" using parts(2) by (simp add: requests_sent_def run)
  moreover have "sessions_busy {h} (ft_fetcher s1)" using parts(3) by (auto simp: sessions_busy_def run)
  moreover have "callers_kept sha ?acc s1"
  proof (rule callers_keptI)
    fix w k assume "(w, k) \<in> ?acc"
    then show "(\<exists>d. (w, d) \<in> set (ft_replies s1)) \<or>
        (\<exists>se. hget (cf_sessions (ft_fetcher s1)) k = Some se \<and> w \<in> set (se_waiters se))"
      using callers_keptD(1) [OF parts(4), of w k] new(1) ws [of w] unfolding run by (cases "k = h") auto
  next
    fix k sk w assume "hget (cf_sessions (ft_fetcher s1)) k = Some sk" "w \<in> set (se_waiters sk)"
    then show "(w, k) \<in> ?acc"
      using callers_keptD(2) [OF parts(4), of k sk w] new(1) ws [of w] unfolding run by (cases "k = h") auto
  next
    fix w d assume "(w, Some d) \<in> set (ft_replies s1)"
    then show "(w, hash_of sha d) \<in> ?acc" using callers_keptD(3) [OF parts(4)] unfolding run by blast
  qed
  ultimately have "fetch_inv sha ?acc {h} s1" by (simp add: fetch_inv_def)
  from walk_down_inv [OF fresh this] have "fetch_inv sha ?acc {} (walk_down N now h s1)" by (simp add: run)
  with new show ?thesis by (auto simp: fetch_chunk_def Let_def hcontains_def s1_def)
qed

lemma fetch_chunk_inv:
  assumes "rids_fresh N" and "fetch_inv sha acc {} s"
  shows "fetch_inv sha (acc \<union> {(w, h) |w. reply = Some w}) {} (fetch_chunk N now h reply pin s)"
proof -
  consider (waiting) se where "hget (cf_sessions (ft_fetcher s)) h = Some se"
    | (blocked) "hget (cf_sessions (ft_fetcher s)) h = None" "\<not> pin" "is_blocked now (ft_fetcher s) h"
    | (new) "hget (cf_sessions (ft_fetcher s)) h = None" "pin \<or> \<not> is_blocked now (ft_fetcher s) h"
    by (cases "hget (cf_sessions (ft_fetcher s)) h") auto
  then show ?thesis
    by cases (rule fetch_chunk_inv_waiting fetch_chunk_inv_blocked fetch_chunk_inv_new; (rule assms | assumption))+
qed

text \<open>The three outcomes of a response.\<close>

lemma handle_response_cases:
  fixes s :: fetch_state and fs :: "'t file_system"
  assumes "fetch_inv sha acc {} s" and "handle_response E N now rid data (s, fs) = (s', fs')"
  obtains (ignored) "hget (cf_requests (ft_fetcher s)) rid = None" and "s' = s" and "fs' = fs"
  | (mismatch) h where "hget (cf_requests (ft_fetcher s)) rid = Some h" and "hash_of (e_sha E) data \<noteq> h"
      and "s' = on_attempt_failed N now h rid
        (s\<lparr>ft_fetcher := (ft_fetcher s)\<lparr>cf_requests := hremove rid (cf_requests (ft_fetcher s))\<rparr>\<rparr>)"
      and "fs' = fs"
  | (arrived) se where "hget (cf_requests (ft_fetcher s)) rid = Some (hash_of (e_sha E) data)"
      and "hget (cf_sessions (ft_fetcher s)) (hash_of (e_sha E) data) = Some se"
      and "cf_sessions (ft_fetcher s') = hremove (hash_of (e_sha E) data) (cf_sessions (ft_fetcher s))"
      and "cf_requests (ft_fetcher s') =
        fold hremove (map fst (se_attempts se)) (hremove rid (cf_requests (ft_fetcher s)))"
      and "ft_swarm s' = ft_swarm s"
      and "ft_replies s' = ft_replies s @ map (\<lambda>w. (w, Some data)) (se_waiters se)"
      and "fs' = (if se_pin se then (case fs_pin_chunk E data fs of (Inr _, fs) \<Rightarrow> fs | (Inl _, fs) \<Rightarrow> fs_cache_chunk E data fs)
                  else fs_cache_chunk E data fs)"
proof (cases "hget (cf_requests (ft_fetcher s)) rid")
  case None
  with assms(2) show thesis by (intro ignored) (simp_all add: handle_response_def Let_def)
next
  case (Some h)
  show thesis
  proof (cases "hash_of (e_sha E) data = h")
    case False
    with assms(2) Some show thesis by (intro mismatch) (auto simp: handle_response_def Let_def)
  next
    case True
    obtain se where se: "hget (cf_sessions (ft_fetcher s)) h = Some se"
      using linkedD [OF fetch_inv_parts(1) [OF assms(1)] Some] .
    show thesis
      by (rule arrived [of se])
        (use assms(2) Some True se in \<open>auto simp: handle_response_def Let_def answer_def block_chunk_def
           split: if_splits prod.splits sum.splits\<close>)
  qed
qed

lemma handle_response_inv:
  assumes "rids_fresh N" and "fetch_inv (e_sha E) acc {} s" and "handle_response E N now rid data (s, fs) = (s', fs')"
  shows "fetch_inv (e_sha E) acc {} s'"
  using assms(2,3)
proof (cases rule: handle_response_cases)
  case ignored
  with assms(2) show ?thesis by simp
next
  case (mismatch h)
  with attempt_failed_inv [OF assms(1,2)] show ?thesis by simp
next
  case (arrived se)
  let ?h = "hash_of (e_sha E) data"
  note parts = fetch_inv_parts [OF assms(2)]
  have "requests_linked (ft_fetcher s')"
    unfolding requests_linked_def
  proof (intro allI)
    fix r k
    have link: "hget (cf_requests (ft_fetcher s)) r = Some j \<longleftrightarrow>
        (\<exists>se. hget (cf_sessions (ft_fetcher s)) j = Some se \<and> hget (se_attempts se) r \<noteq> None)" for j
      using parts(1) by (simp add: requests_linked_def)
    have "hget (se_attempts se) rid \<noteq> None" using parts(1) arrived(1,2) by (auto simp: requests_linked_def)
    then have "r \<in> set (map fst (se_attempts se)) \<or> r = rid \<longleftrightarrow> hget (cf_requests (ft_fetcher s)) r = Some ?h"
      using link [of ?h] arrived(1,2) by (auto simp: hkeys_iff)
    then show "hget (cf_requests (ft_fetcher s')) r = Some k \<longleftrightarrow>
        (\<exists>se. hget (cf_sessions (ft_fetcher s')) k = Some se \<and> hget (se_attempts se) r \<noteq> None)"
      using link [of k] unfolding arrived(3,4) by auto
  qed
  moreover have "requests_sent s'"
    using parts(2) by (auto simp: requests_sent_def arrived(4,5) split: if_splits)
  moreover have "sessions_busy {} (ft_fetcher s')" using parts(3) by (auto simp: sessions_busy_def arrived(3))
  moreover have "callers_kept (e_sha E) acc s'"
    by (rule callers_kept_end [OF parts(4) arrived(2) _ arrived(3,6)]) simp
  ultimately show ?thesis by (simp add: fetch_inv_def)
qed

section \<open>Runs\<close>

text \<open>The callers an event brings.\<close>

fun callers_of :: "event \<Rightarrow> (chunk_reply \<times> chunk_hash) set" where
  "callers_of (Command (FetchChunk h (Some w) pin)) = {(w, h)}"
| "callers_of ev = {}"

text \<open>The fetcher after some events, each with the file system as it then is; between them the swarm
  changes and the other handlers send requests of their own.\<close>

inductive fetch_reachable ::
  "'t fs_env \<Rightarrow> net_env \<Rightarrow> (chunk_reply \<times> chunk_hash) set \<Rightarrow> fetch_state \<Rightarrow> bool" for E N where
  start: "fetch_reachable E N {} \<lparr>ft_fetcher = chunk_fetcher_default, ft_swarm = sw, ft_replies = []\<rparr>"
| event: "fetch_reachable E N acc s \<Longrightarrow> chunk_handle E N now ev (s, fs) = (ev', s', fs') \<Longrightarrow>
    fetch_reachable E N (acc \<union> callers_of ev) s'"
| world: "fetch_reachable E N acc s \<Longrightarrow> sw_sent sw = sw_sent (ft_swarm s) @ new \<Longrightarrow>
    fetch_reachable E N acc (s\<lparr>ft_swarm := sw\<rparr>)"

lemma swarm_change_inv:
  assumes "fetch_inv sha acc H s" and "set (sw_sent (ft_swarm s)) \<subseteq> set (sw_sent sw)"
  shows "fetch_inv sha acc H (s\<lparr>ft_swarm := sw\<rparr>)"
  using assms unfolding fetch_inv_def requests_sent_def callers_kept_def by fastforce

lemma chunk_handle_inv:
  assumes "rids_fresh N" and "fetch_inv (e_sha E) acc {} s" and "chunk_handle E N now ev (s, fs) = (ev', s', fs')"
  shows "fetch_inv (e_sha E) (acc \<union> callers_of ev) {} s'"
proof -
  consider (fetch) h reply pin where "ev = Command (FetchChunk h reply pin)"
    | (pull) h reply where "ev = RequestEvent (PullChunk h) (Some reply)"
    | (data) rid d where "ev = ResponseEvent rid (ChunkData d)"
    | (failure) rid where "(\<exists>e. ev = ResponseEvent rid (ErrorResponse e)) \<or> ev = SwarmEvent (OutboundFailure rid)"
    | (other) "s' = s" "callers_of ev = {}"
    using assms(3) by (cases "(E, N, now, ev, s, fs)" rule: chunk_handle.cases) (auto split: option.splits)
  then show ?thesis
  proof cases
    case fetch
    have "callers_of ev = {(w, h) |w. reply = Some w}" by (cases reply) (auto simp: fetch)
    with fetch fetch_chunk_inv [OF assms(1,2)] assms(3) show ?thesis by auto
  next
    case pull
    with assms(3) swarm_change_inv [OF assms(2)] show ?thesis
      by (auto simp: send_response_def split: prod.splits)
  next
    case data
    with assms(3) handle_response_inv [OF assms(1,2)] show ?thesis by auto
  next
    case failure
    with assms(3) handle_failure_inv [OF assms(1,2)] show ?thesis by auto
  next
    case other
    with assms(2) show ?thesis by simp
  qed
qed

lemma fetch_reachable_inv:
  assumes "rids_fresh N" and "fetch_reachable E N acc s"
  shows "fetch_inv (e_sha E) acc {} s"
  using assms(2)
proof induction
  case (start sw)
  show ?case
    by (simp add: fetch_inv_def requests_linked_def requests_sent_def sessions_busy_def callers_kept_def
        chunk_fetcher_default_def)
next
  case (event acc s now ev fs ev' s' fs')
  with chunk_handle_inv [OF assms(1)] show ?case by blast
next
  case (world acc s sw new)
  then show ?case using swarm_change_inv [of _ acc "{}" s sw] by simp
qed

section \<open>Progress\<close>

definition untried :: "chunk_hash \<Rightarrow> fetch_state \<Rightarrow> peer_id set" where
  "untried h s = set (sw_connected (ft_swarm s)) -
     (case hget (cf_sessions (ft_fetcher s)) h of None \<Rightarrow> {} | Some se \<Rightarrow> se_tried se)"

text \<open>The requests a session has outstanding, and how many failures it can still take.\<close>

definition outstanding :: "chunk_hash \<Rightarrow> fetch_state \<Rightarrow> request_id set" where
  "outstanding h s = {rid. hget (cf_requests (ft_fetcher s)) rid = Some h}"

definition chances :: "chunk_hash \<Rightarrow> fetch_state \<Rightarrow> nat" where
  "chances h s = card (outstanding h s) + card (untried h s)"

lemma outstanding_finite [simp]: "finite (outstanding h s)"
proof (rule finite_subset)
  show "outstanding h s \<subseteq> fst ` set (cf_requests (ft_fetcher s))"
    by (auto simp: outstanding_def hkeys_iff)
qed simp

lemma untried_finite [simp]: "finite (untried h s)"
  by (simp add: untried_def)

lemma next_targets_set:
  "set (next_targets N h connected tried limit) \<subseteq> set connected - tried"
  "distinct connected \<Longrightarrow> distinct (next_targets N h connected tried limit)"
  "next_targets N h connected tried limit = [] \<longleftrightarrow> limit = 0 \<or> set connected \<subseteq> tried"
  by (auto simp: next_targets_def top_peers_ranking filter_empty_conv dest: in_set_takeD)

lemma ask_peer_chances:
  assumes "rids_fresh N" and "fetch_inv sha acc H s" and "hget (cf_sessions (ft_fetcher s)) h = Some se"
    and "p \<in> untried h s"
  shows "chances h (ask_peer N h p s) = chances h s" and "untried h (ask_peer N h p s) = untried h s - {p}"
    and "sw_connected (ft_swarm (ask_peer N h p s)) = sw_connected (ft_swarm s)"
proof -
  let ?s = "ask_peer N h p s"
  show c: "sw_connected (ft_swarm ?s) = sw_connected (ft_swarm s)"
    by (simp add: ask_peer_def send_request_def Let_def)
  from ask_peer_inv(2) [OF assms(1-3), of p] obtain se' where
    "hget (cf_sessions (ft_fetcher ?s)) h = Some se'" "se_tried se' = insert p (se_tried se)" by blast
  then show un: "untried h ?s = untried h s - {p}" using assms(3) by (auto simp: untried_def c)
  obtain rid where new: "hget (cf_requests (ft_fetcher s)) rid = None"
    and "\<And>k. hget (cf_sessions (ft_fetcher ?s)) k = (if k = h
      then Some (se\<lparr>se_attempts := hinsert rid p (se_attempts se), se_tried := insert p (se_tried se)\<rparr>)
      else hget (cf_sessions (ft_fetcher s)) k)"
    and rq: "\<And>r. hget (cf_requests (ft_fetcher ?s)) r = (if r = rid then Some h else hget (cf_requests (ft_fetcher s)) r)"
    and "sw_sent (ft_swarm ?s) = sw_sent (ft_swarm s) @ [(rid, p, PullChunk h)]"
    and "ft_replies ?s = ft_replies s"
    by (rule ask_peer_effect [OF assms(1) fetch_inv_parts(2) [OF assms(2)] assms(3), of p]) (rule that)
  have "outstanding h ?s = insert rid (outstanding h s)" "rid \<notin> outstanding h s"
    using new by (auto simp: outstanding_def rq)
  then have "card (outstanding h ?s) = Suc (card (outstanding h s))" by simp
  moreover have "card (untried h s) = Suc (card (untried h ?s))"
    unfolding un using card_Suc_Diff1 [OF untried_finite assms(4)] by simp
  ultimately show "chances h ?s = chances h s" by (simp add: chances_def)
qed

lemma ask_all_chances:
  assumes "rids_fresh N" and "fetch_inv sha acc H s" and "hget (cf_sessions (ft_fetcher s)) h = Some se"
    and "set ps \<subseteq> untried h s" and "distinct ps"
  shows "chances h (fold (ask_peer N h) ps s) = chances h s \<and>
    sw_connected (ft_swarm (fold (ask_peer N h) ps s)) = sw_connected (ft_swarm s)"
  using assms(2-)
proof (induction ps arbitrary: s se H)
  case (Cons p ps)
  let ?s = "ask_peer N h p s"
  from ask_peer_inv(2) [OF assms(1) Cons.prems(1,2), of p] obtain se' where
    se': "hget (cf_sessions (ft_fetcher ?s)) h = Some se'" by blast
  have p: "p \<in> untried h s" using Cons.prems(3) by simp
  note one = ask_peer_chances [OF assms(1) Cons.prems(1,2) p]
  have "set ps \<subseteq> untried h ?s" using Cons.prems(3,4) unfolding one(2) by auto
  from Cons.IH [OF ask_peer_inv(1) [OF assms(1) Cons.prems(1,2)] se' this] Cons.prems(4)
  show ?case using one(1,3) by simp
qed simp

text \<open>One more failure: the session loses a chance, or it had only one and ends.\<close>

lemma failure_step:
  assumes "rids_fresh N" and "fetch_inv sha acc {} s" and "rid \<in> outstanding h s"
    and "distinct (sw_connected (ft_swarm s))" and "hget (cf_sessions (ft_fetcher s)) h = Some se"
    and s'_def: "s' = handle_failure N now rid s"
  shows "sw_connected (ft_swarm s') = sw_connected (ft_swarm s) \<and>
    (if chances h s = 1 then hget (cf_sessions (ft_fetcher s')) h = None \<and>
       ft_replies s' = ft_replies s @ map (\<lambda>w. (w, None)) (se_waiters se)
     else ft_replies s' = ft_replies s \<and> Suc (chances h s') = chances h s \<and>
       (\<exists>se'. hget (cf_sessions (ft_fetcher s')) h = Some se' \<and> se_waiters se' = se_waiters se))"
proof -
  let ?d = "drop_request rid h s"
  have rq: "hget (cf_requests (ft_fetcher s)) rid = Some h" using assms(3) by (simp add: outstanding_def)
  have keys: "hget (se_attempts se) r \<noteq> None \<longleftrightarrow> r \<in> outstanding h s" for r
    using fetch_inv_parts(1) [OF assms(2)] assms(5) by (auto simp: requests_linked_def outstanding_def)
  have s': "s' = (if hremove rid (se_attempts se) \<noteq> [] then ?d else walk_down N now h ?d)"
    using attempt_failed_eq [OF assms(5), of N now rid] rq by (simp add: s'_def handle_failure_def Let_def)
  have out: "outstanding h ?d = outstanding h s - {rid}" by (auto simp: outstanding_def)
  have un: "untried h ?d = untried h s" using assms(5) by (simp add: untried_def)
  have fewer: "Suc (chances h ?d) = chances h s"
    using card_Suc_Diff1 [OF outstanding_finite assms(3)] by (simp add: chances_def out un)
  have inv: "fetch_inv sha acc {h} ?d" using drop_request_inv [OF assms(2) rq] by simp
  let ?se = "se\<lparr>se_attempts := hremove rid (se_attempts se)\<rparr>"
  have se: "hget (cf_sessions (ft_fetcher ?d)) h = Some ?se" using assms(5) by simp
  show ?thesis
  proof (cases "hremove rid (se_attempts se) = []")
    case False
    then obtain r where "hget (hremove rid (se_attempts se)) r \<noteq> None"
      by (metis hget_None_keys image_eqI list.set_intros(1) neq_Nil_conv)
    then have "r \<in> outstanding h ?d" using keys [of r] by (auto simp: out split: if_splits)
    then have "0 < card (outstanding h ?d)" by (metis card_gt_0_iff empty_iff outstanding_finite)
    then have "chances h s \<noteq> 1" using fewer by (simp add: chances_def)
    with False fewer assms(5) show ?thesis by (simp add: s')
  next
    case True
    have "outstanding h ?d = {}"
    proof (rule ccontr)
      assume "outstanding h ?d \<noteq> {}"
      then obtain r where "hget (hremove rid (se_attempts se)) r \<noteq> None" using keys unfolding out by fastforce
      with True show False by simp
    qed
    then have ch: "chances h s = Suc (card (untried h s))" using fewer by (simp add: chances_def un)
    let ?targets = "next_targets N h (sw_connected (ft_swarm ?d)) (se_tried ?se) MAX_FETCH_TARGETS"
    have tset: "set ?targets \<subseteq> untried h ?d"
      using next_targets_set(1) [of N h _ "se_tried ?se"] assms(5) unfolding un by (simp add: untried_def)
    show ?thesis
    proof (cases "?targets = []")
      case none: True
      then have "untried h s = {}" using assms(5) by (simp add: next_targets_set(3) MAX_FETCH_TARGETS_def untried_def)
      with none True assms(5) ch show ?thesis
        by (simp add: s' walk_down_def Let_def answer_def block_chunk_def)
    next
      case some: False
      then have "untried h s \<noteq> {}" using tset un by (metis set_empty subset_empty)
      then have "chances h s \<noteq> 1" using ch by simp
      moreover have "walk_down N now h ?d = fold (ask_peer N h) ?targets ?d"
        using some assms(5) by (simp add: walk_down_def Let_def)
      moreover have "distinct ?targets" by (rule next_targets_set(2)) (simp add: assms(4))
      ultimately show ?thesis
        using True ask_all_chances [OF assms(1) inv se tset] ask_all_inv [OF assms(1) inv se, of ?targets] fewer
        by (auto simp: s')
    qed
  qed
qed

lemma session_outstanding:
  assumes "fetch_inv sha acc {} s" and "hget (cf_sessions (ft_fetcher s)) h = Some se"
  shows "outstanding h s \<noteq> {}"
proof -
  from fetch_inv_parts(3) [OF assms(1)] assms(2) have "se_attempts se \<noteq> []" by (simp add: sessions_busy_def)
  then obtain r where "hget (se_attempts se) r \<noteq> None"
    by (metis hget_None_keys image_eqI list.set_intros(1) neq_Nil_conv)
  then have "hget (cf_requests (ft_fetcher s)) r = Some h"
    using fetch_inv_parts(1) [OF assms(1)] assms(2) unfolding requests_linked_def by blast
  then show ?thesis by (auto simp: outstanding_def)
qed

definition fail_once :: "net_env \<Rightarrow> instant \<Rightarrow> (fetch_state \<Rightarrow> request_id) \<Rightarrow> fetch_state \<Rightarrow> fetch_state" where
  "fail_once N now pick s = handle_failure N now (pick s) s"

lemma failures_end:
  assumes "rids_fresh N" and "\<And>t. outstanding h t \<noteq> {} \<Longrightarrow> pick t \<in> outstanding h t"
    and "fetch_inv sha acc {} s" and "distinct (sw_connected (ft_swarm s))"
    and "hget (cf_sessions (ft_fetcher s)) h = Some se" and "chances h s = n"
  shows "hget (cf_sessions (ft_fetcher ((fail_once N now pick ^^ n) s))) h = None \<and>
    ft_replies ((fail_once N now pick ^^ n) s) = ft_replies s @ map (\<lambda>w. (w, None)) (se_waiters se) \<and>
    (\<forall>k < n. outstanding h ((fail_once N now pick ^^ k) s) \<noteq> {} \<and>
       ft_replies ((fail_once N now pick ^^ k) s) = ft_replies s)"
  using assms(3-)
proof (induction n arbitrary: s se)
  case 0
  then show ?case using session_outstanding [OF 0(1,3)] by (simp add: chances_def)
next
  case (Suc n)
  let ?s = "fail_once N now pick s"
  have ne: "outstanding h s \<noteq> {}" by (rule session_outstanding [OF Suc.prems(1,3)])
  note step = failure_step [OF assms(1) Suc.prems(1) assms(2) [OF ne] Suc.prems(2,3) fail_once_def [of N now pick s]]
  have eq: "(fail_once N now pick ^^ Suc k) s = (fail_once N now pick ^^ k) ?s" for k
    by (simp add: funpow_swap1)
  show ?case
  proof (cases n)
    case 0
    with step Suc.prems(4) ne show ?thesis by simp
  next
    case (Suc m)
    with step Suc.prems(4) obtain se' where se': "hget (cf_sessions (ft_fetcher ?s)) h = Some se'"
      "se_waiters se' = se_waiters se" and st: "sw_connected (ft_swarm ?s) = sw_connected (ft_swarm s)"
      "ft_replies ?s = ft_replies s" "chances h ?s = n" by auto
    have "fetch_inv sha acc {} ?s" using handle_failure_inv [OF assms(1) Suc.prems(1)] by (simp add: fail_once_def)
    from Suc.IH [OF this _ se'(1) st(3)] Suc.prems(2) st se'(2) have IH:
      "hget (cf_sessions (ft_fetcher ((fail_once N now pick ^^ n) ?s))) h = None"
      "ft_replies ((fail_once N now pick ^^ n) ?s) = ft_replies s @ map (\<lambda>w. (w, None)) (se_waiters se)"
      "\<forall>k < n. outstanding h ((fail_once N now pick ^^ k) ?s) \<noteq> {} \<and>
        ft_replies ((fail_once N now pick ^^ k) ?s) = ft_replies s" by auto
    have "outstanding h ((fail_once N now pick ^^ k) s) \<noteq> {} \<and> ft_replies ((fail_once N now pick ^^ k) s) = ft_replies s"
      if "k < Suc n" for k
    proof (cases k)
      case (Suc j)
      with that have "j < n" by simp
      with IH(3) show ?thesis unfolding Suc eq by blast
    qed (simp add: ne)
    with IH(1,2) show ?thesis unfolding eq by blast
  qed
qed

section \<open>A run for the witnesses\<close>

text \<open>Two peers are connected; a caller asks for a chunk, and both are asked for it.\<close>

definition demo_swarm :: swarm where
  "demo_swarm = \<lparr>sw_local = PeerId 1, sw_connected = [PeerId 2, PeerId 3],
     sw_sent = [], sw_given = [], sw_dialed = [], sw_gossip = []\<rparr>"

definition demo_fetch :: fetch_state where
  "demo_fetch = fetch_chunk demo_net 0 (ChunkHash [1, 2, 3]) (Some 9) False
     \<lparr>ft_fetcher = chunk_fetcher_default, ft_swarm = demo_swarm, ft_replies = []\<rparr>"

lemma demo_fetch_reachable: "fetch_reachable E demo_net {(9, ChunkHash [1, 2, 3])} demo_fetch"
  using fetch_reachable.event [OF fetch_reachable.start [of E demo_net demo_swarm],
      of 0 "Command (FetchChunk (ChunkHash [1, 2, 3]) (Some 9) False)"]
  by (simp add: demo_fetch_def)

lemma demo_fetch_eq:
  "demo_fetch = \<lparr>ft_fetcher = \<lparr>
       cf_sessions = [(ChunkHash [1, 2, 3], \<lparr>se_waiters = [9], se_attempts = [(2, PeerId 2), (1, PeerId 3)],
          se_tried = {PeerId 2, PeerId 3}, se_pin = False\<rparr>)],
       cf_requests = [(2, ChunkHash [1, 2, 3]), (1, ChunkHash [1, 2, 3])], cf_blocked_until = []\<rparr>,
     ft_swarm = demo_swarm\<lparr>sw_sent := [(1, PeerId 3, PullChunk (ChunkHash [1, 2, 3])),
       (2, PeerId 2, PullChunk (ChunkHash [1, 2, 3]))]\<rparr>, ft_replies = []\<rparr>"
  by code_simp

section \<open>Properties\<close>

text \<open>C13: No caller is lost. Every caller the fetcher accepted has been given an answer or waits in the
  session of its chunk, and that session has a request for the chunk outstanding at a peer, which the
  fetcher will recognise when it is answered or fails.\<close>

theorem fetch_callers_kept:
  assumes "rids_fresh N" and "fetch_reachable E N acc s" and "(w, h) \<in> acc"
  shows "(\<exists>d. (w, d) \<in> set (ft_replies s)) \<or>
    (\<exists>se rid peer. hget (cf_sessions (ft_fetcher s)) h = Some se \<and> w \<in> set (se_waiters se) \<and>
       hget (cf_requests (ft_fetcher s)) rid = Some h \<and> (rid, peer, PullChunk h) \<in> set (sw_sent (ft_swarm s)))"
proof -
  note inv = fetch_reachable_inv [OF assms(1,2)]
  have "\<exists>rid peer. hget (cf_requests (ft_fetcher s)) rid = Some h \<and> (rid, peer, PullChunk h) \<in> set (sw_sent (ft_swarm s))"
    if "hget (cf_sessions (ft_fetcher s)) h = Some se" for se
    using session_outstanding [OF inv that] fetch_inv_parts(2) [OF inv] by (auto simp: outstanding_def requests_sent_def)
  with callers_keptD(1) [OF fetch_inv_parts(4) [OF inv] assms(3)] show ?thesis by blast
qed

theorem fetch_callers_kept_witness:
  "(\<exists>d. (9, d) \<in> set (ft_replies demo_fetch)) \<or>
    (\<exists>se rid peer. hget (cf_sessions (ft_fetcher demo_fetch)) (ChunkHash [1, 2, 3]) = Some se \<and> 9 \<in> set (se_waiters se) \<and>
       hget (cf_requests (ft_fetcher demo_fetch)) rid = Some (ChunkHash [1, 2, 3]) \<and>
       (rid, peer, PullChunk (ChunkHash [1, 2, 3])) \<in> set (sw_sent (ft_swarm demo_fetch)))"
  by (rule fetch_callers_kept [OF rids_fresh_demo demo_fetch_reachable]) simp

text \<open>C31: A peer cannot pass off other data as a chunk: what a caller is given hashes to what that
  caller asked for, and a response changes the local storage only when the data it carries has the
  hash of the request it answers.\<close>

theorem fetch_replies_verified:
  assumes "rids_fresh N" and "fetch_reachable E N acc s"
  shows "(\<forall>w d. (w, Some d) \<in> set (ft_replies s) \<longrightarrow> (w, hash_of (e_sha E) d) \<in> acc) \<and>
    (\<forall>rid data. hget (cf_requests (ft_fetcher s)) rid \<noteq> Some (hash_of (e_sha E) data) \<longrightarrow>
       snd (handle_response E N now rid data (s, fs)) = fs)"
proof -
  note inv = fetch_reachable_inv [OF assms]
  have "snd (handle_response E N now rid data (s, fs)) = fs"
    if "hget (cf_requests (ft_fetcher s)) rid \<noteq> Some (hash_of (e_sha E) data)" for rid data
    using that by (simp add: handle_response_def Let_def split: option.split)
  with callers_keptD(3) [OF fetch_inv_parts(4) [OF inv]] show ?thesis by blast
qed

theorem fetch_replies_verified_witness:
  "snd (handle_response demo_env demo_net 7 1 [6] (demo_fetch, fs_new (nt_new ref_api (PeerId 1)) (storage_new 1000))) =
    fs_new (nt_new ref_api (PeerId 1)) (storage_new 1000)"
proof -
  have "hget (cf_requests (ft_fetcher demo_fetch)) 1 \<noteq> Some (hash_of (e_sha demo_env) [6])"
    by (simp add: demo_fetch_eq hget_def hash_of_def demo_env_def)
  with fetch_replies_verified [OF rids_fresh_demo demo_fetch_reachable [of demo_env], of 7] show ?thesis by blast
qed

text \<open>C14: A fetch ends. However the requests of a session fail, one after the other, the session asks
  the peers it has not tried, and after exactly as many failures as it had requests outstanding and
  connected peers untried it is gone and every caller waiting in it is told that there is no data;
  until then it always has a request outstanding.\<close>

theorem fetch_gives_up:
  assumes "rids_fresh N" and "fetch_reachable E N acc s" and "distinct (sw_connected (ft_swarm s))"
    and "hget (cf_sessions (ft_fetcher s)) h = Some se"
    and "\<And>t. outstanding h t \<noteq> {} \<Longrightarrow> pick t \<in> outstanding h t"
  shows "let run = (\<lambda>k. (fail_once N now pick ^^ k) s);
      n = card (outstanding h s) + card (set (sw_connected (ft_swarm s)) - se_tried se) in
    hget (cf_sessions (ft_fetcher (run n))) h = None \<and>
    ft_replies (run n) = ft_replies s @ map (\<lambda>w. (w, None)) (se_waiters se) \<and>
    (\<forall>k < n. outstanding h (run k) \<noteq> {} \<and> ft_replies (run k) = ft_replies s)"
  using failures_end [OF assms(1,5) fetch_reachable_inv [OF assms(1,2)] assms(3,4) refl, of now] assms(4)
  by (simp add: Let_def chances_def untried_def)

theorem fetch_gives_up_witness:
  defines "pick \<equiv> \<lambda>t. fst (hd (filter (\<lambda>(rid, k). hget (cf_requests (ft_fetcher t)) rid = Some (ChunkHash [1, 2, 3]))
      (cf_requests (ft_fetcher t))))"
  shows "ft_replies ((fail_once demo_net 7 pick ^^ 2) demo_fetch) = [(9, None)]"
proof -
  have pick: "pick t \<in> outstanding (ChunkHash [1, 2, 3]) t" if ne: "outstanding (ChunkHash [1, 2, 3]) t \<noteq> {}" for t
  proof -
    from ne obtain rid where rid: "hget (cf_requests (ft_fetcher t)) rid = Some (ChunkHash [1, 2, 3])"
      by (auto simp: outstanding_def)
    then have "(rid, ChunkHash [1, 2, 3]) \<in> set (cf_requests (ft_fetcher t))" by (auto simp: hget_def dest: map_of_SomeD)
    with rid have "filter (\<lambda>(rid, k). hget (cf_requests (ft_fetcher t)) rid = Some (ChunkHash [1, 2, 3]))
      (cf_requests (ft_fetcher t)) \<noteq> []" by (auto simp: filter_empty_conv)
    from hd_in_set [OF this] show ?thesis by (auto simp: pick_def outstanding_def split: prod.splits)
  qed
  have out: "outstanding (ChunkHash [1, 2, 3]) demo_fetch = {1, 2}"
    by (auto simp: outstanding_def demo_fetch_eq hget_def split: if_splits)
  have dist: "distinct (sw_connected (ft_swarm demo_fetch))" by (simp add: demo_fetch_eq demo_swarm_def)
  have se: "hget (cf_sessions (ft_fetcher demo_fetch)) (ChunkHash [1, 2, 3]) =
    Some \<lparr>se_waiters = [9], se_attempts = [(2, PeerId 2), (1, PeerId 3)], se_tried = {PeerId 2, PeerId 3}, se_pin = False\<rparr>"
    by (simp add: demo_fetch_eq hget_def)
  have n: "card {1 :: request_id, 2} + card (set (sw_connected (ft_swarm demo_fetch)) - {PeerId 2, PeerId 3}) = 2"
    by (simp add: demo_fetch_eq demo_swarm_def)
  have "ft_replies demo_fetch = []" by (simp add: demo_fetch_eq)
  with fetch_gives_up [OF rids_fresh_demo demo_fetch_reachable [of demo_env] dist se pick, of 7] show ?thesis
    unfolding out fetch_session.simps n Let_def by simp
qed

end
