(* ===== verification/Replication.thy ===== *)
theory Replication
  imports Network
begin

text \<open>
  Keeping each chunk on the peers that should hold it: \<open>src/src/network/handlers/replication.rs\<close>. The
  two members ranked highest for a chunk are its designated holders. A peer pins the chunks it is
  designated for, and gives up a pinned chunk only when every designated holder has said that it
  pins it.

  The command channel is \<open>tokio\<close>'s bounded queue, \<open>command_queue\<close>; \<open>now\<close> is the instant a call reads.
  The handler's calls of the file system are taken one after the other, with nothing in between.
\<close>

section \<open>The command channel\<close>

definition SWARM_CHANNEL_CAPACITY :: nat where "SWARM_CHANNEL_CAPACITY = 256"

record command_queue =
  cq_items :: "swarm_command list"
  cq_open :: bool

definition try_send :: "swarm_command \<Rightarrow> command_queue \<Rightarrow> bool \<times> command_queue" where
  "try_send cmd q =
     (if cq_open q \<and> length (cq_items q) < SWARM_CHANNEL_CAPACITY
      then (True, q\<lparr>cq_items := cq_items q @ [cmd]\<rparr>) else (False, q))"

section \<open>The code\<close>

definition REPLICATION_REBALANCE_INTERVAL :: nat where "REPLICATION_REBALANCE_INTERVAL = 5000"

definition REPLICATION_EVICTION_INTERVAL :: nat where "REPLICATION_EVICTION_INTERVAL = 30000"

definition MAX_HASHES_PER_PROBE :: nat where "MAX_HASHES_PER_PROBE = 256"

definition MAX_FETCHES_PER_REBALANCE :: nat where "MAX_FETCHES_PER_REBALANCE = 64"

definition current_members :: "swarm \<Rightarrow> peer_id list" where
  "current_members sw = sw_connected sw @ [sw_local sw]"

definition designated_holders :: "net_env \<Rightarrow> chunk_hash \<Rightarrow> peer_id list \<Rightarrow> peer_id list" where
  "designated_holders N hash members = top_peers (n_sha N) (n_peer_bytes N) hash members 2"

record replication =
  rp_next_rebalance :: instant
  rp_next_eviction :: instant
  rp_blocked_until :: "(chunk_hash, instant) hmap"
  rp_confirmed_holders :: "(chunk_hash, peer_id set) hmap"
  rp_pending_probes :: "(request_id, peer_id) hmap"

definition replication_new :: "instant \<Rightarrow> replication" where
  "replication_new now = \<lparr>rp_next_rebalance = now, rp_next_eviction = now, rp_blocked_until = [],
     rp_confirmed_holders = [], rp_pending_probes = []\<rparr>"

text \<open>The loop of \<open>rebalance\<close> over the live hashes; \<open>issued\<close> counts the fetches sent.\<close>

fun rebalance_loop ::
  "net_env \<Rightarrow> instant \<Rightarrow> peer_id list \<Rightarrow> peer_id \<Rightarrow> chunk_hash list \<Rightarrow> nat \<Rightarrow>
    replication \<Rightarrow> command_queue \<Rightarrow> 't file_system \<Rightarrow> replication \<times> command_queue \<times> 't file_system"
where
  "rebalance_loop N now members local [] issued rp q fs = (rp, q, fs)"
| "rebalance_loop N now members local (hash # live) issued rp q fs =
     (if local \<notin> set (designated_holders N hash members)
      then rebalance_loop N now members local live issued rp q fs
      else if fs_is_pinned fs hash then rebalance_loop N now members local live issued rp q fs
      else if (case hget (rp_blocked_until rp) hash of None \<Rightarrow> False | Some until \<Rightarrow> until > now)
      then rebalance_loop N now members local live issued rp q fs
      else if fs_is_cached fs hash then
        (case fs_promote_to_pinned hash fs of
           (True, fs) \<Rightarrow> rebalance_loop N now members local live issued rp q fs
         | (False, fs) \<Rightarrow>
             rebalance_loop N now members local live issued
               (rp\<lparr>rp_blocked_until := hinsert hash (now + CHUNK_FETCH_BACKOFF) (rp_blocked_until rp)\<rparr>) q fs)
      else if issued \<ge> MAX_FETCHES_PER_REBALANCE then (rp, q, fs)
      else
        (case try_send (FetchChunk hash None True) q of
           (True, q) \<Rightarrow> rebalance_loop N now members local live (issued + 1) rp q fs
         | (False, q) \<Rightarrow> rebalance_loop N now members local live issued rp q fs))"

definition rebalance ::
  "'t fs_env \<Rightarrow> net_env \<Rightarrow> instant \<Rightarrow> swarm \<Rightarrow> replication \<Rightarrow> command_queue \<Rightarrow> 't file_system \<Rightarrow>
    replication \<times> command_queue \<times> 't file_system"
where
  "rebalance E N now sw rp q fs =
     (let members = current_members sw in
      if length members = 1 then (rp, q, fs)
      else rebalance_loop N now members (sw_local sw) (n_hash_order N (fs_reachable_chunk_hashes E fs)) 0 rp q fs)"

text \<open>\<open>slice::chunks\<close>.\<close>

fun vec_chunks :: "nat \<Rightarrow> 'a list \<Rightarrow> 'a list list" where
  "vec_chunks n [] = []"
| "vec_chunks n (x # xs) = (if n = 0 then [] else take n (x # xs) # vec_chunks n (drop n (x # xs)))"

definition is_confirmed :: "(chunk_hash, peer_id set) hmap \<Rightarrow> chunk_hash \<Rightarrow> peer_id \<Rightarrow> bool" where
  "is_confirmed confirmed hash peer =
     (case hget confirmed hash of None \<Rightarrow> False | Some holders \<Rightarrow> peer \<in> holders)"

definition candidates_of :: "'t fs_env \<Rightarrow> net_env \<Rightarrow> swarm \<Rightarrow> 't file_system \<Rightarrow> chunk_hash list" where
  "candidates_of E N sw fs =
     filter (\<lambda>hash. hash \<in> fs_reachable_chunk_hashes E fs \<and>
         sw_local sw \<notin> set (designated_holders N hash (current_members sw)))
       (fs_pinned_hashes fs)"

definition push_holder ::
  "(chunk_hash, peer_id set) hmap \<Rightarrow> chunk_hash \<Rightarrow> peer_id \<Rightarrow>
    (peer_id, chunk_hash list) hmap \<Rightarrow> (peer_id, chunk_hash list) hmap"
where
  "push_holder confirmed hash peer by_holder =
     (if is_confirmed confirmed hash peer then by_holder
      else hinsert peer ((case hget by_holder peer of None \<Rightarrow> [] | Some hashes \<Rightarrow> hashes) @ [hash]) by_holder)"

definition probes_by_holder ::
  "net_env \<Rightarrow> peer_id list \<Rightarrow> (chunk_hash, peer_id set) hmap \<Rightarrow> chunk_hash list \<Rightarrow>
    (peer_id, chunk_hash list) hmap"
where
  "probes_by_holder N members confirmed candidates =
     fold (\<lambda>hash. fold (push_holder confirmed hash) (designated_holders N hash members)) candidates []"

definition send_probe ::
  "net_env \<Rightarrow> peer_id \<Rightarrow> chunk_hash list \<Rightarrow> replication \<times> swarm \<Rightarrow> replication \<times> swarm"
where
  "send_probe N peer batch s =
     (case s of (rp, sw) \<Rightarrow>
        (case send_request N peer (CheckChunks batch) sw of
           (rid, sw) \<Rightarrow> (rp\<lparr>rp_pending_probes := hinsert rid peer (rp_pending_probes rp)\<rparr>, sw)))"

definition probe_eviction_candidates ::
  "'t fs_env \<Rightarrow> net_env \<Rightarrow> 't file_system \<Rightarrow> replication \<times> swarm \<Rightarrow> replication \<times> swarm"
where
  "probe_eviction_candidates E N fs s =
     (case s of (rp, sw) \<Rightarrow>
        (let candidates = candidates_of E N sw fs in
         if candidates = [] then (rp\<lparr>rp_confirmed_holders := []\<rparr>, sw)
         else
           (let confirmed = filter (\<lambda>(hash, _). hash \<in> set candidates) (rp_confirmed_holders rp);
                by_holder = probes_by_holder N (current_members sw) confirmed candidates
            in fold (\<lambda>peer. fold (send_probe N peer)
                   (vec_chunks MAX_HASHES_PER_PROBE
                     (case hget by_holder peer of None \<Rightarrow> [] | Some hashes \<Rightarrow> hashes)))
                 (n_peer_order N (fst ` set by_holder)) (rp\<lparr>rp_confirmed_holders := confirmed\<rparr>, sw))))"

definition completed_of ::
  "'t fs_env \<Rightarrow> net_env \<Rightarrow> swarm \<Rightarrow> replication \<Rightarrow> 't file_system \<Rightarrow> chunk_hash list"
where
  "completed_of E N sw rp fs =
     filter (\<lambda>hash. hash \<in> fs_reachable_chunk_hashes E fs \<and>
         (\<forall>peer \<in> set (designated_holders N hash (current_members sw)).
            is_confirmed (rp_confirmed_holders rp) hash peer))
       (n_hash_order N (fst ` set (rp_confirmed_holders rp)))"

definition evict_completed :: "chunk_hash \<Rightarrow> replication \<times> 't file_system \<Rightarrow> replication \<times> 't file_system" where
  "evict_completed hash s =
     (case s of (rp, fs) \<Rightarrow>
        (rp\<lparr>rp_confirmed_holders := hremove hash (rp_confirmed_holders rp)\<rparr>,
         if fs_is_pinned fs hash then snd (fs_evict_chunk hash fs) else fs))"

definition evict_confirmed ::
  "'t fs_env \<Rightarrow> net_env \<Rightarrow> swarm \<Rightarrow> replication \<times> 't file_system \<Rightarrow> replication \<times> 't file_system"
where
  "evict_confirmed E N sw s = fold evict_completed (completed_of E N sw (fst s) (snd s)) s"

definition confirm_holder :: "peer_id \<Rightarrow> chunk_hash \<Rightarrow> replication \<Rightarrow> replication" where
  "confirm_holder peer hash rp =
     rp\<lparr>rp_confirmed_holders :=
          hinsert hash (insert peer (case hget (rp_confirmed_holders rp) hash of None \<Rightarrow> {} | Some holders \<Rightarrow> holders))
            (rp_confirmed_holders rp)\<rparr>"

text \<open>What the handler works on: its own state and channel, the swarm and the file system.\<close>

record 't replication_ctx =
  rc_state :: replication
  rc_queue :: command_queue
  rc_swarm :: swarm
  rc_fs :: "'t file_system"

definition rebalance_ctx :: "'t fs_env \<Rightarrow> net_env \<Rightarrow> instant \<Rightarrow> 't replication_ctx \<Rightarrow> 't replication_ctx" where
  "rebalance_ctx E N now c =
     (case rebalance E N now (rc_swarm c) (rc_state c) (rc_queue c) (rc_fs c) of
        (rp, q, fs) \<Rightarrow> c\<lparr>rc_state := rp, rc_queue := q, rc_fs := fs\<rparr>)"

fun replication_handle ::
  "'t fs_env \<Rightarrow> net_env \<Rightarrow> instant \<Rightarrow> event \<Rightarrow> 't replication_ctx \<Rightarrow> event \<times> 't replication_ctx"
where
  "replication_handle E N now (RequestEvent (CheckChunks hashes) reply) c =
     (case reply of
        None \<Rightarrow> (RequestEvent (CheckChunks hashes) None, c)
      | Some reply \<Rightarrow>
          (let held = filter (fs_is_pinned (rc_fs c)) hashes in
           (RequestEvent (CheckChunks hashes) None,
            c\<lparr>rc_swarm := send_response reply (HeldChunks held) (rc_swarm c)\<rparr>)))"
| "replication_handle E N now (ResponseEvent rid (HeldChunks hashes)) c =
     (ResponseEvent rid (HeldChunks hashes),
      case hget (rp_pending_probes (rc_state c)) rid of
        None \<Rightarrow> c
      | Some peer \<Rightarrow>
          (let rp = fold (confirm_holder peer) hashes
                 ((rc_state c)\<lparr>rp_pending_probes := hremove rid (rp_pending_probes (rc_state c))\<rparr>);
               (rp, fs) = evict_confirmed E N (rc_swarm c) (rp, rc_fs c)
           in c\<lparr>rc_state := rp, rc_fs := fs\<rparr>))"
| "replication_handle E N now (SwarmEvent (OutboundFailure rid)) c =
     (SwarmEvent (OutboundFailure rid),
      c\<lparr>rc_state := (rc_state c)\<lparr>rp_pending_probes := hremove rid (rp_pending_probes (rc_state c))\<rparr>\<rparr>)"
| "replication_handle E N now (SwarmEvent (ConnectionEstablished peer num)) c =
     (SwarmEvent (ConnectionEstablished peer num), rebalance_ctx E N now c)"
| "replication_handle E N now ev c = (ev, c)"

definition replication_tick :: "'t fs_env \<Rightarrow> net_env \<Rightarrow> instant \<Rightarrow> 't replication_ctx \<Rightarrow> 't replication_ctx" where
  "replication_tick E N now c =
     (let c = (if now \<ge> rp_next_rebalance (rc_state c)
               then rebalance_ctx E N now
                 (c\<lparr>rc_state := (rc_state c)\<lparr>rp_next_rebalance := now + REPLICATION_REBALANCE_INTERVAL\<rparr>\<rparr>)
               else c)
      in if now \<ge> rp_next_eviction (rc_state c)
         then (case probe_eviction_candidates E N (rc_fs c)
                 ((rc_state c)\<lparr>rp_next_eviction := now + REPLICATION_EVICTION_INTERVAL\<rparr>, rc_swarm c) of
                 (rp, sw) \<Rightarrow> c\<lparr>rc_state := rp, rc_swarm := sw\<rparr>)
         else c)"

end
