(* ===== verification/ReplicationRuns.thy ===== *)
theory ReplicationRuns
  imports Replication
begin

text \<open>
  What the replication handler (theory Replication) promises: which chunks a rebalance pins or asks
  for, what a round of probes asks, and that a chunk is given up only when its designated holders
  have all said that they pin it.
\<close>

section \<open>Pinned chunks\<close>

lemma evict_chunk_effect:
  "fs_tree (snd (fs_evict_chunk h fs)) = fs_tree fs"
  "fs_is_pinned (snd (fs_evict_chunk h fs)) k \<longleftrightarrow> k \<noteq> h \<and> fs_is_pinned fs k"
  by (auto simp: fs_evict_chunk_def fs_is_pinned_def storage_is_pinned_def storage_evict_def Let_def
      split: option.splits prod.splits)

lemma promote_chunk_effect:
  assumes "fs_promote_to_pinned h fs = (b, fs')"
  shows "fs_tree fs' = fs_tree fs" and "fs_is_pinned fs' k \<longleftrightarrow> fs_is_pinned fs k \<or> b \<and> k = h"
    and "fs_is_cached fs k \<Longrightarrow> fs_is_pinned fs' k \<or> fs_is_cached fs' k"
  using assms
  by (auto simp: fs_promote_to_pinned_def fs_is_pinned_def fs_is_cached_def storage_is_pinned_def
      storage_is_cached_def storage_promote_to_pinned_def Let_def split: option.splits prod.splits if_splits)

lemma ref_hashes_finite: "finite (ref_hashes_of md S)"
proof (rule finite_subset)
  let ?of = "\<lambda>c. case md c of Some (RegularFile _ _ rs) \<Rightarrow> ref_hash ` set rs | _ \<Rightarrow> {}"
  show "ref_hashes_of md S \<subseteq> (\<Union>c \<in> S. ?of c)" by (force simp: ref_hashes_of_def)
  show "finite (\<Union>c \<in> S. ?of c)" by (auto split: option.split node_meta.split)
qed

lemma visit_fold_finite:
  "finite r \<Longrightarrow> fold (visit_child md) cs (v, r, q) = (v', r', q') \<Longrightarrow> finite r'"
  using visit_fold_eq [of md cs v r q v' r' q'] by (simp add: ref_hashes_finite)

lemma reach_loop_finite: "finite reachable \<Longrightarrow> finite (reach_loop ch md visited reachable queue)"
proof (induction ch md visited reachable queue rule: reach_loop.induct)
  case (2 ch md visited reachable n queue)
  show ?case
  proof (cases "ch n")
    case (Inr cs)
    obtain v' r' q' where one: "fold (visit_child md) cs (visited, reachable, queue) = (v', r', q')" by (metis prod_cases3)
    from 2(2) [OF Inr one [symmetric] refl visit_fold_finite [OF 2(3) one]] Inr one show ?thesis by simp
  qed (use 2(1,3) in simp)
qed simp

lemma reachable_hashes_finite: "finite (fs_reachable_chunk_hashes E fs)"
  unfolding fs_reachable_chunk_hashes_def by (rule reach_loop_finite) simp

lemma order_okD: "order_ok ord \<Longrightarrow> finite A \<Longrightarrow> set (ord A) = A" "order_ok ord \<Longrightarrow> finite A \<Longrightarrow> distinct (ord A)"
  by (simp_all add: order_ok_def)

section \<open>Rebalance\<close>

definition wait_over :: "instant \<Rightarrow> replication \<Rightarrow> chunk_hash \<Rightarrow> bool" where
  "wait_over now rp h = (case hget (rp_blocked_until rp) h of None \<Rightarrow> True | Some until \<Rightarrow> until \<le> now)"

lemma try_send_cases:
  obtains "try_send cmd q = (True, q\<lparr>cq_items := cq_items q @ [cmd]\<rparr>)"
  | "try_send cmd q = (False, q)" and "\<not> cq_open q \<or> SWARM_CHANNEL_CAPACITY \<le> length (cq_items q)"
proof (cases "cq_open q \<and> length (cq_items q) < SWARM_CHANNEL_CAPACITY")
  case True
  then show thesis by (intro that(1)) (simp add: try_send_def)
next
  case False
  then show thesis by (intro that(2)) (auto simp: try_send_def)
qed

text \<open>What the loop does to one chunk, when the loop ends in \<open>(rp', q', fs')\<close> having queued \<open>new\<close>.\<close>

definition served ::
  "instant \<Rightarrow> chunk_hash \<Rightarrow> replication \<Rightarrow> command_queue \<Rightarrow> 't file_system \<Rightarrow> chunk_hash list \<Rightarrow> nat \<Rightarrow> bool"
where
  "served now h rp' q' fs' new issued \<longleftrightarrow> fs_is_pinned fs' h \<or> \<not> wait_over now rp' h \<or> h \<in> set new \<or>
     issued + length new = MAX_FETCHES_PER_REBALANCE \<or>
     \<not> cq_open q' \<or> SWARM_CHANNEL_CAPACITY \<le> length (cq_items q')"

text \<open>What the loop over \<open>live\<close> leads to from a state: \<open>new\<close> are the chunks it asks for.\<close>

definition loop_result where
  "loop_result N now members local live issued rp q fs rp' q' fs' new \<longleftrightarrow>
    cq_items q' = cq_items q @ map (\<lambda>h. FetchChunk h None True) new \<and>
    cq_open q' = cq_open q \<and> issued + length new \<le> MAX_FETCHES_PER_REBALANCE \<and>
    (\<forall>h \<in> set new. h \<in> set live \<and> local \<in> set (designated_holders N h members) \<and>
      \<not> fs_is_pinned fs h \<and> \<not> fs_is_cached fs h) \<and>
    (\<forall>h \<in> set live. local \<in> set (designated_holders N h members) \<longrightarrow> served now h rp' q' fs' new issued) \<and>
    (\<forall>h. fs_is_pinned fs h \<longrightarrow> fs_is_pinned fs' h) \<and>
    (\<forall>h. \<not> wait_over now rp h \<longrightarrow> \<not> wait_over now rp' h) \<and>
    fs_tree fs' = fs_tree fs \<and> rp' = rp\<lparr>rp_blocked_until := rp_blocked_until rp'\<rparr> \<and>
    (\<forall>h. fs_is_pinned fs' h \<longrightarrow> \<not> fs_is_pinned fs h \<longrightarrow>
      h \<in> set live \<and> local \<in> set (designated_holders N h members))"

text \<open>A chunk that is passed over: it is not this peer's, is pinned, has to wait, or the queue takes no more.\<close>

lemma loop_result_skip:
  assumes "loop_result N now members local live issued rp q fs rp' q' fs' new"
    and "local \<in> set (designated_holders N h members) \<Longrightarrow> fs_is_pinned fs h \<or> \<not> wait_over now rp h \<or>
      \<not> cq_open q \<or> SWARM_CHANNEL_CAPACITY \<le> length (cq_items q)"
  shows "loop_result N now members local (h # live) issued rp q fs rp' q' fs' new"
proof -
  have "served now h rp' q' fs' new issued" if "local \<in> set (designated_holders N h members)"
    using assms(2) [OF that] assms(1) unfolding served_def loop_result_def by auto
  with assms(1) show ?thesis unfolding loop_result_def by auto
qed

text \<open>A chunk that is cached is pinned, or has to wait when there is no room for it.\<close>

lemma loop_result_promote:
  assumes "fs_promote_to_pinned h fs = (b, fs1)" and "local \<in> set (designated_holders N h members)"
    and rp1: "rp1 = (if b then rp else rp\<lparr>rp_blocked_until := hinsert h (now + CHUNK_FETCH_BACKOFF) (rp_blocked_until rp)\<rparr>)"
    and new: "loop_result N now members local live issued rp1 q fs1 rp' q' fs' new"
  shows "loop_result N now members local (h # live) issued rp q fs rp' q' fs' new"
proof -
  note pe = promote_chunk_effect [OF assms(1)] and new = new [unfolded loop_result_def]
  have w: "\<not> wait_over now rp1 k" if "\<not> wait_over now rp k \<or> k = h \<and> \<not> b" for k
    using that unfolding wait_over_def rp1 CHUNK_FETCH_BACKOFF_def
    by (cases b; cases "k = h"; cases "hget (rp_blocked_until rp) k"; simp)
  have "fs_is_pinned fs' h \<or> \<not> wait_over now rp' h" using new w [of h] pe(2) [of h] by blast
  then have mine: "served now h rp' q' fs' new issued" by (auto simp: served_def)
  have rest: "cq_items q' = cq_items q @ map (\<lambda>h. FetchChunk h None True) new" "cq_open q' = cq_open q"
    "issued + length new \<le> MAX_FETCHES_PER_REBALANCE" "fs_tree fs' = fs_tree fs"
    using new pe(1) by metis+
  have "rp' = rp1\<lparr>rp_blocked_until := rp_blocked_until rp'\<rparr>" using new by blast
  moreover have "rp1\<lparr>rp_blocked_until := x\<rparr> = rp\<lparr>rp_blocked_until := x\<rparr>" for x by (simp add: rp1)
  ultimately have last: "rp' = rp\<lparr>rp_blocked_until := rp_blocked_until rp'\<rparr>" by simp
  have asked: "k \<in> set (h # live) \<and> local \<in> set (designated_holders N k members) \<and>
      \<not> fs_is_pinned fs k \<and> \<not> fs_is_cached fs k" if "k \<in> set new" for k
    using new that pe(2) [of k] pe(3) [of k] by auto
  have pinned: "k \<in> set (h # live) \<and> local \<in> set (designated_holders N k members)"
    if "fs_is_pinned fs' k" "\<not> fs_is_pinned fs k" for k
    using new that pe(2) [of k] assms(2) by (cases "k = h") auto
  have keep: "fs_is_pinned fs' k" if "fs_is_pinned fs k" for k using new that pe(2) [of k] by blast
  have wait: "\<not> wait_over now rp' k" if "\<not> wait_over now rp k" for k using new w [of k] that by blast
  have all: "served now k rp' q' fs' new issued"
    if "k \<in> set (h # live)" "local \<in> set (designated_holders N k members)" for k
    using new that mine by (cases "k = h") auto
  show ?thesis unfolding loop_result_def
    by (intro conjI allI ballI impI rest last) (use asked pinned keep wait all in blast)+
qed

lemma rebalance_loop_result:
  assumes "rebalance_loop N now members local live issued rp q fs = (rp', q', fs')"
    and "issued \<le> MAX_FETCHES_PER_REBALANCE"
  shows "\<exists>new. loop_result N now members local live issued rp q fs rp' q' fs' new"
  using assms
proof (induction live arbitrary: issued rp q fs)
  case Nil
  then show ?case by (intro exI [of _ "[]"]) (simp add: loop_result_def)
next
  case (Cons h live)
  let ?mine = "local \<in> set (designated_holders N h members)"
  have skip: ?case
    if run: "rebalance_loop N now members local live issued rp q fs = (rp', q', fs')"
      and mine_done: "?mine \<Longrightarrow> fs_is_pinned fs h \<or> \<not> wait_over now rp h \<or>
        \<not> cq_open q \<or> SWARM_CHANNEL_CAPACITY \<le> length (cq_items q)"
    using Cons.IH [OF run Cons.prems(2)] loop_result_skip [OF _ mine_done] by blast
  consider (other) "\<not> ?mine" | (pinned) ?mine "fs_is_pinned fs h"
    | (blocked) ?mine "\<not> fs_is_pinned fs h" "\<not> wait_over now rp h"
    | (promote) ?mine "\<not> fs_is_pinned fs h" "wait_over now rp h" "fs_is_cached fs h"
    | (stop) ?mine "\<not> fs_is_pinned fs h" "wait_over now rp h" "\<not> fs_is_cached fs h" "issued \<ge> MAX_FETCHES_PER_REBALANCE"
    | (ask) ?mine "\<not> fs_is_pinned fs h" "wait_over now rp h" "\<not> fs_is_cached fs h" "issued < MAX_FETCHES_PER_REBALANCE"
    by linarith
  then show ?case
  proof cases
    case blocked
    then show ?thesis
      by (intro skip) (use Cons.prems(1) in \<open>auto simp: wait_over_def split: option.splits\<close>)
  next
    case stop
    then have "(rp', q', fs') = (rp, q, fs)"
      using Cons.prems(1) by (simp add: wait_over_def split: option.splits)
    moreover have "issued = MAX_FETCHES_PER_REBALANCE" using stop(5) Cons.prems(2) by simp
    ultimately show ?thesis by (intro exI [of _ "[]"]) (simp add: loop_result_def served_def)
  next
    case promote
    obtain b fs1 where p: "fs_promote_to_pinned h fs = (b, fs1)" by fastforce
    let ?rp = "if b then rp else rp\<lparr>rp_blocked_until := hinsert h (now + CHUNK_FETCH_BACKOFF) (rp_blocked_until rp)\<rparr>"
    have run: "rebalance_loop N now members local live issued ?rp q fs1 = (rp', q', fs')"
      using promote Cons.prems(1) p by (simp add: wait_over_def split: option.splits bool.splits)
    from Cons.IH [OF run Cons.prems(2)] loop_result_promote [OF p promote(1) refl] show ?thesis by blast
  next
    case ask
    show ?thesis
    proof (cases rule: try_send_cases [of "FetchChunk h None True" q])
      case 2
      with ask show ?thesis
        by (intro skip) (use Cons.prems(1) in \<open>auto simp: wait_over_def split: option.splits\<close>)
    next
      case 1
      let ?q = "q\<lparr>cq_items := cq_items q @ [FetchChunk h None True]\<rparr>"
      have run: "rebalance_loop N now members local live (issued + 1) rp ?q fs = (rp', q', fs')"
        using ask Cons.prems(1) 1 by (simp add: wait_over_def split: option.splits)
      have le: "issued + 1 \<le> MAX_FETCHES_PER_REBALANCE" using ask(5) by simp
      from Cons.IH [OF run le] obtain new where "loop_result N now members local live (issued + 1) rp ?q fs rp' q' fs' new" by blast
      with ask show ?thesis by (intro exI [of _ "h # new"]) (auto simp: loop_result_def served_def)
    qed
  qed (use Cons.prems(1) in \<open>auto intro: skip\<close>)
qed

lemma rebalance_loop_effect:
  assumes "rebalance_loop N now members local live issued rp q fs = (rp', q', fs')"
    and "issued \<le> MAX_FETCHES_PER_REBALANCE"
  obtains new where "cq_items q' = cq_items q @ map (\<lambda>h. FetchChunk h None True) new"
    and "cq_open q' = cq_open q" and "issued + length new \<le> MAX_FETCHES_PER_REBALANCE"
    and "\<And>h. h \<in> set new \<Longrightarrow> h \<in> set live \<and> local \<in> set (designated_holders N h members) \<and>
      \<not> fs_is_pinned fs h \<and> \<not> fs_is_cached fs h"
    and "\<And>h. h \<in> set live \<Longrightarrow> local \<in> set (designated_holders N h members) \<Longrightarrow> served now h rp' q' fs' new issued"
    and "\<And>h. fs_is_pinned fs h \<Longrightarrow> fs_is_pinned fs' h"
    and "\<And>h. \<not> wait_over now rp h \<Longrightarrow> \<not> wait_over now rp' h"
    and "fs_tree fs' = fs_tree fs" and "rp' = rp\<lparr>rp_blocked_until := rp_blocked_until rp'\<rparr>"
    and "\<And>h. fs_is_pinned fs' h \<Longrightarrow> \<not> fs_is_pinned fs h \<Longrightarrow>
      h \<in> set live \<and> local \<in> set (designated_holders N h members)"
  using rebalance_loop_result [OF assms] that unfolding loop_result_def by blast

section \<open>Probes\<close>

lemma vec_chunks_concat: "0 < n \<Longrightarrow> concat (vec_chunks n xs) = xs"
  by (induction n xs rule: vec_chunks.induct) simp_all

lemma vec_chunks_sizes: "0 < n \<Longrightarrow> b \<in> set (vec_chunks n xs) \<Longrightarrow> b \<noteq> [] \<and> length b \<le> n"
  by (induction n xs rule: vec_chunks.induct) auto

definition hashes_for :: "(peer_id, chunk_hash list) hmap \<Rightarrow> peer_id \<Rightarrow> chunk_hash list" where
  "hashes_for by_holder peer = (case hget by_holder peer of None \<Rightarrow> [] | Some hashes \<Rightarrow> hashes)"

lemma push_holder_set:
  "set (hashes_for (push_holder conf h p bh) q) =
     set (hashes_for bh q) \<union> (if q = p \<and> \<not> is_confirmed conf h p then {h} else {})"
  by (auto simp: push_holder_def hashes_for_def)

lemma push_holders_set:
  "set (hashes_for (fold (push_holder conf h) ps bh) q) =
     set (hashes_for bh q) \<union> (if q \<in> set ps \<and> \<not> is_confirmed conf h q then {h} else {})"
  by (induction ps arbitrary: bh) (auto simp: push_holder_set)

lemma probes_by_holder_set:
  "set (hashes_for (probes_by_holder N members conf cs) q) =
     {h \<in> set cs. q \<in> set (designated_holders N h members) \<and> \<not> is_confirmed conf h q}"
proof -
  have "set (hashes_for (fold (\<lambda>h. fold (push_holder conf h) (designated_holders N h members)) cs bh) q) =
    set (hashes_for bh q) \<union> {h \<in> set cs. q \<in> set (designated_holders N h members) \<and> \<not> is_confirmed conf h q}" for bh
    by (induction cs arbitrary: bh) (auto simp: push_holders_set)
  then show ?thesis by (simp add: probes_by_holder_def hashes_for_def)
qed

lemma send_probe_effect:
  assumes "send_probe N peer b (rp, sw) = (rp', sw')"
  shows "\<exists>rid. sw' = sw\<lparr>sw_sent := sw_sent sw @ [(rid, peer, CheckChunks b)]\<rparr> \<and>
    rp' = rp\<lparr>rp_pending_probes := hinsert rid peer (rp_pending_probes rp)\<rparr>"
  using assms by (auto simp: send_probe_def send_request_def Let_def)

text \<open>What a round of probes does: the requests \<open>new\<close> are sent, and every probe pending afterwards was
  pending before or is one of them.\<close>

definition probes_sent ::
  "(peer_id \<times> chunk_hash list) list \<Rightarrow> replication \<times> swarm \<Rightarrow> replication \<times> swarm \<Rightarrow> bool"
where
  "probes_sent asked s s' \<longleftrightarrow> (\<exists>new.
     snd s' = (snd s)\<lparr>sw_sent := sw_sent (snd s) @ new\<rparr> \<and>
     map snd new = map (\<lambda>(p, b). (p, CheckChunks b)) asked \<and>
     fst s' = (fst s)\<lparr>rp_pending_probes := rp_pending_probes (fst s')\<rparr> \<and>
     (\<forall>rid p. hget (rp_pending_probes (fst s')) rid = Some p \<longrightarrow>
        hget (rp_pending_probes (fst s)) rid = Some p \<or> (\<exists>b. (rid, p, CheckChunks b) \<in> set new)))"

lemma probes_sent_trans:
  assumes "probes_sent as s s1" and "probes_sent bs s1 s2"
  shows "probes_sent (as @ bs) s s2"
proof -
  from assms(1) obtain new1 where 1: "snd s1 = (snd s)\<lparr>sw_sent := sw_sent (snd s) @ new1\<rparr>"
    "map snd new1 = map (\<lambda>(p, b). (p, CheckChunks b)) as"
    "fst s1 = (fst s)\<lparr>rp_pending_probes := rp_pending_probes (fst s1)\<rparr>"
    "\<And>rid p. hget (rp_pending_probes (fst s1)) rid = Some p \<Longrightarrow>
        hget (rp_pending_probes (fst s)) rid = Some p \<or> (\<exists>b. (rid, p, CheckChunks b) \<in> set new1)"
    unfolding probes_sent_def by blast
  from assms(2) obtain new2 where 2: "snd s2 = (snd s1)\<lparr>sw_sent := sw_sent (snd s1) @ new2\<rparr>"
    "map snd new2 = map (\<lambda>(p, b). (p, CheckChunks b)) bs"
    "fst s2 = (fst s1)\<lparr>rp_pending_probes := rp_pending_probes (fst s2)\<rparr>"
    "\<And>rid p. hget (rp_pending_probes (fst s2)) rid = Some p \<Longrightarrow>
        hget (rp_pending_probes (fst s1)) rid = Some p \<or> (\<exists>b. (rid, p, CheckChunks b) \<in> set new2)"
    unfolding probes_sent_def by blast
  have "fst s2 = (fst s)\<lparr>rp_pending_probes := rp_pending_probes (fst s2)\<rparr>"
    by (subst 2(3), subst 1(3)) simp
  moreover have "snd s2 = (snd s)\<lparr>sw_sent := sw_sent (snd s) @ new1 @ new2\<rparr>" by (simp add: 2(1) 1(1))
  ultimately show ?thesis
    unfolding probes_sent_def using 1(2,4) 2(2,4)
    by (intro exI [of _ "new1 @ new2"]) (auto, blast+)
qed

lemma probes_sent_keeps:
  assumes "probes_sent asked s s'"
  shows "rp_confirmed_holders (fst s') = rp_confirmed_holders (fst s)"
    and "sw_local (snd s') = sw_local (snd s)" and "set (sw_sent (snd s)) \<subseteq> set (sw_sent (snd s'))"
proof -
  from assms obtain new where new: "snd s' = (snd s)\<lparr>sw_sent := sw_sent (snd s) @ new\<rparr>"
    and eq: "fst s' = (fst s)\<lparr>rp_pending_probes := rp_pending_probes (fst s')\<rparr>"
    unfolding probes_sent_def by blast
  from arg_cong [OF eq, of rp_confirmed_holders]
  show "rp_confirmed_holders (fst s') = rp_confirmed_holders (fst s)" by simp
  show "sw_local (snd s') = sw_local (snd s)" "set (sw_sent (snd s)) \<subseteq> set (sw_sent (snd s'))"
    by (simp_all add: new)
qed

lemma probes_sent_one: "probes_sent [(p, b)] s (send_probe N p b s)"
proof -
  obtain rp sw rp' sw' where s: "s = (rp, sw)" "send_probe N p b (rp, sw) = (rp', sw')" by fastforce
  from send_probe_effect [OF s(2)] obtain rid where
    "sw' = sw\<lparr>sw_sent := sw_sent sw @ [(rid, p, CheckChunks b)]\<rparr>"
    "rp' = rp\<lparr>rp_pending_probes := hinsert rid p (rp_pending_probes rp)\<rparr>" by blast
  then show ?thesis unfolding probes_sent_def s
    by (intro exI [of _ "[(rid, p, CheckChunks b)]"]) (simp split: if_splits)
qed

lemma probes_sent_none: "probes_sent [] s s"
  by (simp add: probes_sent_def)

lemma probes_sent_batches: "probes_sent (map (Pair p) bs) s (fold (send_probe N p) bs s)"
proof (induction bs arbitrary: s)
  case (Cons b bs)
  from probes_sent_trans [OF probes_sent_one [of p b s N] Cons.IH] show ?case by simp
qed (simp add: probes_sent_none)

lemma probes_sent_all:
  "probes_sent (concat (map (\<lambda>p. map (Pair p) (bs p)) ps)) s (fold (\<lambda>p. fold (send_probe N p) (bs p)) ps s)"
proof (induction ps arbitrary: s)
  case (Cons p ps)
  from probes_sent_trans [OF probes_sent_batches [of p "bs p" s N] Cons.IH] show ?case by simp
qed (simp add: probes_sent_none)

text \<open>The round as a whole.\<close>

definition round_of :: "'t fs_env \<Rightarrow> net_env \<Rightarrow> 't file_system \<Rightarrow> replication \<Rightarrow> swarm \<Rightarrow> (peer_id \<times> chunk_hash) set" where
  "round_of E N fs rp sw = {(p, h). h \<in> set (candidates_of E N sw fs) \<and>
     p \<in> set (designated_holders N h (current_members sw)) \<and> \<not> is_confirmed (rp_confirmed_holders rp) h p}"

lemma hget_filter_keys:
  "hget (filter (\<lambda>(k, _). k \<in> S) m) k = (if k \<in> S then hget m k else None)"
  by (induction m) (auto simp: hget_def)

lemma probe_effect:
  assumes "order_ok (n_peer_order N)" and "probe_eviction_candidates E N fs (rp, sw) = (rp', sw')"
  obtains asked where "probes_sent asked (rp\<lparr>rp_confirmed_holders := rp_confirmed_holders rp'\<rparr>, sw) (rp', sw')"
    and "\<And>h p. is_confirmed (rp_confirmed_holders rp') h p \<Longrightarrow> is_confirmed (rp_confirmed_holders rp) h p"
    and "{(p, h). \<exists>b. (p, b) \<in> set asked \<and> h \<in> set b} = round_of E N fs rp sw"
    and "\<And>p b. (p, b) \<in> set asked \<Longrightarrow> b \<noteq> [] \<and> length b \<le> MAX_HASHES_PER_PROBE"
proof (cases "candidates_of E N sw fs = []")
  case True
  with assms(2) have "rp' = rp\<lparr>rp_confirmed_holders := []\<rparr>" "sw' = sw"
    by (simp_all add: probe_eviction_candidates_def Let_def)
  with True show thesis by (intro that [of "[]"]) (simp_all add: probes_sent_none is_confirmed_def round_of_def)
next
  case False
  define cs where "cs = candidates_of E N sw fs"
  define conf where "conf = filter (\<lambda>(hash, _). hash \<in> set cs) (rp_confirmed_holders rp)"
  define bh where "bh = probes_by_holder N (current_members sw) conf cs"
  define ps where "ps = n_peer_order N (fst ` set bh)"
  let ?bs = "\<lambda>p. vec_chunks MAX_HASHES_PER_PROBE (hashes_for bh p)"
  define asked where "asked = concat (map (\<lambda>p. map (Pair p) (?bs p)) ps)"
  have "(rp', sw') = fold (\<lambda>p. fold (send_probe N p) (?bs p)) ps (rp\<lparr>rp_confirmed_holders := conf\<rparr>, sw)"
    using assms(2) False by (simp add: probe_eviction_candidates_def Let_def cs_def conf_def bh_def ps_def hashes_for_def)
  from probes_sent_all [of ?bs ps "(rp\<lparr>rp_confirmed_holders := conf\<rparr>, sw)" N, folded this asked_def]
  have sent: "probes_sent asked (rp\<lparr>rp_confirmed_holders := conf\<rparr>, sw) (rp', sw')" .
  from probes_sent_keeps(1) [OF this] have conf': "rp_confirmed_holders rp' = conf" by simp
  have same: "is_confirmed conf h p \<longleftrightarrow> h \<in> set cs \<and> is_confirmed (rp_confirmed_holders rp) h p" for h p
    by (simp add: is_confirmed_def conf_def hget_filter_keys)
  have pos: "0 < MAX_HASHES_PER_PROBE" by (simp add: MAX_HASHES_PER_PROBE_def)
  have ps_set: "set ps = fst ` set bh" unfolding ps_def by (rule order_okD(1) [OF assms(1)]) simp
  have "(\<exists>b. (p, b) \<in> set asked \<and> h \<in> set b) \<longleftrightarrow> h \<in> set (hashes_for bh p)" for p h
  proof -
    have "(\<exists>b. (p, b) \<in> set asked \<and> h \<in> set b) \<longleftrightarrow> p \<in> set ps \<and> (\<exists>b \<in> set (?bs p). h \<in> set b)"
      by (auto simp: asked_def)
    also have "(\<exists>b \<in> set (?bs p). h \<in> set b) \<longleftrightarrow> h \<in> set (concat (?bs p))" by auto
    also have "\<dots> \<longleftrightarrow> h \<in> set (hashes_for bh p)" by (simp add: vec_chunks_concat [OF pos])
    also have "p \<in> set ps \<and> h \<in> set (hashes_for bh p) \<longleftrightarrow> h \<in> set (hashes_for bh p)"
      by (cases "hget bh p") (simp_all add: ps_set hkeys_iff hashes_for_def)
    finally show ?thesis .
  qed
  then have "{(p, h). \<exists>b. (p, b) \<in> set asked \<and> h \<in> set b} = round_of E N fs rp sw"
    unfolding bh_def probes_by_holder_set round_of_def by (auto simp: same cs_def)
  moreover have "b \<noteq> [] \<and> length b \<le> MAX_HASHES_PER_PROBE" if "(p, b) \<in> set asked" for p b
    using that vec_chunks_sizes [OF pos] by (auto simp: asked_def)
  ultimately show thesis by (intro that [of asked]) (use sent same in \<open>simp_all add: conf'\<close>)
qed

section \<open>Runs\<close>

text \<open>What a response tells: the peer the probe went to says that it pins these chunks.\<close>

fun heard_in :: "event \<Rightarrow> sent_log \<Rightarrow> (peer_id \<times> chunk_hash) set" where
  "heard_in (ResponseEvent rid (HeldChunks hashes)) log =
     {(p, h). h \<in> set hashes \<and> (\<exists>b. (rid, p, CheckChunks b) \<in> set log)}"
| "heard_in ev log = {}"

text \<open>The handler after some events and ticks; between them the other handlers and the rest of the
  program change the swarm, the queue and the file system. \<open>heard\<close> is what its probes have told.\<close>

inductive repl_reachable ::
  "'t fs_env \<Rightarrow> net_env \<Rightarrow> (peer_id \<times> chunk_hash) set \<Rightarrow> 't replication_ctx \<Rightarrow> bool" for E N where
  start: "repl_reachable E N {} \<lparr>rc_state = replication_new now, rc_queue = q, rc_swarm = sw, rc_fs = fs\<rparr>"
| event: "repl_reachable E N heard c \<Longrightarrow> replication_handle E N now ev c = (ev', c') \<Longrightarrow>
    repl_reachable E N (heard \<union> heard_in ev (sw_sent (rc_swarm c))) c'"
| tick: "repl_reachable E N heard c \<Longrightarrow> repl_reachable E N heard (replication_tick E N now c)"
| world: "repl_reachable E N heard c \<Longrightarrow> sw_local sw = sw_local (rc_swarm c) \<Longrightarrow>
    sw_sent sw = sw_sent (rc_swarm c) @ new \<Longrightarrow>
    repl_reachable E N heard (c\<lparr>rc_swarm := sw, rc_queue := q, rc_fs := fs\<rparr>)"

definition repl_inv :: "(peer_id \<times> chunk_hash) set \<Rightarrow> 't replication_ctx \<Rightarrow> bool" where
  "repl_inv heard c \<longleftrightarrow>
     (\<forall>rid p. hget (rp_pending_probes (rc_state c)) rid = Some p \<longrightarrow>
        p \<noteq> sw_local (rc_swarm c) \<and> (\<exists>b. (rid, p, CheckChunks b) \<in> set (sw_sent (rc_swarm c)))) \<and>
     (\<forall>h p. is_confirmed (rp_confirmed_holders (rc_state c)) h p \<longrightarrow>
        p \<noteq> sw_local (rc_swarm c) \<and> (p, h) \<in> heard)"

lemma repl_inv_change:
  assumes "repl_inv heard c" and "heard \<subseteq> heard'" and "sw_local (rc_swarm c') = sw_local (rc_swarm c)"
    and "set (sw_sent (rc_swarm c)) \<subseteq> set (sw_sent (rc_swarm c'))"
    and "\<And>rid p. hget (rp_pending_probes (rc_state c')) rid = Some p \<Longrightarrow>
      hget (rp_pending_probes (rc_state c)) rid = Some p"
    and "\<And>h p. is_confirmed (rp_confirmed_holders (rc_state c')) h p \<Longrightarrow>
      is_confirmed (rp_confirmed_holders (rc_state c)) h p"
  shows "repl_inv heard' c'"
  using assms unfolding repl_inv_def by (metis subsetD)

lemma rebalance_ctx_effect:
  assumes "order_ok (n_hash_order N)"
  shows "rc_swarm (rebalance_ctx E N now c) = rc_swarm c"
    and "rc_state (rebalance_ctx E N now c) =
      (rc_state c)\<lparr>rp_blocked_until := rp_blocked_until (rc_state (rebalance_ctx E N now c))\<rparr>"
    and "fs_is_pinned (rc_fs c) h \<Longrightarrow> fs_is_pinned (rc_fs (rebalance_ctx E N now c)) h"
    and "fs_tree (rc_fs (rebalance_ctx E N now c)) = fs_tree (rc_fs c)"
proof -
  obtain rp q fs where r: "rebalance E N now (rc_swarm c) (rc_state c) (rc_queue c) (rc_fs c) = (rp, q, fs)"
    by (metis prod_cases3)
  have "rp = (rc_state c)\<lparr>rp_blocked_until := rp_blocked_until rp\<rparr> \<and> fs_tree fs = fs_tree (rc_fs c) \<and>
    (\<forall>h. fs_is_pinned (rc_fs c) h \<longrightarrow> fs_is_pinned fs h)"
  proof (cases "length (current_members (rc_swarm c)) = 1")
    case True
    with r show ?thesis by (simp add: rebalance_def Let_def)
  next
    case False
    with r have "rebalance_loop N now (current_members (rc_swarm c)) (sw_local (rc_swarm c))
      (n_hash_order N (fs_reachable_chunk_hashes E (rc_fs c))) 0 (rc_state c) (rc_queue c) (rc_fs c) = (rp, q, fs)"
      by (simp add: rebalance_def Let_def)
    then show ?thesis by (rule rebalance_loop_effect) (simp, blast)
  qed
  with r show "rc_swarm (rebalance_ctx E N now c) = rc_swarm c"
    "rc_state (rebalance_ctx E N now c) =
      (rc_state c)\<lparr>rp_blocked_until := rp_blocked_until (rc_state (rebalance_ctx E N now c))\<rparr>"
    "fs_is_pinned (rc_fs c) h \<Longrightarrow> fs_is_pinned (rc_fs (rebalance_ctx E N now c)) h"
    "fs_tree (rc_fs (rebalance_ctx E N now c)) = fs_tree (rc_fs c)"
    by (simp_all add: rebalance_ctx_def)
qed

lemma rebalance_ctx_keeps:
  assumes "order_ok (n_hash_order N)"
  shows "rp_pending_probes (rc_state (rebalance_ctx E N now c)) = rp_pending_probes (rc_state c)"
    and "rp_confirmed_holders (rc_state (rebalance_ctx E N now c)) = rp_confirmed_holders (rc_state c)"
  using arg_cong [OF rebalance_ctx_effect(2) [OF assms], of rp_pending_probes]
    arg_cong [OF rebalance_ctx_effect(2) [OF assms], of rp_confirmed_holders] by simp_all

lemma repl_inv_rebalance:
  assumes "order_ok (n_hash_order N)" and "repl_inv heard c"
  shows "repl_inv heard (rebalance_ctx E N now c)"
  by (rule repl_inv_change [OF assms(2)])
    (simp_all add: rebalance_ctx_effect(1) [OF assms(1)] rebalance_ctx_keeps [OF assms(1)])

lemma confirm_holder_simps [simp]:
  "is_confirmed (rp_confirmed_holders (confirm_holder p h rp)) k q \<longleftrightarrow>
     k = h \<and> q = p \<or> is_confirmed (rp_confirmed_holders rp) k q"
  "rp_pending_probes (confirm_holder p h rp) = rp_pending_probes rp"
  by (auto simp: confirm_holder_def is_confirmed_def split: option.split)

lemma confirm_all_simps [simp]:
  "is_confirmed (rp_confirmed_holders (fold (confirm_holder p) hs rp)) k q \<longleftrightarrow>
     k \<in> set hs \<and> q = p \<or> is_confirmed (rp_confirmed_holders rp) k q"
  "rp_pending_probes (fold (confirm_holder p) hs rp) = rp_pending_probes rp"
  by (induction hs arbitrary: rp) auto

lemma evict_completed_simps [simp]:
  "rp_pending_probes (fst (evict_completed h s)) = rp_pending_probes (fst s)"
  "is_confirmed (rp_confirmed_holders (fst (evict_completed h s))) k q \<longleftrightarrow>
     k \<noteq> h \<and> is_confirmed (rp_confirmed_holders (fst s)) k q"
  "fs_tree (snd (evict_completed h s)) = fs_tree (snd s)"
  "fs_is_pinned (snd (evict_completed h s)) k \<longleftrightarrow> k \<noteq> h \<and> fs_is_pinned (snd s) k"
  by (auto simp: evict_completed_def is_confirmed_def evict_chunk_effect split: prod.splits)

lemma evict_all_simps [simp]:
  "rp_pending_probes (fst (fold evict_completed hs s)) = rp_pending_probes (fst s)"
  "is_confirmed (rp_confirmed_holders (fst (fold evict_completed hs s))) k q \<longleftrightarrow>
     k \<notin> set hs \<and> is_confirmed (rp_confirmed_holders (fst s)) k q"
  "fs_tree (snd (fold evict_completed hs s)) = fs_tree (snd s)"
  "fs_is_pinned (snd (fold evict_completed hs s)) k \<longleftrightarrow> k \<notin> set hs \<and> fs_is_pinned (snd s) k"
  by (induction hs arbitrary: s) auto

lemma held_chunks_inv:
  assumes "repl_inv heard c"
  shows "repl_inv (heard \<union> heard_in (ResponseEvent rid (HeldChunks hs)) (sw_sent (rc_swarm c)))
    (snd (replication_handle E N now (ResponseEvent rid (HeldChunks hs)) c))"
proof (cases "hget (rp_pending_probes (rc_state c)) rid")
  case None
  show ?thesis by (rule repl_inv_change [OF assms]) (simp_all add: None)
next
  case (Some p)
  with assms obtain b where p: "p \<noteq> sw_local (rc_swarm c)" "(rid, p, CheckChunks b) \<in> set (sw_sent (rc_swarm c))"
    unfolding repl_inv_def by blast
  let ?rp = "fold (confirm_holder p) hs ((rc_state c)\<lparr>rp_pending_probes := hremove rid (rp_pending_probes (rc_state c))\<rparr>)"
  obtain rp fs where e: "evict_confirmed E N (rc_swarm c) (?rp, rc_fs c) = (rp, fs)" by fastforce
  define cs where "cs = completed_of E N (rc_swarm c) ?rp (rc_fs c)"
  from e have fold: "fold evict_completed cs (?rp, rc_fs c) = (rp, fs)" by (simp add: evict_confirmed_def cs_def)
  have pending: "rp_pending_probes rp = hremove rid (rp_pending_probes (rc_state c))"
    using evict_all_simps(1) [of cs "(?rp, rc_fs c)"] by (simp add: fold)
  have conf: "is_confirmed (rp_confirmed_holders rp) k q \<Longrightarrow>
      k \<in> set hs \<and> q = p \<or> is_confirmed (rp_confirmed_holders (rc_state c)) k q" for k q
    using evict_all_simps(2) [of cs "(?rp, rc_fs c)" k q] by (simp add: fold)
  have res: "snd (replication_handle E N now (ResponseEvent rid (HeldChunks hs)) c) = c\<lparr>rc_state := rp, rc_fs := fs\<rparr>"
    using Some e by simp
  have "q \<noteq> sw_local (rc_swarm c) \<and> (q, k) \<in> heard \<union> heard_in (ResponseEvent rid (HeldChunks hs)) (sw_sent (rc_swarm c))"
    if "is_confirmed (rp_confirmed_holders rp) k q" for k q
    using conf [OF that] assms p unfolding repl_inv_def by auto
  moreover have "q \<noteq> sw_local (rc_swarm c) \<and> (\<exists>b. (r, q, CheckChunks b) \<in> set (sw_sent (rc_swarm c)))"
    if "hget (rp_pending_probes rp) r = Some q" for r q
    using that assms unfolding repl_inv_def by (simp add: pending split: if_splits)
  ultimately show ?thesis unfolding res repl_inv_def by simp
qed

lemma replication_handle_inv:
  assumes "order_ok (n_hash_order N)" and "repl_inv heard c" and "replication_handle E N now ev c = (ev', c')"
  shows "repl_inv (heard \<union> heard_in ev (sw_sent (rc_swarm c))) c'"
proof -
  consider (check) hs reply where "ev = RequestEvent (CheckChunks hs) reply"
    | (held) rid hs where "ev = ResponseEvent rid (HeldChunks hs)"
    | (failure) rid where "ev = SwarmEvent (OutboundFailure rid)"
    | (connected) peer num where "ev = SwarmEvent (ConnectionEstablished peer num)"
    | (other) "c' = c"
    using assms(3) by (cases "(E, N, now, ev, c)" rule: replication_handle.cases) auto
  then show ?thesis
  proof cases
    case check
    with assms(3) show ?thesis
      by (intro repl_inv_change [OF assms(2)]) (auto simp: send_response_def Let_def split: option.splits)
  next
    case held
    have "snd (replication_handle E N now ev c) = c'" using assms(3) by (simp only: snd_conv)
    with held_chunks_inv [OF assms(2), of rid hs E N now, folded held] show ?thesis by simp
  next
    case failure
    with assms(3) show ?thesis by (intro repl_inv_change [OF assms(2)]) (auto split: if_splits)
  next
    case connected
    with assms(3) repl_inv_rebalance [OF assms(1,2)] show ?thesis by auto
  next
    case other
    then show ?thesis by (intro repl_inv_change [OF assms(2)]) simp_all
  qed
qed

text \<open>A tick is a rebalance, perhaps, then a round of probes, perhaps.\<close>

lemma replication_tick_cases:
  obtains (ticked) c1 where "c1 = c \<or> (\<exists>c0. c0 = c\<lparr>rc_state := (rc_state c)\<lparr>rp_next_rebalance := rp_next_rebalance (rc_state c0)\<rparr>\<rparr> \<and>
      c1 = rebalance_ctx E N now c0)"
    and "replication_tick E N now c = c1 \<or> (\<exists>rp sw. probe_eviction_candidates E N (rc_fs c1)
        ((rc_state c1)\<lparr>rp_next_eviction := now + REPLICATION_EVICTION_INTERVAL\<rparr>, rc_swarm c1) = (rp, sw) \<and>
      replication_tick E N now c = c1\<lparr>rc_state := rp, rc_swarm := sw\<rparr>)"
proof -
  define c0 where "c0 = c\<lparr>rc_state := (rc_state c)\<lparr>rp_next_rebalance := now + REPLICATION_REBALANCE_INTERVAL\<rparr>\<rparr>"
  define c1 where "c1 = (if now \<ge> rp_next_rebalance (rc_state c) then rebalance_ctx E N now c0 else c)"
  show thesis
  proof (rule ticked [of c1])
    show "c1 = c \<or> (\<exists>c0. c0 = c\<lparr>rc_state := (rc_state c)\<lparr>rp_next_rebalance := rp_next_rebalance (rc_state c0)\<rparr>\<rparr> \<and>
        c1 = rebalance_ctx E N now c0)"
      unfolding c1_def by (auto intro!: exI [of _ c0]) (simp add: c0_def)
    show "replication_tick E N now c = c1 \<or> (\<exists>rp sw. probe_eviction_candidates E N (rc_fs c1)
          ((rc_state c1)\<lparr>rp_next_eviction := now + REPLICATION_EVICTION_INTERVAL\<rparr>, rc_swarm c1) = (rp, sw) \<and>
        replication_tick E N now c = c1\<lparr>rc_state := rp, rc_swarm := sw\<rparr>)"
      unfolding replication_tick_def c0_def [symmetric] c1_def [symmetric] Let_def
      by (auto split: prod.split)
  qed
qed

lemma probe_round_inv:
  assumes "order_ok (n_peer_order N)" and "repl_inv heard c"
    and "probe_eviction_candidates E N (rc_fs c) ((rc_state c)\<lparr>rp_next_eviction := t\<rparr>, rc_swarm c) = (rp, sw)"
  shows "repl_inv heard (c\<lparr>rc_state := rp, rc_swarm := sw\<rparr>)"
proof -
  let ?rp = "(rc_state c)\<lparr>rp_next_eviction := t\<rparr>"
  obtain asked where sent: "probes_sent asked (?rp\<lparr>rp_confirmed_holders := rp_confirmed_holders rp\<rparr>, rc_swarm c) (rp, sw)"
    and conf: "\<And>h p. is_confirmed (rp_confirmed_holders rp) h p \<Longrightarrow> is_confirmed (rp_confirmed_holders ?rp) h p"
    and round: "{(p, h). \<exists>b. (p, b) \<in> set asked \<and> h \<in> set b} = round_of E N (rc_fs c) ?rp (rc_swarm c)"
    and ne: "\<And>p b. (p, b) \<in> set asked \<Longrightarrow> b \<noteq> [] \<and> length b \<le> MAX_HASHES_PER_PROBE"
    by (rule probe_effect [OF assms(1,3)]) (rule that)
  from sent obtain new where sw: "sw = (rc_swarm c)\<lparr>sw_sent := sw_sent (rc_swarm c) @ new\<rparr>"
    and new: "map snd new = map (\<lambda>(p, b). (p, CheckChunks b)) asked"
    and pend: "\<And>rid p. hget (rp_pending_probes rp) rid = Some p \<Longrightarrow>
        hget (rp_pending_probes (rc_state c)) rid = Some p \<or> (\<exists>b. (rid, p, CheckChunks b) \<in> set new)"
    unfolding probes_sent_def by auto
  have remote: "p \<noteq> sw_local (rc_swarm c)" if "(rid, p, CheckChunks b) \<in> set new" for rid p b
  proof -
    from that have "(p, CheckChunks b) \<in> set (map snd new)" by force
    then have pb: "(p, b) \<in> set asked" unfolding new by auto
    with ne obtain h where "h \<in> set b" by (metis list.set_intros(1) neq_Nil_conv)
    with pb round have "(p, h) \<in> round_of E N (rc_fs c) ?rp (rc_swarm c)" by blast
    then show ?thesis by (auto simp: round_of_def candidates_of_def)
  qed
  have "p \<noteq> sw_local (rc_swarm c) \<and> (\<exists>b. (rid, p, CheckChunks b) \<in> set (sw_sent sw))"
    if "hget (rp_pending_probes rp) rid = Some p" for rid p
    using pend [OF that]
  proof (elim disjE exE)
    assume "hget (rp_pending_probes (rc_state c)) rid = Some p"
    with assms(2) show ?thesis unfolding repl_inv_def by (fastforce simp: sw)
  next
    fix b assume "(rid, p, CheckChunks b) \<in> set new"
    with remote show ?thesis by (auto simp: sw)
  qed
  moreover have "p \<noteq> sw_local (rc_swarm c) \<and> (p, h) \<in> heard" if "is_confirmed (rp_confirmed_holders rp) h p" for h p
    using conf [OF that] assms(2) unfolding repl_inv_def by simp
  ultimately show ?thesis unfolding repl_inv_def by (simp add: sw)
qed

lemma replication_tick_inv:
  assumes "order_ok (n_hash_order N)" and "order_ok (n_peer_order N)" and "repl_inv heard c"
  shows "repl_inv heard (replication_tick E N now c)"
proof (cases rule: replication_tick_cases [of c E N now])
  case (ticked c1)
  have "repl_inv heard c1"
    using ticked(1)
  proof (elim disjE exE conjE)
    fix c0 assume c0: "c0 = c\<lparr>rc_state := (rc_state c)\<lparr>rp_next_rebalance := rp_next_rebalance (rc_state c0)\<rparr>\<rparr>"
      "c1 = rebalance_ctx E N now c0"
    have "repl_inv heard c0" by (subst c0(1)) (rule repl_inv_change [OF assms(3)], simp_all)
    with c0(2) repl_inv_rebalance [OF assms(1)] show ?thesis by simp
  qed (use assms(3) in simp)
  with ticked(2) probe_round_inv [OF assms(2)] show ?thesis by metis
qed

lemma repl_reachable_inv:
  assumes "order_ok (n_hash_order N)" and "order_ok (n_peer_order N)" and "repl_reachable E N heard c"
  shows "repl_inv heard c"
  using assms(3)
proof induction
  case (start now q sw fs)
  show ?case by (simp add: repl_inv_def replication_new_def is_confirmed_def)
next
  case (event heard c now ev ev' c')
  with replication_handle_inv [OF assms(1)] show ?case by blast
next
  case (tick heard c now)
  with replication_tick_inv [OF assms(1,2)] show ?case by blast
next
  case (world heard c sw new q fs)
  show ?case by (rule repl_inv_change [OF world.IH]) (simp_all add: world.hyps)
qed

section \<open>A run for the witnesses\<close>

text \<open>Three members; the file's chunk belongs on the other two. This peer probes them, and they answer.\<close>

abbreviation (input) demo_hash :: chunk_hash where "demo_hash \<equiv> ChunkHash [1, 2, 3]"

definition demo_members :: swarm where
  "demo_members = \<lparr>sw_local = PeerId 1, sw_connected = [PeerId 2, PeerId 3],
     sw_sent = [], sw_given = [], sw_dialed = [], sw_gossip = []\<rparr>"

definition demo_ctx :: "'t file_system \<Rightarrow> 't replication_ctx" where
  "demo_ctx fs = \<lparr>rc_state = replication_new 0, rc_queue = \<lparr>cq_items = [], cq_open = True\<rparr>,
     rc_swarm = demo_members, rc_fs = fs\<rparr>"

lemma demo_designated:
  "designated_holders demo_net demo_hash [PeerId 2, PeerId 3, PeerId 1] = [PeerId 3, PeerId 2]"
  by code_simp

definition demo_probed :: replication where
  "demo_probed = \<lparr>rp_next_rebalance = 5000, rp_next_eviction = 30000, rp_blocked_until = [],
     rp_confirmed_holders = [], rp_pending_probes = [(2, PeerId 3), (1, PeerId 2)]\<rparr>"

lemma demo_sets:
  "n_peer_order demo_net {PeerId 2, PeerId 3} = [PeerId 2, PeerId 3]"
  "n_peer_order demo_net {PeerId 3, PeerId 2} = [PeerId 2, PeerId 3]"
  "n_hash_order demo_net {demo_hash} = [demo_hash]"
  by (code_simp, code_simp, simp add: demo_net_def)

lemma demo_rid: "n_new_rid demo_net log = Suc (fold max (map fst log) 0)"
  by (simp add: demo_net_def)

lemma demo_tick:
  assumes "fs_pinned_hashes fs = [demo_hash]" and "fs_is_pinned fs demo_hash"
    and "fs_reachable_chunk_hashes demo_env fs = {demo_hash}"
  shows "replication_tick demo_env demo_net 0 (demo_ctx fs) =
    (demo_ctx fs)\<lparr>rc_state := demo_probed,
       rc_swarm := demo_members\<lparr>sw_sent := [(1, PeerId 2, CheckChunks [demo_hash]), (2, PeerId 3, CheckChunks [demo_hash])]\<rparr>\<rparr>"
  using assms
  by (simp add: replication_tick_def demo_ctx_def replication_new_def rebalance_ctx_def rebalance_def
      current_members_def demo_members_def demo_designated [simplified] demo_sets demo_rid Let_def probe_eviction_candidates_def
      candidates_of_def probes_by_holder_def push_holder_def is_confirmed_def send_probe_def send_request_def
      demo_probed_def REPLICATION_REBALANCE_INTERVAL_def REPLICATION_EVICTION_INTERVAL_def
      MAX_HASHES_PER_PROBE_def hinsert_def hremove_def hget_def)

section \<open>Properties\<close>

text \<open>C15: A chunk is given up only when it is safe elsewhere. Whenever an event or a tick unpins a chunk,
  the chunk is in use, this peer is not one of its designated holders among the present members, and
  every designated holder has answered a probe of this peer by saying that it pins the chunk.\<close>

theorem eviction_confirmed:
  assumes "order_ok (n_hash_order N)" and "order_ok (n_peer_order N)" and "repl_reachable E N heard c"
    and "replication_handle E N now ev c = (ev', c') \<or> c' = replication_tick E N now c"
    and "fs_is_pinned (rc_fs c) h" and "\<not> fs_is_pinned (rc_fs c') h"
  shows "h \<in> fs_reachable_chunk_hashes E (rc_fs c) \<and>
    sw_local (rc_swarm c) \<notin> set (designated_holders N h (current_members (rc_swarm c))) \<and>
    (\<forall>p \<in> set (designated_holders N h (current_members (rc_swarm c))).
       (p, h) \<in> heard \<union> heard_in ev (sw_sent (rc_swarm c)))"
proof -
  note inv = repl_reachable_inv [OF assms(1-3)]
  have keeps: "fs_is_pinned (rc_fs (replication_tick E N now c)) h"
  proof (cases rule: replication_tick_cases [of c E N now])
    case (ticked c1)
    then have "fs_is_pinned (rc_fs c1) h"
      using assms(5) rebalance_ctx_effect(3) [OF assms(1)] by (metis replication_ctx.select_convs(4)
        replication_ctx.surjective replication_ctx.update_convs(1))
    with ticked(2) show ?thesis by auto
  qed
  with assms(4,6) have step: "replication_handle E N now ev c = (ev', c')" by blast
  consider (held) rid hs p where "ev = ResponseEvent rid (HeldChunks hs)"
      "hget (rp_pending_probes (rc_state c)) rid = Some p"
    | (connected) peer num where "ev = SwarmEvent (ConnectionEstablished peer num)"
    | (other) "rc_fs c' = rc_fs c"
    using step by (cases "(E, N, now, ev, c)" rule: replication_handle.cases) (auto split: option.splits)
  then show ?thesis
  proof cases
    case connected
    with step rebalance_ctx_effect(3) [OF assms(1,5)] assms(6) show ?thesis by auto
  next
    case other
    with assms(5,6) show ?thesis by simp
  next
    case held
    let ?rp = "fold (confirm_holder p) hs ((rc_state c)\<lparr>rp_pending_probes := hremove rid (rp_pending_probes (rc_state c))\<rparr>)"
    define cs where "cs = completed_of E N (rc_swarm c) ?rp (rc_fs c)"
    obtain rp fs where e: "evict_confirmed E N (rc_swarm c) (?rp, rc_fs c) = (rp, fs)" by fastforce
    then have fold: "fold evict_completed cs (?rp, rc_fs c) = (rp, fs)" by (simp add: evict_confirmed_def cs_def)
    have "rc_fs c' = fs" using step held e by auto
    with evict_all_simps(4) [of cs "(?rp, rc_fs c)" h] assms(5,6) have "h \<in> set cs" by (simp add: fold)
    then have live: "h \<in> fs_reachable_chunk_hashes E (rc_fs c)"
      and all: "\<And>q. q \<in> set (designated_holders N h (current_members (rc_swarm c))) \<Longrightarrow>
        is_confirmed (rp_confirmed_holders ?rp) h q"
      unfolding cs_def completed_of_def by auto
    have res: "snd (replication_handle E N now ev c) = c\<lparr>rc_state := rp, rc_fs := fs\<rparr>"
      using held e by simp
    from inv held(2) obtain b where p: "p \<noteq> sw_local (rc_swarm c)" "(rid, p, CheckChunks b) \<in> set (sw_sent (rc_swarm c))"
      unfolding repl_inv_def by blast
    have "q \<noteq> sw_local (rc_swarm c) \<and> (q, h) \<in> heard \<union> heard_in ev (sw_sent (rc_swarm c))"
      if "q \<in> set (designated_holders N h (current_members (rc_swarm c)))" for q
      using all [OF that] inv p unfolding repl_inv_def by (auto simp: held(1))
    with live show ?thesis by blast
  qed
qed

theorem eviction_confirmed_witness:
  "\<exists>(c :: node_operation list replication_ctx) (c' :: node_operation list replication_ctx). fs_is_pinned (rc_fs c) demo_hash \<and> \<not> fs_is_pinned (rc_fs c') demo_hash \<and>
     sw_local (rc_swarm c) \<notin> set (designated_holders demo_net demo_hash (current_members (rc_swarm c)))"
proof -
  obtain fs where fs: "fs_inv demo_env ref_valid fs" "fs_pinned_hashes fs = [demo_hash]"
    "fs_is_pinned fs demo_hash" "fs_reachable_chunk_hashes demo_env fs = {demo_hash}"
    by (rule demo_in_use) (rule that)
  let ?c = "replication_tick demo_env demo_net 0 (demo_ctx fs)"
  obtain c1 where c1: "replication_handle demo_env demo_net 1 (ResponseEvent 1 (HeldChunks [demo_hash])) ?c =
      (ResponseEvent 1 (HeldChunks [demo_hash]), c1)" by simp
  obtain c2 where c2: "replication_handle demo_env demo_net 2 (ResponseEvent 2 (HeldChunks [demo_hash])) c1 =
      (ResponseEvent 2 (HeldChunks [demo_hash]), c2)" by simp
  have "repl_reachable demo_env demo_net {} (demo_ctx fs)" unfolding demo_ctx_def by (rule repl_reachable.start)
  from repl_reachable.event [OF repl_reachable.tick [OF this, of 0] c1] obtain heard where
    reach: "repl_reachable demo_env demo_net heard c1" by blast
  have s1: "c1 = ?c\<lparr>rc_state := demo_probed\<lparr>rp_pending_probes := [(2, PeerId 3)],
      rp_confirmed_holders := [(demo_hash, {PeerId 2})]\<rparr>\<rparr>"
    using c1 unfolding demo_tick [OF fs(2-4)]
    by (simp add: demo_ctx_def demo_probed_def demo_members_def hget_def hremove_def hinsert_def confirm_holder_def
        evict_confirmed_def completed_of_def current_members_def demo_designated [simplified] demo_sets fs is_confirmed_def)
  have pinned: "fs_is_pinned (rc_fs c1) demo_hash"
    unfolding s1 demo_tick [OF fs(2-4)] by (simp add: demo_ctx_def fs)
  have gone: "\<not> fs_is_pinned (rc_fs c2) demo_hash"
    using c2 unfolding s1 demo_tick [OF fs(2-4)]
    by (auto simp: demo_ctx_def demo_probed_def demo_members_def hget_def hremove_def hinsert_def confirm_holder_def
        evict_confirmed_def completed_of_def current_members_def demo_designated [simplified] demo_sets fs is_confirmed_def
        evict_completed_def evict_chunk_effect)
  from eviction_confirmed [OF order_ok_demo(2,1) reach disjI1 [OF c2] pinned gone] pinned gone
  show ?thesis by blast
qed

text \<open>C29: Rebalancing serves every chunk this peer should hold. A peer that knows no other member does nothing at all.
  With other members, a chunk in use for which this peer is designated
  is pinned afterwards, or waits after a failed attempt, or has been asked for, unless the limit of
  fetches of one round or the room in the command queue is used up. It asks only for such chunks that it
  does not have, at most 64 of them, and unpins nothing.\<close>

theorem rebalance_serves:
  assumes "order_ok (n_hash_order N)" and "rebalance E N now sw rp q fs = (rp', q', fs')"
  shows "if length (current_members sw) = 1 then rp' = rp \<and> q' = q \<and> fs' = fs
    else \<exists>new. cq_items q' = cq_items q @ map (\<lambda>h. FetchChunk h None True) new \<and> length new \<le> 64 \<and>
      (\<forall>h \<in> set new. h \<in> fs_reachable_chunk_hashes E fs \<and>
         sw_local sw \<in> set (designated_holders N h (current_members sw)) \<and> \<not> fs_is_pinned fs h \<and> \<not> fs_is_cached fs h) \<and>
      (\<forall>h \<in> fs_reachable_chunk_hashes E fs. sw_local sw \<in> set (designated_holders N h (current_members sw)) \<longrightarrow>
         fs_is_pinned fs' h \<or> (\<exists>until > now. hget (rp_blocked_until rp') h = Some until) \<or> h \<in> set new \<or>
         length new = 64 \<or> \<not> cq_open q' \<or> SWARM_CHANNEL_CAPACITY \<le> length (cq_items q')) \<and>
      (\<forall>h. fs_is_pinned fs h \<longrightarrow> fs_is_pinned fs' h)"
proof (cases "length (current_members sw) = 1")
  case True
  with assms(2) show ?thesis by (simp add: rebalance_def Let_def)
next
  case False
  with assms(2) have "rebalance_loop N now (current_members sw) (sw_local sw)
      (n_hash_order N (fs_reachable_chunk_hashes E fs)) 0 rp q fs = (rp', q', fs')"
    by (simp add: rebalance_def Let_def)
  then obtain new where new: "cq_items q' = cq_items q @ map (\<lambda>h. FetchChunk h None True) new"
    and "cq_open q' = cq_open q" and len: "0 + length new \<le> MAX_FETCHES_PER_REBALANCE"
    and ask: "\<And>h. h \<in> set new \<Longrightarrow> h \<in> set (n_hash_order N (fs_reachable_chunk_hashes E fs)) \<and>
      sw_local sw \<in> set (designated_holders N h (current_members sw)) \<and> \<not> fs_is_pinned fs h \<and> \<not> fs_is_cached fs h"
    and srv: "\<And>h. h \<in> set (n_hash_order N (fs_reachable_chunk_hashes E fs)) \<Longrightarrow>
      sw_local sw \<in> set (designated_holders N h (current_members sw)) \<Longrightarrow> served now h rp' q' fs' new 0"
    and keep: "\<And>h. fs_is_pinned fs h \<Longrightarrow> fs_is_pinned fs' h"
    by (rule rebalance_loop_effect) (simp, blast)
  have set: "set (n_hash_order N (fs_reachable_chunk_hashes E fs)) = fs_reachable_chunk_hashes E fs"
    by (rule order_okD(1) [OF assms(1) reachable_hashes_finite])
  have wait: "\<not> wait_over now rp' h \<longleftrightarrow> (\<exists>until > now. hget (rp_blocked_until rp') h = Some until)" for h
    by (auto simp: wait_over_def not_le split: option.split)
  have "\<exists>new. cq_items q' = cq_items q @ map (\<lambda>h. FetchChunk h None True) new \<and> length new \<le> 64 \<and>
      (\<forall>h \<in> set new. h \<in> fs_reachable_chunk_hashes E fs \<and>
         sw_local sw \<in> set (designated_holders N h (current_members sw)) \<and> \<not> fs_is_pinned fs h \<and> \<not> fs_is_cached fs h) \<and>
      (\<forall>h \<in> fs_reachable_chunk_hashes E fs. sw_local sw \<in> set (designated_holders N h (current_members sw)) \<longrightarrow>
         fs_is_pinned fs' h \<or> (\<exists>until > now. hget (rp_blocked_until rp') h = Some until) \<or> h \<in> set new \<or>
         length new = 64 \<or> \<not> cq_open q' \<or> SWARM_CHANNEL_CAPACITY \<le> length (cq_items q')) \<and>
      (\<forall>h. fs_is_pinned fs h \<longrightarrow> fs_is_pinned fs' h)"
    by (rule exI [of _ new]) (use new len ask srv keep in
      \<open>auto simp: set wait [symmetric] served_def MAX_FETCHES_PER_REBALANCE_def\<close>)
  with False show ?thesis by (simp only: if_False)
qed

text \<open>A designated peer that does not store a chunk in use asks for it.\<close>

theorem rebalance_serves_witness:
  defines "sw \<equiv> demo_members\<lparr>sw_local := PeerId 2, sw_connected := [PeerId 1, PeerId 3]\<rparr>"
  shows "\<exists>fs :: node_operation list file_system. \<not> fs_is_pinned fs demo_hash \<and> demo_hash \<in> fs_reachable_chunk_hashes demo_env fs \<and>
    cq_items (fst (snd (rebalance demo_env demo_net 0 sw (replication_new 0) \<lparr>cq_items = [], cq_open = True\<rparr> fs))) =
      [FetchChunk demo_hash None True]"
proof -
  obtain fs0 where fs0: "fs_reachable_chunk_hashes demo_env fs0 = {demo_hash}"
    by (rule demo_in_use) (rule that)
  let ?fs = "fs0\<lparr>fs_storage := storage_new 1000\<rparr>"
  have live: "fs_reachable_chunk_hashes demo_env ?fs = {demo_hash}"
    using fs0 by (simp add: fs_reachable_chunk_hashes_def)
  have none: "\<not> fs_is_pinned ?fs demo_hash" "\<not> fs_is_cached ?fs demo_hash"
    by (simp_all add: fs_is_pinned_def fs_is_cached_def storage_is_pinned_def storage_is_cached_def storage_new_def hget_def)
  have members: "current_members sw = [PeerId 1, PeerId 3, PeerId 2]" by (simp add: sw_def current_members_def demo_members_def)
  have mine: "sw_local sw \<in> set (designated_holders demo_net demo_hash (current_members sw))"
    unfolding members by (simp add: sw_def) code_simp
  obtain rp' q' fs' where r: "rebalance demo_env demo_net 0 sw (replication_new 0)
      \<lparr>cq_items = [], cq_open = True\<rparr> ?fs = (rp', q', fs')" by (metis prod_cases3)
  then have q': "cq_items q' = [FetchChunk demo_hash None True]"
    using none mine by (auto simp: rebalance_def members live demo_sets replication_new_def hget_def try_send_def
        MAX_FETCHES_PER_REBALANCE_def SWARM_CHANNEL_CAPACITY_def)
  have "length (current_members sw) \<noteq> 1" by (simp add: members)
  with rebalance_serves [OF order_ok_demo(2) r] have "\<exists>new. cq_items q' = map (\<lambda>h. FetchChunk h None True) new \<and>
      (\<forall>h \<in> set new. h \<in> fs_reachable_chunk_hashes demo_env ?fs)" by auto
  with q' none live r show ?thesis by (intro exI [of _ ?fs]) simp
qed

text \<open>C30: A round of probes asks exactly what is still unknown: each designated holder that has not yet
  confirmed a pinned chunk in use this peer is not designated for is asked about that chunk, nobody
  is asked about anything else, and a request carries between one and 256 hashes and never goes to
  this peer itself.\<close>

theorem probes_ask_unconfirmed:
  assumes "order_ok (n_peer_order N)" and "storage_inv (fs_storage fs)"
    and "probe_eviction_candidates E N fs (rp, sw) = (rp', sw')"
  shows "\<exists>new. sw_sent sw' = sw_sent sw @ new \<and>
    (\<forall>(rid, p, req) \<in> set new. p \<noteq> sw_local sw \<and> (\<exists>b. req = CheckChunks b \<and> 1 \<le> length b \<and> length b \<le> 256)) \<and>
    (\<forall>p h. (\<exists>rid b. (rid, p, CheckChunks b) \<in> set new \<and> h \<in> set b) \<longleftrightarrow>
       fs_is_pinned fs h \<and> h \<in> fs_reachable_chunk_hashes E fs \<and>
       sw_local sw \<notin> set (designated_holders N h (current_members sw)) \<and>
       p \<in> set (designated_holders N h (current_members sw)) \<and>
       \<not> (\<exists>holders. hget (rp_confirmed_holders rp) h = Some holders \<and> p \<in> holders))"
proof -
  obtain asked where sent: "probes_sent asked (rp\<lparr>rp_confirmed_holders := rp_confirmed_holders rp'\<rparr>, sw) (rp', sw')"
    and "\<And>h p. is_confirmed (rp_confirmed_holders rp') h p \<Longrightarrow> is_confirmed (rp_confirmed_holders rp) h p"
    and round: "{(p, h). \<exists>b. (p, b) \<in> set asked \<and> h \<in> set b} = round_of E N fs rp sw"
    and sizes: "\<And>p b. (p, b) \<in> set asked \<Longrightarrow> b \<noteq> [] \<and> length b \<le> MAX_HASHES_PER_PROBE"
    by (rule probe_effect [OF assms(1,3)]) (rule that)
  from sent obtain new where sw': "sw_sent sw' = sw_sent sw @ new"
    and new: "map snd new = map (\<lambda>(p, b). (p, CheckChunks b)) asked"
    unfolding probes_sent_def by auto
  have in_new: "(\<exists>rid. (rid, p, req) \<in> set new) \<longleftrightarrow> (\<exists>b. req = CheckChunks b \<and> (p, b) \<in> set asked)" for p req
  proof -
    have "(\<exists>rid. (rid, p, req) \<in> set new) \<longleftrightarrow> (p, req) \<in> set (map snd new)" by force
    also have "\<dots> \<longleftrightarrow> (\<exists>b. req = CheckChunks b \<and> (p, b) \<in> set asked)" unfolding new by auto
    finally show ?thesis .
  qed
  have pinned: "h \<in> set (fs_pinned_hashes fs) \<longleftrightarrow> fs_is_pinned fs h" for h
  proof -
    have "hwf (st_chunks (fs_storage fs))" using assms(2) by (simp add: storage_inv_def core_hwf)
    then show ?thesis
      by (force simp: fs_pinned_hashes_def storage_pinned_hashes_def fs_is_pinned_def is_pinned_iff hget_Some_in [symmetric])
  qed
  have asks: "(\<exists>b. (p, b) \<in> set asked \<and> h \<in> set b) \<longleftrightarrow>
       fs_is_pinned fs h \<and> h \<in> fs_reachable_chunk_hashes E fs \<and>
       sw_local sw \<notin> set (designated_holders N h (current_members sw)) \<and>
       p \<in> set (designated_holders N h (current_members sw)) \<and>
       \<not> (\<exists>holders. hget (rp_confirmed_holders rp) h = Some holders \<and> p \<in> holders)" for p h
  proof -
    have "(\<exists>b. (p, b) \<in> set asked \<and> h \<in> set b) \<longleftrightarrow> (p, h) \<in> round_of E N fs rp sw" unfolding round [symmetric] by simp
    then show ?thesis
      by (auto simp: round_of_def candidates_of_def pinned is_confirmed_def split: option.splits)
  qed
  have "p \<noteq> sw_local sw \<and> (\<exists>b. req = CheckChunks b \<and> 1 \<le> length b \<and> length b \<le> 256)"
    if "(rid, p, req) \<in> set new" for rid p req
  proof -
    from that in_new obtain b where b: "req = CheckChunks b" "(p, b) \<in> set asked" by blast
    from sizes [OF b(2)] have "b \<noteq> []" "length b \<le> 256" by (simp_all add: MAX_HASHES_PER_PROBE_def)
    moreover from this(1) obtain h where "h \<in> set b" by (metis list.set_intros(1) neq_Nil_conv)
    with b(2) asks have "p \<noteq> sw_local sw" by metis
    ultimately show ?thesis using b(1) by (cases b) auto
  qed
  moreover have "(\<exists>rid b. (rid, p, CheckChunks b) \<in> set new \<and> h \<in> set b) \<longleftrightarrow>
      (\<exists>b. (p, b) \<in> set asked \<and> h \<in> set b)" for p h
    using in_new [of p] by (metis request.inject(2))
  ultimately show ?thesis using sw' asks by (intro exI [of _ new]) auto
qed

theorem probes_ask_unconfirmed_witness:
  "\<exists>(fs :: node_operation list file_system) rp' sw' rid b.
     probe_eviction_candidates demo_env demo_net fs (replication_new 0, demo_members) = (rp', sw') \<and>
     (rid, PeerId 3, CheckChunks b) \<in> set (sw_sent sw') \<and> demo_hash \<in> set b"
proof -
  obtain fs where fs: "fs_inv demo_env ref_valid fs" "fs_pinned_hashes fs = [demo_hash]"
    "fs_is_pinned fs demo_hash" "fs_reachable_chunk_hashes demo_env fs = {demo_hash}"
    by (rule demo_in_use) (rule that)
  obtain rp' sw' where p: "probe_eviction_candidates demo_env demo_net fs (replication_new 0, demo_members) = (rp', sw')"
    by fastforce
  have "current_members demo_members = [PeerId 2, PeerId 3, PeerId 1]" by (simp add: current_members_def demo_members_def)
  with probes_ask_unconfirmed [OF order_ok_demo(1) fs_inv_parts(2) [OF fs(1)] p] fs
  have "\<exists>rid b. (rid, PeerId 3, CheckChunks b) \<in> set (sw_sent sw') \<and> demo_hash \<in> set b"
    by (auto simp: demo_designated demo_designated [simplified] replication_new_def demo_members_def)
  with p show ?thesis by blast
qed

end
