(* ===== verification/Node.thy ===== *)
theory Node
  imports FetchRuns ReplicationRuns
begin

text \<open>
  The network side of a node: the handlers of gossip (\<open>handlers/gossip.rs\<close>), of peer discovery
  (\<open>handlers/mdns.rs\<close>) and of the exchange of missing operations (\<open>handlers/tree_sync.rs\<close>), and the
  dispatcher (\<open>network/dispatcher.rs\<close>) that gives each event to all five handlers in the order of
  \<open>app.rs\<close> and then lets them tick.

  Parameters: the readings of the system clock while operations are applied, \<open>readings\<close>; the draws of
  \<open>rand\<close>, where \<open>roll n\<close> is a number below \<open>n\<close>; a handler call reads the monotonic clock once, \<open>now\<close>.
  \<open>publish\<close> may refuse a message: its answer is the parameter \<open>d_publish\<close>, and both outcomes are
  recorded in \<open>sw_gossip\<close>, as the program logs the failure and goes on. \<open>dial\<close> may fail too; nothing
  else depends on it, so \<open>sw_dialed\<close> records the attempts.
\<close>

section \<open>Gossip\<close>

definition gossip_broadcast :: "net_env \<Rightarrow> (bytes \<Rightarrow> bool) \<Rightarrow> node_operation list \<Rightarrow> swarm \<Rightarrow> swarm" where
  "gossip_broadcast N publish operations sw =
     (case n_encode N operations of
        None \<Rightarrow> sw\<lparr>sw_gossip := sw_gossip sw @ [NotPublished operations]\<rparr>
      | Some bytes \<Rightarrow>
          (if publish bytes then sw\<lparr>sw_gossip := sw_gossip sw @ [Published bytes]\<rparr>
           else sw\<lparr>sw_gossip := sw_gossip sw @ [NotPublished operations]\<rparr>))"

definition apply_gossip ::
  "'t fs_env \<Rightarrow> net_env \<Rightarrow> (nat \<Rightarrow> nat option) \<Rightarrow> bytes \<Rightarrow> 't file_system \<Rightarrow> 't file_system"
where
  "apply_gossip E N readings data fs =
     (case n_decode N data of
        None \<Rightarrow> fs
      | Some operations \<Rightarrow> fs_apply_operations E readings operations fs)"

fun gossip_handle ::
  "'t fs_env \<Rightarrow> net_env \<Rightarrow> (nat \<Rightarrow> nat option) \<Rightarrow> (bytes \<Rightarrow> bool) \<Rightarrow> event \<Rightarrow> swarm \<times> 't file_system \<Rightarrow>
     swarm \<times> 't file_system"
where
  "gossip_handle E N readings publish (Command (BroadcastOperations operations)) (sw, fs) =
     (gossip_broadcast N publish operations sw, fs)"
| "gossip_handle E N readings publish (GossipEvent data) (sw, fs) = (sw, apply_gossip E N readings data fs)"
| "gossip_handle E N readings publish ev (sw, fs) = (sw, fs)"

section \<open>Discovery\<close>

definition dial_unless_connected :: "peer_id \<times> multiaddr \<Rightarrow> swarm \<Rightarrow> swarm" where
  "dial_unless_connected peer_addr sw =
     (case peer_addr of (peer, addr) \<Rightarrow>
        if peer = sw_local sw then sw
        else if peer \<in> set (sw_connected sw) then sw
        else sw\<lparr>sw_dialed := sw_dialed sw @ [addr]\<rparr>)"

fun mdns_handle :: "event \<Rightarrow> swarm \<Rightarrow> swarm" where
  "mdns_handle (SwarmEvent (MdnsDiscovered found)) sw = fold dial_unless_connected found sw"
| "mdns_handle ev sw = sw"

section \<open>Exchange of missing operations\<close>

definition SYNC_INTERVAL :: nat where "SYNC_INTERVAL = 15000"

definition synchronize_with :: "'t fs_env \<Rightarrow> net_env \<Rightarrow> 't file_system \<Rightarrow> peer_id \<Rightarrow> swarm \<Rightarrow> swarm" where
  "synchronize_with E N fs peer sw =
     snd (send_request N peer (PullMissingOperations (fs_operation_ids E fs)) sw)"

definition sync_apply_operations ::
  "'t fs_env \<Rightarrow> (nat \<Rightarrow> nat option) \<Rightarrow> node_operation list \<Rightarrow> 't file_system \<Rightarrow> 't file_system"
where
  "sync_apply_operations E readings operations fs =
     (if operations \<noteq> [] then fs_apply_operations E readings operations fs else fs)"

definition sync_tick ::
  "'t fs_env \<Rightarrow> net_env \<Rightarrow> (nat \<Rightarrow> nat) \<Rightarrow> instant \<Rightarrow> 't file_system \<Rightarrow> instant \<times> swarm \<Rightarrow> instant \<times> swarm"
where
  "sync_tick E N roll now fs s =
     (case s of (last_sync, sw) \<Rightarrow>
        if now - last_sync \<ge> SYNC_INTERVAL then
          (let peers = sw_connected sw in
           (now, if peers \<noteq> [] then synchronize_with E N fs (peers ! roll (length peers)) sw else sw))
        else (last_sync, sw))"

fun sync_handle ::
  "'t fs_env \<Rightarrow> net_env \<Rightarrow> (nat \<Rightarrow> nat option) \<Rightarrow> event \<Rightarrow> swarm \<times> 't file_system \<Rightarrow>
    event \<times> swarm \<times> 't file_system"
where
  "sync_handle E N readings (SwarmEvent (ConnectionEstablished peer num)) (sw, fs) =
     (SwarmEvent (ConnectionEstablished peer num),
      if num = 1 then synchronize_with E N fs peer sw else sw, fs)"
| "sync_handle E N readings (RequestEvent (PullMissingOperations known_ids) reply) (sw, fs) =
     (RequestEvent (PullMissingOperations known_ids) None,
      case reply of
        None \<Rightarrow> (sw, fs)
      | Some reply \<Rightarrow>
          (send_response reply (MissingOperations (fs_operations_missing_from E fs (set known_ids))) sw, fs))"
| "sync_handle E N readings (ResponseEvent rid (MissingOperations operations)) (sw, fs) =
     (ResponseEvent rid (MissingOperations operations), sw, sync_apply_operations E readings operations fs)"
| "sync_handle E N readings ev (sw, fs) = (ev, sw, fs)"

section \<open>The dispatcher\<close>

text \<open>The file system shared with the mount, the swarm, the receiving end of the command queue, and the
  states of the handlers that have one.\<close>

record 't node =
  nd_fs :: "'t file_system"
  nd_swarm :: swarm
  nd_queue :: command_queue
  nd_last_sync :: instant
  nd_fetcher :: chunk_fetcher
  nd_replies :: "(chunk_reply \<times> bytes option) list"
  nd_replication :: replication

text \<open>The node of \<open>app.rs\<close> when its loop begins; \<open>max_storage\<close> is in MiB. The product wraps, as it
  does in a release build.\<close>

definition app_storage_bytes :: "u64 \<Rightarrow> usize" where
  "app_storage_bytes max_storage = max_storage * 1024 * 1024"

definition node_new :: "'t fs_env \<Rightarrow> u64 \<Rightarrow> instant \<Rightarrow> swarm \<Rightarrow> 't node" where
  "node_new E max_storage now sw =
     \<lparr>nd_fs = fs_new (nt_new (e_replica E) (sw_local sw)) (storage_new (app_storage_bytes max_storage)), nd_swarm = sw,
      nd_queue = \<lparr>cq_items = [], cq_open = True\<rparr>, nd_last_sync = now, nd_fetcher = chunk_fetcher_default,
      nd_replies = [], nd_replication = replication_new now\<rparr>"

text \<open>What a dispatcher call is given by its environment.\<close>

record dispatch_env =
  d_now :: instant
  d_readings :: "nat \<Rightarrow> nat option"
  d_roll :: "nat \<Rightarrow> nat"
  d_publish :: "bytes \<Rightarrow> bool"

definition run_mdns :: "event \<times> 't node \<Rightarrow> event \<times> 't node" where
  "run_mdns s = (case s of (ev, n) \<Rightarrow> (ev, n\<lparr>nd_swarm := mdns_handle ev (nd_swarm n)\<rparr>))"

definition run_gossip ::
  "'t fs_env \<Rightarrow> net_env \<Rightarrow> dispatch_env \<Rightarrow> event \<times> 't node \<Rightarrow> event \<times> 't node"
where
  "run_gossip E N D s = (case s of (ev, n) \<Rightarrow>
     (case gossip_handle E N (d_readings D) (d_publish D) ev (nd_swarm n, nd_fs n) of
        (sw, fs) \<Rightarrow> (ev, n\<lparr>nd_swarm := sw, nd_fs := fs\<rparr>)))"

definition run_sync :: "'t fs_env \<Rightarrow> net_env \<Rightarrow> dispatch_env \<Rightarrow> event \<times> 't node \<Rightarrow> event \<times> 't node" where
  "run_sync E N D s = (case s of (ev, n) \<Rightarrow>
     (case sync_handle E N (d_readings D) ev (nd_swarm n, nd_fs n) of
        (ev, sw, fs) \<Rightarrow> (ev, n\<lparr>nd_swarm := sw, nd_fs := fs\<rparr>)))"

definition fetch_part :: "'t node \<Rightarrow> fetch_state" where
  "fetch_part n = \<lparr>ft_fetcher = nd_fetcher n, ft_swarm = nd_swarm n, ft_replies = nd_replies n\<rparr>"

definition run_chunk :: "'t fs_env \<Rightarrow> net_env \<Rightarrow> dispatch_env \<Rightarrow> event \<times> 't node \<Rightarrow> event \<times> 't node" where
  "run_chunk E N D s = (case s of (ev, n) \<Rightarrow>
     (case chunk_handle E N (d_now D) ev (fetch_part n, nd_fs n) of
        (ev, ft, fs) \<Rightarrow> (ev, n\<lparr>nd_fetcher := ft_fetcher ft, nd_swarm := ft_swarm ft, nd_replies := ft_replies ft,
           nd_fs := fs\<rparr>)))"

definition replication_part :: "'t node \<Rightarrow> 't replication_ctx" where
  "replication_part n = \<lparr>rc_state = nd_replication n, rc_queue = nd_queue n, rc_swarm = nd_swarm n, rc_fs = nd_fs n\<rparr>"

definition with_replication :: "'t replication_ctx \<Rightarrow> 't node \<Rightarrow> 't node" where
  "with_replication c n = n\<lparr>nd_replication := rc_state c, nd_queue := rc_queue c, nd_swarm := rc_swarm c, nd_fs := rc_fs c\<rparr>"

definition run_replication :: "'t fs_env \<Rightarrow> net_env \<Rightarrow> dispatch_env \<Rightarrow> event \<times> 't node \<Rightarrow> event \<times> 't node" where
  "run_replication E N D s = (case s of (ev, n) \<Rightarrow>
     (case replication_handle E N (d_now D) ev (replication_part n) of
        (ev, c) \<Rightarrow> (ev, with_replication c n)))"

text \<open>The loop over the handlers, and the loop over their ticks: only two have one of their own.\<close>

definition handle_all :: "'t fs_env \<Rightarrow> net_env \<Rightarrow> dispatch_env \<Rightarrow> event \<Rightarrow> 't node \<Rightarrow> 't node" where
  "handle_all E N D ev n =
     snd (run_replication E N D (run_chunk E N D (run_sync E N D (run_gossip E N D (run_mdns (ev, n))))))"

definition tick_all :: "'t fs_env \<Rightarrow> net_env \<Rightarrow> dispatch_env \<Rightarrow> 't node \<Rightarrow> 't node" where
  "tick_all E N D n =
     (case sync_tick E N (d_roll D) (d_now D) (nd_fs n) (nd_last_sync n, nd_swarm n) of
        (last_sync, sw) \<Rightarrow>
          (let n = n\<lparr>nd_last_sync := last_sync, nd_swarm := sw\<rparr>
           in with_replication (replication_tick E N (d_now D) (replication_part n)) n))"

text \<open>What the \<open>select!\<close> of the dispatcher woke up for.\<close>

datatype wakeup = FromQueue | FromSwarm swarm_event | Timeout

datatype dispatch_error = CommandChannelUnavailable

text \<open>\<open>None\<close>: the branch is not ready, for the queue is empty and not closed.\<close>

fun next_event :: "wakeup \<Rightarrow> command_queue \<Rightarrow> (event, dispatch_error) result option \<times> command_queue" where
  "next_event FromQueue q =
     (case cq_items q of
        cmd # items \<Rightarrow> (Some (Ok (event_from_command cmd)), q\<lparr>cq_items := items\<rparr>)
      | [] \<Rightarrow> (if cq_open q then None else Some (Err CommandChannelUnavailable), q))"
| "next_event (FromSwarm event) q = (Some (Ok (event_from_swarm event)), q)"
| "next_event Timeout q = (Some (Ok Tick), q)"

definition dispatcher_tick ::
  "'t fs_env \<Rightarrow> net_env \<Rightarrow> dispatch_env \<Rightarrow> wakeup \<Rightarrow> 't node \<Rightarrow>
    (unit, dispatch_error) result option \<times> 't node"
where
  "dispatcher_tick E N D w n =
     (case next_event w (nd_queue n) of
        (None, q) \<Rightarrow> (None, n)
      | (Some (Inl e), q) \<Rightarrow> (Some (Err e), n\<lparr>nd_queue := q\<rparr>)
      | (Some (Inr ev), q) \<Rightarrow> (Some (Ok ()), tick_all E N D (handle_all E N D ev (n\<lparr>nd_queue := q\<rparr>))))"

end
