(* ===== verification/NodeRuns.thy ===== *)
theory NodeRuns
  imports Node
begin

text \<open>
  What the network side of a node promises (theory Node): every request gets one answer; the file system
  only takes steps the invariants of theory FsReach allow; two nodes that meet end up with each other's
  operations; what one node broadcasts the others apply; a chunk one node stores reaches the callers of
  the other that wait for it. What the dispatcher needs of a handler is the locale \<open>node_handler\<close>, which
  each of the five handlers interprets.
\<close>

section \<open>The parts of the swarm each handler touches\<close>

lemma send_request_keeps [simp]:
  "sw_given (snd (send_request N p r sw)) = sw_given sw"
  "sw_gossip (snd (send_request N p r sw)) = sw_gossip sw"
  "sw_connected (snd (send_request N p r sw)) = sw_connected sw"
  "sw_local (snd (send_request N p r sw)) = sw_local sw"
  "\<exists>new. sw_sent (snd (send_request N p r sw)) = sw_sent sw @ new"
  by (simp_all add: send_request_def Let_def)

lemma ask_peer_given: "sw_given (ft_swarm (ask_peer N h p s)) = sw_given (ft_swarm s)"
  by (simp add: ask_peer_def send_request_def Let_def)

lemma ask_all_given: "sw_given (ft_swarm (fold (ask_peer N h) ps s)) = sw_given (ft_swarm s)"
  by (induction ps arbitrary: s) (simp_all add: ask_peer_given)

lemma walk_down_given: "sw_given (ft_swarm (walk_down N now h s)) = sw_given (ft_swarm s)"
  by (simp add: walk_down_def Let_def answer_def ask_all_given split: option.split)

lemma fetch_given:
  "sw_given (ft_swarm (fetch_chunk N now h reply pin s)) = sw_given (ft_swarm s)"
  "sw_given (ft_swarm (handle_failure N now rid s)) = sw_given (ft_swarm s)"
  "sw_given (ft_swarm (on_attempt_failed N now h rid s)) = sw_given (ft_swarm s)"
  by (simp_all add: fetch_chunk_def handle_failure_def on_attempt_failed_def Let_def answer_def walk_down_given
      split: option.split)

lemma response_given: "sw_given (ft_swarm (fst (handle_response E N now rid data (s, fs)))) = sw_given (ft_swarm s)"
  by (simp add: handle_response_def Let_def answer_def block_chunk_def fetch_given split: option.split prod.split sum.split)

lemma rebalance_swarm [simp]: "rc_swarm (rebalance_ctx E N now c) = rc_swarm c"
  by (simp add: rebalance_ctx_def split: prod.split)

lemma probe_keeps:
  "sw_given (snd (probe_eviction_candidates E N fs s)) = sw_given (snd s) \<and>
   sw_gossip (snd (probe_eviction_candidates E N fs s)) = sw_gossip (snd s)"
proof -
  have one: "sw_given (snd (send_probe N p b s)) = sw_given (snd s) \<and>
      sw_gossip (snd (send_probe N p b s)) = sw_gossip (snd s)" for p b and s :: "replication \<times> swarm"
    by (cases s) (simp add: send_probe_def send_request_def Let_def)
  have batches: "sw_given (snd (fold (send_probe N p) bs s)) = sw_given (snd s) \<and>
      sw_gossip (snd (fold (send_probe N p) bs s)) = sw_gossip (snd s)" for p bs and s :: "replication \<times> swarm"
    by (induction bs arbitrary: s) (simp_all add: one)
  have "sw_given (snd (fold (\<lambda>p. fold (send_probe N p) (bs p)) ps s)) = sw_given (snd s) \<and>
      sw_gossip (snd (fold (\<lambda>p. fold (send_probe N p) (bs p)) ps s)) = sw_gossip (snd s)"
    for bs ps and s :: "replication \<times> swarm"
    by (induction ps arbitrary: s) (simp_all add: batches)
  then show ?thesis by (cases s) (simp add: probe_eviction_candidates_def Let_def)
qed

lemma replication_tick_keeps:
  "sw_given (rc_swarm (replication_tick E N now c)) = sw_given (rc_swarm c) \<and>
   sw_gossip (rc_swarm (replication_tick E N now c)) = sw_gossip (rc_swarm c)"
proof -
  have "sw_given (rc_swarm (case probe_eviction_candidates E N fs (rp, sw) of
      (rp, sw) \<Rightarrow> c\<lparr>rc_state := rp, rc_swarm := sw\<rparr>)) = sw_given sw \<and>
    sw_gossip (rc_swarm (case probe_eviction_candidates E N fs (rp, sw) of
      (rp, sw) \<Rightarrow> c\<lparr>rc_state := rp, rc_swarm := sw\<rparr>)) = sw_gossip sw" for fs rp sw and c :: "'a replication_ctx"
    using probe_keeps [of E N fs "(rp, sw)"] by (auto split: prod.split)
  then show ?thesis by (simp add: replication_tick_def Let_def)
qed

lemma tick_all_given:
  "sw_given (nd_swarm (tick_all E N D n)) = sw_given (nd_swarm n)"
  "sw_gossip (nd_swarm (tick_all E N D n)) = sw_gossip (nd_swarm n)"
  by (simp_all add: tick_all_def sync_tick_def with_replication_def replication_tick_keeps replication_part_def
      synchronize_with_def Let_def)

lemma mdns_given: "sw_given (mdns_handle ev sw) = sw_given sw"
proof -
  have "sw_given (fold dial_unless_connected found sw) = sw_given sw" for found
    by (induction found arbitrary: sw) (auto simp: dial_unless_connected_def)
  then show ?thesis by (cases "(ev, sw)" rule: mdns_handle.cases) auto
qed

lemmas run_defs = run_mdns_def run_gossip_def run_sync_def run_chunk_def run_replication_def
  with_replication_def replication_part_def fetch_part_def

lemma fs_chunk_look: "fst (fs_chunk h fs) = fs_look fs h"
  by (simp add: fs_chunk_def fs_look_def chunk_look_def storage_get_def split: option.split prod.split)

lemma handle_request:
  "\<exists>resp. sw_given (nd_swarm (handle_all E N D (RequestEvent req (Some ch)) n)) = sw_given (nd_swarm n) @ [(ch, resp)] \<and>
     resp = (case req of
         PullChunk h \<Rightarrow> (case fs_look (nd_fs n) h of Some d \<Rightarrow> ChunkData d | None \<Rightarrow> ErrorResponse ChunkNotFound)
       | CheckChunks hs \<Rightarrow> HeldChunks (filter (fs_is_pinned (nd_fs n)) hs)
       | PullMissingOperations ids \<Rightarrow> MissingOperations (fs_operations_missing_from E (nd_fs n) (set ids)))"
proof (cases req)
  case (PullChunk h)
  then show ?thesis
    using fs_chunk_look [of h "nd_fs n"]
    by (auto simp: handle_all_def run_defs mdns_given send_response_def split: prod.split option.split)
qed (simp_all add: handle_all_def run_defs mdns_given send_response_def Let_def)

lemma gossip_given: "sw_given (fst (gossip_handle E N readings publish ev (sw, fs))) = sw_given sw"
  by (cases "(E, N, readings, publish, ev, sw, fs)" rule: gossip_handle.cases)
    (auto simp: gossip_broadcast_def split: option.split)

text \<open>An event that no longer carries a reply channel.\<close>

definition no_reply :: "event \<Rightarrow> bool" where
  "no_reply ev \<longleftrightarrow> (\<forall>req ch. ev \<noteq> RequestEvent req (Some ch))"

lemma sync_given:
  assumes "no_reply ev" and "sync_handle E N readings ev (sw, fs) = (ev', sw', fs')"
  shows "no_reply ev'" and "sw_given sw' = sw_given sw"
  using assms
  by (cases "(E, N, readings, ev, sw, fs)" rule: sync_handle.cases;
      auto simp: no_reply_def synchronize_with_def split: option.splits if_splits)+

lemma chunk_given:
  assumes "no_reply ev" and "chunk_handle E N now ev (s, fs) = (ev', s', fs')"
  shows "no_reply ev'" and "sw_given (ft_swarm s') = sw_given (ft_swarm s)"
proof -
  have resp: "sw_given (ft_swarm s1) = sw_given (ft_swarm s)"
    if "handle_response E N now rid data (s, fs) = (s1, fs1)" for rid data s1 fs1
    using response_given [of E N now rid data s fs] that by simp
  show "no_reply ev'" "sw_given (ft_swarm s') = sw_given (ft_swarm s)"
    using assms resp
    by (cases "(E, N, now, ev, s, fs)" rule: chunk_handle.cases; auto simp: no_reply_def fetch_given split: option.splits)+
qed

lemma held_chunks_swarm: "rc_swarm (snd (replication_handle E N now (ResponseEvent rid (HeldChunks hs)) c)) = rc_swarm c"
  by (simp add: Let_def split: option.split prod.split)

lemma replication_given:
  assumes "no_reply ev" and "replication_handle E N now ev c = (ev', c')"
  shows "sw_given (rc_swarm c') = sw_given (rc_swarm c)"
  using assms
  by (cases "(E, N, now, ev, c)" rule: replication_handle.cases)
    (auto simp: no_reply_def Let_def split: option.splits prod.splits)

text \<open>The handlers of an event one after the other.\<close>

lemma handle_all_stages:
  obtains sw2 fs2 ev3 sw3 fs3 ev4 ft4 fs4 ev5 ctx
  where "gossip_handle E N (d_readings D) (d_publish D) ev (mdns_handle ev (nd_swarm n), nd_fs n) = (sw2, fs2)"
    and "sync_handle E N (d_readings D) ev (sw2, fs2) = (ev3, sw3, fs3)"
    and "chunk_handle E N (d_now D) ev3
      (\<lparr>ft_fetcher = nd_fetcher n, ft_swarm = sw3, ft_replies = nd_replies n\<rparr>, fs3) = (ev4, ft4, fs4)"
    and "replication_handle E N (d_now D) ev4
      \<lparr>rc_state = nd_replication n, rc_queue = nd_queue n, rc_swarm = ft_swarm ft4, rc_fs = fs4\<rparr> = (ev5, ctx)"
    and "handle_all E N D ev n = n\<lparr>nd_fs := rc_fs ctx, nd_swarm := rc_swarm ctx, nd_queue := rc_queue ctx,
      nd_fetcher := ft_fetcher ft4, nd_replies := ft_replies ft4, nd_replication := rc_state ctx\<rparr>"
proof -
  obtain sw2 fs2 where g: "gossip_handle E N (d_readings D) (d_publish D) ev (mdns_handle ev (nd_swarm n), nd_fs n) = (sw2, fs2)" by fastforce
  obtain ev3 sw3 fs3 where s: "sync_handle E N (d_readings D) ev (sw2, fs2) = (ev3, sw3, fs3)" by (metis prod_cases3)
  obtain ev4 ft4 fs4 where c: "chunk_handle E N (d_now D) ev3
    (\<lparr>ft_fetcher = nd_fetcher n, ft_swarm = sw3, ft_replies = nd_replies n\<rparr>, fs3) = (ev4, ft4, fs4)" by (metis prod_cases3)
  obtain ev5 ctx where r: "replication_handle E N (d_now D) ev4
    \<lparr>rc_state = nd_replication n, rc_queue = nd_queue n, rc_swarm = ft_swarm ft4, rc_fs = fs4\<rparr> = (ev5, ctx)" by fastforce
  have "handle_all E N D ev n = n\<lparr>nd_fs := rc_fs ctx, nd_swarm := rc_swarm ctx, nd_queue := rc_queue ctx,
      nd_fetcher := ft_fetcher ft4, nd_replies := ft_replies ft4, nd_replication := rc_state ctx\<rparr>"
    using g s c r by (simp add: handle_all_def run_defs)
  with g s c r show thesis by (rule that)
qed

section \<open>The file system only takes allowed steps\<close>

definition fs_sound :: "'t fs_env \<Rightarrow> peer_id \<Rightarrow> usize \<Rightarrow> 't file_system \<Rightarrow> bool" where
  "fs_sound E peer capacity fs \<longleftrightarrow> fs_reachable E peer capacity fs \<and> unat (fs_capacity_bytes fs) < 2 ^ 63"

lemma capacity_step:
  "fs' = fs\<lparr>fs_storage := snd (storage_step a (fs_storage fs))\<rparr> \<Longrightarrow> fs_capacity_bytes fs' = fs_capacity_bytes fs"
  by (simp add: fs_capacity_bytes_def storage_capacity_bytes_def storage_step_max)

lemma sound_totals:
  assumes "replica (e_replica E) valid" and "fs_sound E peer capacity fs"
  shows "pinned_total (fs_storage fs) < 2 ^ 63" and "cached_total (fs_storage fs) < 2 ^ 63"
    and "storage_core (fs_storage fs)"
proof -
  have "storage_inv (fs_storage fs)"
    using fs_inv_parts(2) [OF fs_reachable_inv [OF assms(1), of peer capacity fs]] assms(2) by (simp add: fs_sound_def)
  then show "pinned_total (fs_storage fs) < 2 ^ 63" "cached_total (fs_storage fs) < 2 ^ 63" "storage_core (fs_storage fs)"
    using assms(2) by (auto simp: storage_inv_def storage_limits_def fs_sound_def fs_capacity_bytes_def storage_capacity_bytes_def)
qed

lemma sound_chunk:
  assumes "fs_sound E peer capacity fs" and "fs_chunk h fs = (c, fs')"
  shows "fs_sound E peer capacity fs'"
  using assms fs_reachable.fetch capacity_step [OF storage_steps(1) [OF assms(2)]] by (auto simp: fs_sound_def)

lemma sound_pin:
  assumes "replica (e_replica E) valid" and "fs_sound E peer capacity fs" and "vec_ok data"
    and "fs_pin_chunk E data fs = (u, fs')"
  shows "fs_sound E peer capacity fs'"
proof -
  note tot = sound_totals [OF assms(1,2)]
  have "required_bytes (fs_storage fs) [chunk_new (e_sha E) data] < 2 ^ 63"
    using total_limits(1) [OF tot(3)] tot(2) assms(3)
    by (fastforce simp: required_bytes_def pin_cost_def chunk_new_def vec_ok_def split: option.split)
  with tot(1) have "pin_addressable (fs_storage fs) [chunk_new (e_sha E) data]" by (simp add: pin_addressable_def)
  with assms(2,4) fs_reachable.pin capacity_step [OF storage_steps(2) [OF assms(4)]] show ?thesis by (auto simp: fs_sound_def)
qed

lemma sound_cache:
  assumes "fs_sound E peer capacity fs" and "vec_ok data"
  shows "fs_sound E peer capacity (fs_cache_chunk E data fs)"
  using assms fs_reachable.cache [of E peer capacity fs data] capacity_step [OF storage_steps(3) [of E data fs]]
  by (simp add: fs_sound_def)

lemma sound_evict:
  assumes "fs_sound E peer capacity fs" and "fs_evict_chunk h fs = (b, fs')"
  shows "fs_sound E peer capacity fs'"
  using assms fs_reachable.evict capacity_step [OF storage_steps(5) [OF assms(2)]] by (auto simp: fs_sound_def)

lemma sound_promote:
  assumes "replica (e_replica E) valid" and "fs_sound E peer capacity fs" and "\<not> fs_is_pinned fs h"
    and "fs_promote_to_pinned h fs = (b, fs')"
  shows "fs_sound E peer capacity fs'"
proof -
  note tot = sound_totals [OF assms(1,2)]
  have "entry_len (fs_storage fs) h < 2 ^ 63"
    using total_limits(1) [OF tot(3)] tot(2) assms(3)
    by (fastforce simp: entry_len_def fs_is_pinned_def is_pinned_iff split: option.split)
  with tot(1) have "pinned_total (fs_storage fs) + entry_len (fs_storage fs) h < 2 ^ 64" by simp
  with assms(2,4) fs_reachable.promote capacity_step [OF storage_steps(4) [OF assms(4)]] show ?thesis by (auto simp: fs_sound_def)
qed

lemma sound_remote:
  assumes "fs_sound E peer capacity fs" and "\<And>i. time_ok (readings i)"
  shows "fs_sound E peer capacity (fs_apply_operations E readings ops fs)"
  using assms fs_reachable.remote [of E peer capacity fs readings ops]
  by (auto simp: fs_sound_def fs_apply_operations_def fs_capacity_bytes_def)

text \<open>The handlers.\<close>

fun event_ok :: "event \<Rightarrow> bool" where
  "event_ok (ResponseEvent rid (ChunkData data)) = vec_ok data"
| "event_ok ev = True"

lemma gossip_sound:
  assumes "fs_sound E peer capacity fs" and "\<And>i. time_ok (readings i)"
    and "gossip_handle E N readings publish ev (sw, fs) = (sw', fs')"
  shows "fs_sound E peer capacity fs'"
  using assms(1,3) sound_remote [OF assms(1,2)]
  by (cases "(E, N, readings, publish, ev, sw, fs)" rule: gossip_handle.cases)
    (auto simp: apply_gossip_def split: option.splits)

lemma sync_sound:
  assumes "fs_sound E peer capacity fs" and "\<And>i. time_ok (readings i)"
    and "sync_handle E N readings ev (sw, fs) = (ev', sw', fs')"
  shows "fs_sound E peer capacity fs'" and "event_ok ev \<Longrightarrow> event_ok ev'"
  using assms(1,3) sound_remote [OF assms(1,2)]
  by (cases "(E, N, readings, ev, sw, fs)" rule: sync_handle.cases;
      auto simp: sync_apply_operations_def split: option.splits if_splits)+

lemma chunk_sound:
  assumes "replica (e_replica E) valid" and "fs_sound E peer capacity fs" and "event_ok ev"
    and "chunk_handle E N now ev (s, fs) = (ev', s', fs')"
  shows "fs_sound E peer capacity fs'"
proof -
  have resp: "fs_sound E peer capacity fs1"
    if "handle_response E N now rid data (s, fs) = (s1, fs1)" "vec_ok data" for rid data s1 fs1
  proof -
    obtain u fs2 where p: "fs_pin_chunk E data fs = (u, fs2)" by fastforce
    note sound = sound_pin [OF assms(1,2) that(2) p] sound_cache [OF assms(2) that(2)]
    have "fs1 \<in> {fs, fs2, fs_cache_chunk E data fs2, fs_cache_chunk E data fs}"
      using that(1) p by (auto simp: handle_response_def Let_def split: option.splits if_splits sum.splits prod.splits)
    with sound assms(2) sound_cache [OF sound(1) that(2)] show ?thesis by auto
  qed
  show ?thesis
    using assms(2-4) resp sound_chunk [OF assms(2)]
    by (cases "(E, N, now, ev, s, fs)" rule: chunk_handle.cases) (auto split: option.splits prod.splits)
qed

lemma chunk_event:
  assumes "chunk_handle E N now ev (s, fs) = (ev', s', fs')"
  shows "event_ok ev \<Longrightarrow> event_ok ev'"
  using assms
  by (cases "(E, N, now, ev, s, fs)" rule: chunk_handle.cases) (auto split: option.splits prod.splits)

lemma replication_event:
  assumes "replication_handle E N now ev c = (ev', c')"
  shows "no_reply ev \<Longrightarrow> no_reply ev'" and "event_ok ev \<Longrightarrow> event_ok ev'"
proof -
  have "fst (replication_handle E N now ev c) = ev \<or> (\<exists>hs. fst (replication_handle E N now ev c) = RequestEvent (CheckChunks hs) None)"
    by (cases "(E, N, now, ev, c)" rule: replication_handle.cases) (simp_all add: Let_def split: option.split)
  then have ev': "ev' = ev \<or> (\<exists>hs. ev' = RequestEvent (CheckChunks hs) None)" using assms by simp
  then show "no_reply ev \<Longrightarrow> no_reply ev'" by (auto simp: no_reply_def)
  show "event_ok ev \<Longrightarrow> event_ok ev'" using ev' by auto
qed

lemma rebalance_loop_sound:
  assumes "replica (e_replica E) valid" and "fs_sound E peer capacity fs"
    and "rebalance_loop N now members local live issued rp q fs = (rp', q', fs')"
  shows "fs_sound E peer capacity fs'"
  using assms(2,3)
proof (induction N now members local live issued rp q fs rule: rebalance_loop.induct)
  case (2 N now members local h live issued rp q fs)
  obtain b fs1 where p: "fs_promote_to_pinned h fs = (b, fs1)" by fastforce
  have one: "\<not> fs_is_pinned fs h \<Longrightarrow> fs_sound E peer capacity fs1" by (rule sound_promote [OF assms(1) 2(8) _ p])
  obtain b' q1 where t: "try_send (FetchChunk h None True) q = (b', q1)" by fastforce
  from 2(9) 2(1-8) one p t show ?case
    by (auto split: if_splits option.splits bool.splits)
qed auto

lemma rebalance_sound:
  assumes "replica (e_replica E) valid" and "fs_sound E peer capacity (rc_fs c)"
  shows "fs_sound E peer capacity (rc_fs (rebalance_ctx E N now c))"
proof -
  obtain rp q fs where r: "rebalance E N now (rc_swarm c) (rc_state c) (rc_queue c) (rc_fs c) = (rp, q, fs)"
    by (metis prod_cases3)
  then have "fs_sound E peer capacity fs"
    using assms(2) rebalance_loop_sound [OF assms] by (auto simp: rebalance_def Let_def split: if_splits)
  with r show ?thesis by (simp add: rebalance_ctx_def)
qed

text \<open>A reply to a probe evicts the chunks \<open>cs\<close> that are complete.\<close>

lemma held_chunks_step:
  assumes "replication_handle E N now (ResponseEvent rid (HeldChunks hs)) c = (ev', c')"
  obtains cs s where "rc_fs c' = snd (fold evict_completed cs s)" and "snd s = rc_fs c"
proof (cases "hget (rp_pending_probes (rc_state c)) rid")
  case None
  with assms that [of "[]" "(rc_state c, rc_fs c)"] show thesis by simp
next
  case (Some p)
  let ?rp = "fold (confirm_holder p) hs ((rc_state c)\<lparr>rp_pending_probes := hremove rid (rp_pending_probes (rc_state c))\<rparr>)"
  obtain rp fs where e: "evict_confirmed E N (rc_swarm c) (?rp, rc_fs c) = (rp, fs)" by fastforce
  have "rc_fs c' = fs" using assms Some e by auto
  with e that [of _ "(?rp, rc_fs c)"] show thesis by (simp add: evict_confirmed_def) (metis snd_conv)
qed

lemma evict_all_sound:
  assumes "fs_sound E peer capacity (snd s)"
  shows "fs_sound E peer capacity (snd (fold evict_completed hs s))"
  using assms
proof (induction hs arbitrary: s)
  case (Cons h hs)
  obtain b fs1 where e: "fs_evict_chunk h (snd s) = (b, fs1)" by fastforce
  have "fs_sound E peer capacity (snd (evict_completed h s))"
    using Cons.prems sound_evict [OF Cons.prems e] e by (cases s) (simp add: evict_completed_def)
  from Cons.IH [OF this] show ?case by simp
qed simp

lemma replication_sound:
  assumes "replica (e_replica E) valid" and "fs_sound E peer capacity (rc_fs c)"
    and "replication_handle E N now ev c = (ev', c')"
  shows "fs_sound E peer capacity (rc_fs c')"
  using assms(3)
proof (cases "(E, N, now, ev, c)" rule: replication_handle.cases)
  case (2 E' N' now' rid hashes c'')
  then have ev: "ev = ResponseEvent rid (HeldChunks hashes)" by simp
  obtain cs s where "rc_fs c' = snd (fold evict_completed cs s)" "snd s = rc_fs c"
    using assms(3) unfolding ev by (rule held_chunks_step)
  with evict_all_sound [of E peer capacity s cs] assms(2) show ?thesis by simp
qed (use assms(2,3) rebalance_sound [OF assms(1,2)] in \<open>auto simp: Let_def split: option.splits\<close>)

lemma replication_tick_sound:
  assumes "replica (e_replica E) valid" and "fs_sound E peer capacity (rc_fs c)"
  shows "fs_sound E peer capacity (rc_fs (replication_tick E N now c))"
proof (cases rule: replication_tick_cases [of c E N now])
  case (ticked c1)
  have "fs_sound E peer capacity (rc_fs c1)"
    using ticked(1)
  proof (elim disjE exE conjE)
    fix c0 assume c0: "c0 = c\<lparr>rc_state := (rc_state c)\<lparr>rp_next_rebalance := rp_next_rebalance (rc_state c0)\<rparr>\<rparr>"
      "c1 = rebalance_ctx E N now c0"
    have "rc_fs c0 = rc_fs c" by (subst c0(1)) simp
    with c0(2) rebalance_sound [OF assms(1)] assms(2) show ?thesis by metis
  qed (use assms(2) in simp)
  with ticked(2) show ?thesis by auto
qed

section \<open>The contract of a handler\<close>

text \<open>What the dispatcher relies on: a handler gives no answer to an event that asks for none, and leaves
  the file system sound and the event within bounds.\<close>

locale node_handler =
  fixes run :: "event \<times> 't node \<Rightarrow> event \<times> 't node" and E :: "'t fs_env" and D :: dispatch_env
  assumes quiet: "no_reply ev \<Longrightarrow> run (ev, n) = (ev', n') \<Longrightarrow>
      no_reply ev' \<and> sw_given (nd_swarm n') = sw_given (nd_swarm n)"
    and sound: "replica (e_replica E) valid \<Longrightarrow> (\<And>i. time_ok (d_readings D i)) \<Longrightarrow>
      fs_sound E peer capacity (nd_fs n) \<Longrightarrow> event_ok ev \<Longrightarrow> run (ev, n) = (ev', n') \<Longrightarrow>
      fs_sound E peer capacity (nd_fs n') \<and> event_ok ev'"
begin

lemma stays_quiet:
  assumes "no_reply (fst s) \<and> sw_given (nd_swarm (snd s)) = given"
  shows "no_reply (fst (run s)) \<and> sw_given (nd_swarm (snd (run s))) = given"
  using assms quiet [of "fst s" "snd s" "fst (run s)" "snd (run s)"] by simp

lemma stays_sound:
  assumes "replica (e_replica E) valid" and "\<And>i. time_ok (d_readings D i)"
    and "fs_sound E peer capacity (nd_fs (snd s)) \<and> event_ok (fst s)"
  shows "fs_sound E peer capacity (nd_fs (snd (run s))) \<and> event_ok (fst (run s))"
  using assms(3) sound [OF assms(1,2), of peer capacity "snd s" "fst s" "fst (run s)" "snd (run s)"] by simp

end

text \<open>The five handlers keep it.\<close>

interpretation mdns: node_handler run_mdns E D for E :: "'t fs_env" and D
  by unfold_locales (auto simp: run_mdns_def mdns_given)

interpretation gossip: node_handler "run_gossip E N D" E D for E :: "'t fs_env" and N D
proof unfold_locales
  fix ev ev' and n n' :: "'t node" assume "no_reply ev" "run_gossip E N D (ev, n) = (ev', n')"
  then show "no_reply ev' \<and> sw_given (nd_swarm n') = sw_given (nd_swarm n)"
    using gossip_given [of E N "d_readings D" "d_publish D" ev "nd_swarm n" "nd_fs n"] by (auto simp: run_gossip_def split: prod.splits)
next
  fix valid peer capacity ev ev' and n n' :: "'t node"
  assume "\<And>i. time_ok (d_readings D i)" "fs_sound E peer capacity (nd_fs n)" "event_ok ev"
    "run_gossip E N D (ev, n) = (ev', n')"
  then show "fs_sound E peer capacity (nd_fs n') \<and> event_ok ev'"
    using gossip_sound [of E peer capacity "nd_fs n" "d_readings D" N "d_publish D" ev "nd_swarm n"]
    by (auto simp: run_gossip_def split: prod.splits)
qed

interpretation sync: node_handler "run_sync E N D" E D for E :: "'t fs_env" and N D
proof unfold_locales
  fix ev ev' and n n' :: "'t node" assume "no_reply ev" "run_sync E N D (ev, n) = (ev', n')"
  then show "no_reply ev' \<and> sw_given (nd_swarm n') = sw_given (nd_swarm n)"
    using sync_given [of ev E N "d_readings D" "nd_swarm n" "nd_fs n"] by (auto simp: run_sync_def split: prod.splits)
next
  fix valid peer capacity ev ev' and n n' :: "'t node"
  assume "\<And>i. time_ok (d_readings D i)" "fs_sound E peer capacity (nd_fs n)" "event_ok ev"
    "run_sync E N D (ev, n) = (ev', n')"
  then show "fs_sound E peer capacity (nd_fs n') \<and> event_ok ev'"
    using sync_sound [of E peer capacity "nd_fs n" "d_readings D" N ev "nd_swarm n"]
    by (auto simp: run_sync_def split: prod.splits)
qed

interpretation chunk: node_handler "run_chunk E N D" E D for E :: "'t fs_env" and N D
proof unfold_locales
  fix ev ev' and n n' :: "'t node" assume "no_reply ev" "run_chunk E N D (ev, n) = (ev', n')"
  then show "no_reply ev' \<and> sw_given (nd_swarm n') = sw_given (nd_swarm n)"
    using chunk_given [of ev E N "d_now D" "fetch_part n" "nd_fs n"]
    by (auto simp: run_chunk_def fetch_part_def split: prod.splits)
next
  fix valid peer capacity ev ev' and n n' :: "'t node"
  assume "replica (e_replica E) valid" "fs_sound E peer capacity (nd_fs n)" "event_ok ev"
    "run_chunk E N D (ev, n) = (ev', n')"
  then show "fs_sound E peer capacity (nd_fs n') \<and> event_ok ev'"
    using chunk_sound [of E valid peer capacity "nd_fs n" ev N "d_now D" "fetch_part n"]
      chunk_event [of E N "d_now D" ev "fetch_part n" "nd_fs n"]
    by (auto simp: run_chunk_def split: prod.splits)
qed

interpretation replication: node_handler "run_replication E N D" E D for E :: "'t fs_env" and N D
proof unfold_locales
  fix ev ev' and n n' :: "'t node" assume "no_reply ev" "run_replication E N D (ev, n) = (ev', n')"
  then show "no_reply ev' \<and> sw_given (nd_swarm n') = sw_given (nd_swarm n)"
    using replication_given [of ev E N "d_now D" "replication_part n"]
      replication_event(1) [of E N "d_now D" ev "replication_part n"]
    by (auto simp: run_replication_def with_replication_def replication_part_def split: prod.splits)
next
  fix valid peer capacity ev ev' and n n' :: "'t node"
  assume "replica (e_replica E) valid" "fs_sound E peer capacity (nd_fs n)" "event_ok ev"
    "run_replication E N D (ev, n) = (ev', n')"
  then show "fs_sound E peer capacity (nd_fs n') \<and> event_ok ev'"
    using replication_sound [of E valid peer capacity "replication_part n" N "d_now D" ev]
      replication_event(2) [of E N "d_now D" ev "replication_part n"]
    by (auto simp: run_replication_def with_replication_def replication_part_def split: prod.splits)
qed

lemma handle_no_reply:
  assumes "no_reply ev"
  shows "sw_given (nd_swarm (handle_all E N D ev n)) = sw_given (nd_swarm n)"
proof -
  have "no_reply (fst (ev, n)) \<and> sw_given (nd_swarm (snd (ev, n))) = sw_given (nd_swarm n)" using assms by simp
  from replication.stays_quiet [OF chunk.stays_quiet [OF sync.stays_quiet [OF gossip.stays_quiet [OF mdns.stays_quiet [OF this]]]]]
  show ?thesis unfolding handle_all_def by blast
qed

lemma handle_all_sound:
  assumes "replica (e_replica E) valid" and "fs_sound E peer capacity (nd_fs n)" and "event_ok ev"
    and "\<And>i. time_ok (d_readings D i)"
  shows "fs_sound E peer capacity (nd_fs (handle_all E N D ev n))"
proof -
  have "fs_sound E peer capacity (nd_fs (snd (ev, n))) \<and> event_ok (fst (ev, n))" using assms(2,3) by simp
  from replication.stays_sound [OF assms(1,4) chunk.stays_sound [OF assms(1,4) sync.stays_sound [OF assms(1,4)
      gossip.stays_sound [OF assms(1,4) mdns.stays_sound [OF assms(1,4) this]]]]]
  show ?thesis unfolding handle_all_def by blast
qed

lemma tick_all_sound:
  assumes "replica (e_replica E) valid" and "fs_sound E peer capacity (nd_fs n)"
  shows "fs_sound E peer capacity (nd_fs (tick_all E N D n))"
  using replication_tick_sound [OF assms(1)] assms(2)
  by (simp add: tick_all_def with_replication_def replication_part_def Let_def split: prod.split)

lemma dispatcher_sound:
  assumes "replica (e_replica E) valid" and "fs_sound E peer capacity (nd_fs n)"
    and "\<And>i. time_ok (d_readings D i)" and "\<And>rid data. w = FromSwarm (MessageResponse rid (ChunkData data)) \<Longrightarrow> vec_ok data"
  shows "fs_sound E peer capacity (nd_fs (snd (dispatcher_tick E N D w n)))"
proof -
  have "event_ok ev" if "next_event w q = (Some (Ok ev), q')" for ev q q'
  proof -
    from that consider "w = FromQueue" "\<exists>cmd. ev = Command cmd" | "w = Timeout" "ev = Tick"
      | e where "w = FromSwarm e" "ev = event_from_swarm e"
      by (cases w) (auto simp: event_from_command_def split: list.splits if_splits)
    then show ?thesis
    proof cases
      case (3 e)
      show ?thesis
      proof (cases "\<exists>rid data. ev = ResponseEvent rid (ChunkData data)")
        case True
        with 3 obtain rid data where "e = MessageResponse rid (ChunkData data)" "ev = ResponseEvent rid (ChunkData data)"
          by (cases e) auto
        with 3 assms(4) show ?thesis by simp
      next
        case False
        then show ?thesis by (cases ev rule: event_ok.cases) auto
      qed
    qed auto
  qed
  then show ?thesis
    using assms(2) handle_all_sound [OF assms(1) _ _ assms(3)] tick_all_sound [OF assms(1)]
    by (auto simp: dispatcher_tick_def split: prod.split option.split sum.split)
qed

section \<open>Only gossip and the exchange of operations change the tree\<close>

lemma chunk_tree:
  assumes "chunk_handle E N now ev (s, fs) = (ev', s', fs')"
  shows "fs_tree fs' = fs_tree fs"
proof -
  have pin: "fs_tree fs2 = fs_tree fs1" if "fs_pin_chunk E data fs1 = (u, fs2)" for data fs1 fs2 u
    using that by (auto simp: fs_pin_chunk_def split: prod.splits)
  have resp: "fs_tree fs1 = fs_tree fs" if "handle_response E N now rid data (s, fs) = (s1, fs1)" for rid data s1 fs1
    using that pin
    by (auto simp: handle_response_def Let_def fs_cache_chunk_def split: option.splits if_splits sum.splits prod.splits)
  show ?thesis
    using assms resp
    by (cases "(E, N, now, ev, s, fs)" rule: chunk_handle.cases) (auto simp: fs_chunk_def split: option.splits prod.splits)
qed

lemma rebalance_loop_tree:
  "rebalance_loop N now members local live issued rp q fs = (rp', q', fs') \<Longrightarrow> fs_tree fs' = fs_tree fs"
proof (induction N now members local live issued rp q fs rule: rebalance_loop.induct)
  case (2 N now members local h live issued rp q fs)
  obtain b fs1 where p: "fs_promote_to_pinned h fs = (b, fs1)" by fastforce
  note tree = promote_chunk_effect(1) [OF p]
  obtain b' q1 where t: "try_send (FetchChunk h None True) q = (b', q1)" by fastforce
  from 2 tree p t show ?case by (auto split: if_splits option.splits bool.splits)
qed auto

lemma rebalance_tree: "fs_tree (rc_fs (rebalance_ctx E N now c)) = fs_tree (rc_fs c)"
proof -
  obtain rp q fs where r: "rebalance E N now (rc_swarm c) (rc_state c) (rc_queue c) (rc_fs c) = (rp, q, fs)"
    by (metis prod_cases3)
  then have "fs_tree fs = fs_tree (rc_fs c)"
    using rebalance_loop_tree by (fastforce simp: rebalance_def Let_def split: if_splits)
  with r show ?thesis by (simp add: rebalance_ctx_def)
qed

lemma replication_tree:
  assumes "replication_handle E N now ev c = (ev', c')"
  shows "fs_tree (rc_fs c') = fs_tree (rc_fs c)"
  using assms
proof (cases "(E, N, now, ev, c)" rule: replication_handle.cases)
  case (2 E' N' now' rid hashes c'')
  then have ev: "ev = ResponseEvent rid (HeldChunks hashes)" by simp
  obtain cs s where "rc_fs c' = snd (fold evict_completed cs s)" "snd s = rc_fs c"
    using assms unfolding ev by (rule held_chunks_step)
  then show ?thesis by simp
qed (use assms rebalance_tree in \<open>auto simp: Let_def split: option.splits\<close>)

lemma tick_all_tree: "fs_tree (nd_fs (tick_all E N D n)) = fs_tree (nd_fs n)"
proof -
  have "fs_tree (rc_fs (replication_tick E N now c)) = fs_tree (rc_fs c)" for now and c :: "'a replication_ctx"
  proof (cases rule: replication_tick_cases [of c E N now])
    case (ticked c1)
    have "fs_tree (rc_fs c1) = fs_tree (rc_fs c)"
      using ticked(1)
    proof (elim disjE exE conjE)
      fix c0 assume c0: "c0 = c\<lparr>rc_state := (rc_state c)\<lparr>rp_next_rebalance := rp_next_rebalance (rc_state c0)\<rparr>\<rparr>"
        "c1 = rebalance_ctx E N now c0"
      have "rc_fs c0 = rc_fs c" by (subst c0(1)) simp
      with c0(2) rebalance_tree [of E N now c0] show ?thesis by simp
    qed simp
    with ticked(2) show ?thesis by auto
  qed
  then show ?thesis by (simp add: tick_all_def with_replication_def replication_part_def Let_def split: prod.split)
qed

text \<open>The operations a node knows.\<close>

definition node_log :: "'t fs_env \<Rightarrow> 't node \<Rightarrow> node_operation set" where
  "node_log E n = set (r_log (e_replica E) (nt_tree (fs_tree (nd_fs n))))"

lemma handle_all_tree:
  assumes "gossip_handle E N (d_readings D) (d_publish D) ev (mdns_handle ev (nd_swarm n), nd_fs n) = (sw2, fs2)"
    and "sync_handle E N (d_readings D) ev (sw2, fs2) = (ev3, sw3, fs3)"
  shows "fs_tree (nd_fs (handle_all E N D ev n)) = fs_tree fs3"
proof (cases rule: handle_all_stages [of E N D ev n])
  case (1 sw2' fs2' ev3' sw3' fs3' ev4 ft4 fs4 ev5 ctx)
  with assms have "fs3' = fs3" by simp
  with 1(5) chunk_tree [OF 1(3)] replication_tree [OF 1(4)] show ?thesis by simp
qed

lemma applied_log:
  assumes "replica (e_replica E) valid" and "fs_inv E valid (nd_fs n)"
    and "op_ids_unique (node_log E n \<union> set ops)"
    and "fs_tree fs' = fs_tree (fs_apply_operations E readings ops (nd_fs n))"
  shows "set (r_log (e_replica E) (nt_tree (fs_tree fs'))) = node_log E n \<union> set ops"
proof -
  have v: "valid (nt_tree (fs_tree (nd_fs n)))"
    using fs_inv_parts(1) [OF assms(2)] by (simp add: tree_inv_def)
  from replica.apply_ops_log [OF assms(1) v, of ops] assms(3)
  show ?thesis by (simp add: assms(4) fs_apply_operations_def nt_apply_operations_def node_log_def op_ids_unique_iff)
qed

lemma dispatch_event:
  "dispatcher_tick E N D (FromSwarm e) n = (Some (Ok ()), tick_all E N D (handle_all E N D (event_from_swarm e) n))"
  by (simp add: dispatcher_tick_def)

lemma missing_operations_log:
  assumes "replica (e_replica E) valid" and "fs_inv E valid (nd_fs n)"
    and "op_ids_unique (node_log E n \<union> set ops)"
  shows "node_log E (snd (dispatcher_tick E N D (FromSwarm (MessageResponse rid (MissingOperations ops))) n)) =
    node_log E n \<union> set ops"
proof -
  let ?n = "handle_all E N D (ResponseEvent rid (MissingOperations ops)) n"
  have tree: "fs_tree (nd_fs ?n) = fs_tree (sync_apply_operations E (d_readings D) ops (nd_fs n))"
    using handle_all_tree [of E N D "ResponseEvent rid (MissingOperations ops)" n "nd_swarm n" "nd_fs n"] by simp
  show ?thesis
  proof (cases "ops = []")
    case True
    with tree show ?thesis
      unfolding dispatch_event by (simp add: sync_apply_operations_def node_log_def tick_all_tree)
  next
    case False
    with tree have "fs_tree (nd_fs ?n) = fs_tree (fs_apply_operations E (d_readings D) ops (nd_fs n))"
      by (simp add: sync_apply_operations_def)
    from applied_log [OF assms(1-3) this] show ?thesis
      unfolding dispatch_event by (simp add: node_log_def [of E "tick_all E N D ?n"] tick_all_tree)
  qed
qed

lemma missing_operations_stamps:
  assumes "replica (e_replica E) valid" and "op_ids_unique (L \<union> node_log E b)" and "node_log E a \<subseteq> L"
  shows "L \<union> set (fs_operations_missing_from E (nd_fs b) (set (fs_operation_ids E (nd_fs a)))) = L \<union> node_log E b"
proof -
  have ops: "set (fs_operations_missing_from E (nd_fs b) (set (fs_operation_ids E (nd_fs a)))) =
    {x \<in> node_log E b. op_timestamp x \<notin> op_timestamp ` node_log E a}"
    using replica.missing_ops_set [OF assms(1), of "fs_tree (nd_fs b)" "fs_tree (nd_fs a)"]
    by (simp add: fs_operations_missing_from_def fs_operation_ids_def node_log_def log_stamps_def)
  have "x \<in> L" if "x \<in> node_log E b" "op_timestamp x \<in> op_timestamp ` node_log E a" for x
    using that assms(2,3) by (auto simp: op_ids_unique_iff dest!: inj_onD)
  then show ?thesis by (auto simp: ops)
qed

text \<open>The ticks only add to what was sent.\<close>

lemma probes_sent: "set (sw_sent (snd s)) \<subseteq> set (sw_sent (snd (probe_eviction_candidates E N fs s)))"
proof (cases s)
  case (Pair rp sw)
  show ?thesis
  proof (cases "candidates_of E N sw fs = []")
    case False
    let ?conf = "filter (\<lambda>(hash, _). hash \<in> set (candidates_of E N sw fs)) (rp_confirmed_holders rp)"
    let ?bh = "probes_by_holder N (current_members sw) ?conf (candidates_of E N sw fs)"
    let ?bs = "\<lambda>p. vec_chunks MAX_HASHES_PER_PROBE (hashes_for ?bh p)"
    from probes_sent_keeps(3) [OF probes_sent_all [of ?bs "n_peer_order N (fst ` set ?bh)"
        "(rp\<lparr>rp_confirmed_holders := ?conf\<rparr>, sw)" N]] False Pair
    show ?thesis by (simp add: probe_eviction_candidates_def Let_def hashes_for_def)
  qed (simp add: Pair probe_eviction_candidates_def Let_def)
qed

lemma replication_tick_sent:
  "set (sw_sent (rc_swarm c)) \<subseteq> set (sw_sent (rc_swarm (replication_tick E N now c)))"
proof (cases rule: replication_tick_cases [of c E N now])
  case (ticked c1)
  have same: "rc_swarm c1 = rc_swarm c"
    using ticked(1)
  proof (elim disjE exE conjE)
    fix c0 assume c0: "c0 = c\<lparr>rc_state := (rc_state c)\<lparr>rp_next_rebalance := rp_next_rebalance (rc_state c0)\<rparr>\<rparr>"
      "c1 = rebalance_ctx E N now c0"
    have "rc_swarm c0 = rc_swarm c" by (subst c0(1)) simp
    with c0(2) show ?thesis by simp
  qed simp
  with ticked(2) probes_sent [of "((rc_state c1)\<lparr>rp_next_eviction := now + REPLICATION_EVICTION_INTERVAL\<rparr>, rc_swarm c1)" E N "rc_fs c1"]
  show ?thesis by fastforce
qed

lemma tick_all_sent: "set (sw_sent (nd_swarm n)) \<subseteq> set (sw_sent (nd_swarm (tick_all E N D n)))"
proof (cases "sync_tick E N (d_roll D) (d_now D) (nd_fs n) (nd_last_sync n, nd_swarm n)")
  case (Pair x sw)
  then have "set (sw_sent (nd_swarm n)) \<subseteq> set (sw_sent sw)"
    by (auto simp: sync_tick_def synchronize_with_def send_request_def Let_def split: if_splits)
  with replication_tick_sent [of "replication_part (n\<lparr>nd_last_sync := x, nd_swarm := sw\<rparr>)" E N "d_now D"] Pair
  show ?thesis by (auto simp: tick_all_def Let_def with_replication_def replication_part_def)
qed

lemma connection_request:
  "\<exists>rid. (rid, p, PullMissingOperations (fs_operation_ids E (nd_fs n))) \<in>
     set (sw_sent (nd_swarm (snd (dispatcher_tick E N D (FromSwarm (ConnectionEstablished p 1)) n))))"
proof -
  let ?ev = "SwarmEvent (ConnectionEstablished p 1)" and ?req = "PullMissingOperations (fs_operation_ids E (nd_fs n))"
  have "\<exists>rid. (rid, p, ?req) \<in> set (sw_sent (nd_swarm (handle_all E N D ?ev n)))"
  proof (cases rule: handle_all_stages [of E N D ?ev n])
    case (1 sw2 fs2 ev3 sw3 fs3 ev4 ft4 fs4 ev5 ctx)
    then have "sw3 = synchronize_with E N (nd_fs n) p (nd_swarm n)" "ft_swarm ft4 = sw3" "ev4 = ?ev"
      "rc_swarm ctx = sw3" by auto
    with 1(5) show ?thesis by (auto simp: synchronize_with_def send_request_def Let_def)
  qed
  with tick_all_sent show ?thesis unfolding dispatch_event by fastforce
qed

section \<open>An answered request\<close>

lemma tick_all_fetcher [simp]:
  "nd_fetcher (tick_all E N D n) = nd_fetcher n" "nd_replies (tick_all E N D n) = nd_replies n"
  by (simp_all add: tick_all_def with_replication_def Let_def split: prod.split)

lemma answered_session:
  fixes a :: "'t node"
  assumes "hget (cf_requests (nd_fetcher a)) rid = Some h" and "hget (cf_sessions (nd_fetcher a)) h = Some se"
    and "hash_of (e_sha E) d = h"
  shows "hget (cf_sessions (nd_fetcher (handle_all E N D (ResponseEvent rid (ChunkData d)) a))) h = None \<and>
    nd_replies (handle_all E N D (ResponseEvent rid (ChunkData d)) a) =
      nd_replies a @ map (\<lambda>w. (w, Some d)) (se_waiters se)"
proof -
  obtain s' fs' where r: "handle_response E N (d_now D) rid d (fetch_part a, nd_fs a) = (s', fs')" by fastforce
  have "hget (cf_sessions (ft_fetcher s')) h = None \<and> ft_replies s' = nd_replies a @ map (\<lambda>w. (w, Some d)) (se_waiters se)"
    using r assms by (auto simp: handle_response_def fetch_part_def answer_def block_chunk_def Let_def split: if_splits sum.splits prod.splits)
  with r show ?thesis
    by (simp add: handle_all_def run_defs fetch_part_def with_replication_def split: prod.split)
qed

section \<open>Properties\<close>

text \<open>C16: Every request of a peer is answered exactly once, in the dispatcher call that receives it, by
  the one handler it is for: with the chunk when it is stored and an error otherwise, with those of the
  hashes that are pinned, with the operations the peer does not know. No other event is answered.\<close>

theorem requests_answered_once:
  "(\<forall>req ch. \<exists>resp. sw_given (nd_swarm (snd (dispatcher_tick E N D (FromSwarm (MessageRequest req ch)) n))) =
        sw_given (nd_swarm n) @ [(ch, resp)] \<and>
      resp = (case req of
          PullChunk h \<Rightarrow> (case fs_look (nd_fs n) h of Some d \<Rightarrow> ChunkData d | None \<Rightarrow> ErrorResponse ChunkNotFound)
        | CheckChunks hs \<Rightarrow> HeldChunks (filter (fs_is_pinned (nd_fs n)) hs)
        | PullMissingOperations ids \<Rightarrow> MissingOperations (fs_operations_missing_from E (nd_fs n) (set ids)))) \<and>
   (\<forall>w. (\<nexists>req ch. w = FromSwarm (MessageRequest req ch)) \<longrightarrow>
      sw_given (nd_swarm (snd (dispatcher_tick E N D w n))) = sw_given (nd_swarm n))"
proof -
  have "sw_given (nd_swarm (snd (dispatcher_tick E N D w n))) = sw_given (nd_swarm n)"
    if w: "\<nexists>req ch. w = FromSwarm (MessageRequest req ch)" for w
  proof -
    have "no_reply ev" if "next_event w q = (Some (Ok ev), q')" for ev q q'
    proof (cases w)
      case (FromSwarm e)
      with that w show ?thesis by (cases e) (auto simp: no_reply_def)
    qed (use that in \<open>auto simp: no_reply_def event_from_command_def split: list.splits if_splits\<close>)
    then show ?thesis
      by (auto simp: dispatcher_tick_def tick_all_given handle_no_reply split: prod.split option.split sum.split)
  qed
  then show ?thesis using handle_request [of E N D _ _ n] unfolding dispatch_event by (simp add: tick_all_given)
qed

theorem requests_answered_once_witness:
  "sw_given (nd_swarm (snd (dispatcher_tick demo_env demo_net
     \<lparr>d_now = 0, d_readings = (\<lambda>_. None), d_roll = (\<lambda>_. 0), d_publish = (\<lambda>_. True)\<rparr> Timeout (node_new demo_env 1 0 demo_members)))) = []"
proof -
  have "\<nexists>req ch. Timeout = FromSwarm (MessageRequest req ch)" by simp
  moreover have "sw_given (nd_swarm (node_new demo_env 1 0 demo_members)) = []"
    by (simp add: node_new_def demo_members_def)
  ultimately show ?thesis
    using requests_answered_once [of demo_env demo_net "\<lparr>d_now = 0, d_readings = (\<lambda>_. None), d_roll = (\<lambda>_. 0), d_publish = (\<lambda>_. True)\<rparr>"
      "node_new demo_env 1 0 demo_members"] by simp
qed

text \<open>The network side never breaks the file system. Whatever the dispatcher wakes up for, from a
  state that local operations and the network have led to, it leaves the file system in such a state, so
  the invariants of those states (no cycle in the tree, unique operation ids, exact byte counts, every
  chunk stored under its hash) hold at every moment.\<close>

theorem dispatcher_keeps_invariant:
  assumes "replica (e_replica E) valid" and "fs_reachable E peer capacity (nd_fs n)"
    and "unat (fs_capacity_bytes (nd_fs n)) < 2 ^ 63" and "\<And>i. time_ok (d_readings D i)"
    and "\<And>rid data. w = FromSwarm (MessageResponse rid (ChunkData data)) \<Longrightarrow> vec_ok data"
  shows "fs_reachable E peer capacity (nd_fs (snd (dispatcher_tick E N D w n))) \<and>
    fs_inv E valid (nd_fs (snd (dispatcher_tick E N D w n))) \<and>
    unat (fs_capacity_bytes (nd_fs (snd (dispatcher_tick E N D w n)))) < 2 ^ 63"
proof -
  have "fs_sound E peer capacity (nd_fs n)" using assms(2,3) by (simp add: fs_sound_def)
  from dispatcher_sound [OF assms(1) this assms(4,5), where N = N]
  have "fs_sound E peer capacity (nd_fs (snd (dispatcher_tick E N D w n)))" .
  with fs_reachable_inv [OF assms(1)] show ?thesis by (auto simp: fs_sound_def)
qed

theorem dispatcher_keeps_invariant_witness:
  "fs_inv demo_env ref_valid (nd_fs (snd (dispatcher_tick demo_env demo_net
     \<lparr>d_now = 0, d_readings = (\<lambda>_. None), d_roll = (\<lambda>_. 0), d_publish = (\<lambda>_. True)\<rparr> Timeout (node_new demo_env 1 0 demo_members))))"
proof -
  let ?n = "node_new demo_env 1 0 demo_members"
  have rep: "replica (e_replica demo_env) ref_valid" using ref.replica_axioms by simp
  have "fs_reachable demo_env (PeerId 1) (app_storage_bytes 1) (nd_fs ?n)"
    using fs_reachable.start [of demo_env "PeerId 1" "app_storage_bytes 1"] by (simp add: node_new_def demo_members_def)
  moreover have "unat (fs_capacity_bytes (nd_fs ?n)) < 2 ^ 63"
    by (simp add: node_new_def fs_new_def fs_capacity_bytes_def storage_capacity_bytes_def storage_new_def app_storage_bytes_def)
  ultimately show ?thesis
    by (intro conjunct1 [OF conjunct2 [OF dispatcher_keeps_invariant [OF rep, of "PeerId 1" "app_storage_bytes 1"]]])
      (simp_all add: time_ok_def hlc_eval)
qed

text \<open>Two nodes that meet exchange what they lack. When a connection to a peer is established, the
  node sends that peer the ids of its operations; the answer the peer gives to this request, whenever
  it arrives, makes the node know every operation the peer had and lose none of its own.\<close>

theorem peers_exchange_operations:
  assumes "replica (e_replica E) valid" and "fs_inv E valid (nd_fs a2)"
    and "op_ids_unique (node_log E a2 \<union> node_log E b)" and "node_log E a \<subseteq> node_log E a2"
  shows "\<exists>rid ops.
    (rid, p, PullMissingOperations (fs_operation_ids E (nd_fs a))) \<in>
       set (sw_sent (nd_swarm (snd (dispatcher_tick E N D (FromSwarm (ConnectionEstablished p 1)) a)))) \<and>
    (ch, MissingOperations ops) \<in> set (sw_given (nd_swarm (snd (dispatcher_tick E N D'
       (FromSwarm (MessageRequest (PullMissingOperations (fs_operation_ids E (nd_fs a))) ch)) b)))) \<and>
    node_log E (snd (dispatcher_tick E N D'' (FromSwarm (MessageResponse rid (MissingOperations ops))) a2)) =
      node_log E a2 \<union> node_log E b"
proof -
  let ?ops = "fs_operations_missing_from E (nd_fs b) (set (fs_operation_ids E (nd_fs a)))"
  note all = missing_operations_stamps [OF assms(1,3,4)]
  have "(ch, MissingOperations ?ops) \<in> set (sw_given (nd_swarm (snd (dispatcher_tick E N D'
       (FromSwarm (MessageRequest (PullMissingOperations (fs_operation_ids E (nd_fs a))) ch)) b))))"
    using handle_request [of E N D' "PullMissingOperations (fs_operation_ids E (nd_fs a))" ch b]
    unfolding dispatch_event by (simp add: tick_all_given)
  moreover have "node_log E (snd (dispatcher_tick E N D'' (FromSwarm (MessageResponse rid (MissingOperations ?ops))) a2)) =
      node_log E a2 \<union> node_log E b" for rid
    using missing_operations_log [OF assms(1,2), of ?ops] assms(3) unfolding all by simp
  ultimately show ?thesis using connection_request [of p E a N D] by blast
qed

theorem peers_exchange_operations_witness:
  "\<exists>(a :: node_operation list node) b rid ops x.
    (rid, PeerId 2, PullMissingOperations (fs_operation_ids demo_env (nd_fs a))) \<in>
       set (sw_sent (nd_swarm (snd (dispatcher_tick demo_env demo_net
         \<lparr>d_now = 0, d_readings = (\<lambda>_. None), d_roll = (\<lambda>_. 0), d_publish = (\<lambda>_. True)\<rparr> (FromSwarm (ConnectionEstablished (PeerId 2) 1)) a)))) \<and>
    node_log demo_env a = {} \<and> node_log demo_env b = {x} \<and>
    node_log demo_env (snd (dispatcher_tick demo_env demo_net \<lparr>d_now = 0, d_readings = (\<lambda>_. None), d_roll = (\<lambda>_. 0), d_publish = (\<lambda>_. True)\<rparr>
      (FromSwarm (MessageResponse rid (MissingOperations ops))) a)) = {x}"
proof -
  let ?D = "\<lparr>d_now = 0, d_readings = (\<lambda>_. None), d_roll = (\<lambda>_. 0), d_publish = (\<lambda>_. True)\<rparr> :: dispatch_env"
  let ?a = "node_new demo_env 1 0 demo_members"
  obtain x t where c: "nt_create_node ref_api (Some 5) ROOT (NodeId 7) (Directory ''d'') (nt_new ref_api (PeerId 2)) = (x, t)"
    by force
  let ?b = "?a\<lparr>nd_fs := fs_new t (storage_new 1000)\<rparr>"
  have "can_stamp (Some 5) (nt_new ref_api (PeerId 2))" by (simp add: can_stamp_def nt_new_def hlc_eval)
  have logs: "node_log demo_env ?a = {}" "node_log demo_env ?b = {x}"
    using c by (auto simp: node_log_def node_new_def fs_new_def nt_create_node_def nt_move_operation_def nt_new_def
        ref_api_def ref_apply_op_def log_stamps_def hlc_eval)
  have rep: "replica (e_replica demo_env) ref_valid" using ref.replica_axioms by simp
  have inv: "fs_inv demo_env ref_valid (nd_fs ?a)"
    using fs_reachable_inv [OF rep fs_reachable.start] by (simp add: node_new_def)
  have "op_ids_unique (node_log demo_env ?a \<union> node_log demo_env ?b)" by (simp add: logs op_ids_unique_def)
  from peers_exchange_operations [OF rep inv this order_refl, of "PeerId 2" demo_net ?D 0 ?D ?D] logs
  show ?thesis by (intro exI [of _ ?a] exI [of _ ?b]) auto
qed

text \<open>C32: What one node broadcasts the others apply. When the dispatcher takes a broadcast from the
  head of the command queue, the node records exactly one outcome: the operations are published, in one
  message, if they can be encoded and the gossip library accepts the message, and otherwise nothing is
  published and the failure is recorded, as the program logs it; the node's own operations stay what they
  were. A node that receives the encoded message afterwards knows those operations besides all it knew,
  provided the codec reads back what it wrote and equal ids mean equal operations.\<close>

theorem gossip_delivers:
  assumes "replica (e_replica E) valid" and "fs_inv E valid (nd_fs b)"
    and "op_ids_unique (node_log E b \<union> set ops)"
    and "\<And>bytes. n_encode N ops = Some bytes \<Longrightarrow> n_decode N bytes = Some ops"
    and "cq_items (nd_queue a) = BroadcastOperations ops # rest"
  shows "sw_gossip (nd_swarm (snd (dispatcher_tick E N D FromQueue a))) = sw_gossip (nd_swarm a) @
      [case n_encode N ops of
         None \<Rightarrow> NotPublished ops
       | Some bytes \<Rightarrow> if d_publish D bytes then Published bytes else NotPublished ops] \<and>
    node_log E (snd (dispatcher_tick E N D FromQueue a)) = node_log E a \<and>
    (\<forall>bytes. n_encode N ops = Some bytes \<longrightarrow>
      node_log E (snd (dispatcher_tick E N D' (FromSwarm (GossipMessage bytes)) b)) = node_log E b \<union> set ops)"
proof -
  let ?a = "a\<lparr>nd_queue := (nd_queue a)\<lparr>cq_items := rest\<rparr>\<rparr>"
  have "sw_gossip (nd_swarm (snd (dispatcher_tick E N D FromQueue a))) = sw_gossip (nd_swarm a) @
      [case n_encode N ops of
         None \<Rightarrow> NotPublished ops
       | Some bytes \<Rightarrow> if d_publish D bytes then Published bytes else NotPublished ops]"
    using assms(5)
    by (simp add: dispatcher_tick_def event_from_command_def tick_all_given handle_all_def run_defs gossip_broadcast_def
        split: option.split)
  moreover have "node_log E (snd (dispatcher_tick E N D FromQueue a)) = node_log E a"
    using handle_all_tree [of E N D "Command (BroadcastOperations ops)" ?a "gossip_broadcast N (d_publish D) ops (nd_swarm ?a)"] assms(5)
    by (simp add: dispatcher_tick_def event_from_command_def node_log_def tick_all_tree)
  moreover have "node_log E (snd (dispatcher_tick E N D' (FromSwarm (GossipMessage bytes)) b)) = node_log E b \<union> set ops"
    if "n_encode N ops = Some bytes" for bytes
  proof -
    let ?n = "handle_all E N D' (GossipEvent bytes) b"
    have "fs_tree (nd_fs ?n) = fs_tree (fs_apply_operations E (d_readings D') ops (nd_fs b))"
      using handle_all_tree [of E N D' "GossipEvent bytes" b "nd_swarm b"] assms(4) [OF that] by (simp add: apply_gossip_def)
    from applied_log [OF assms(1-3) this] show ?thesis
      unfolding dispatch_event by (simp add: node_log_def [of E "tick_all E N D' ?n"] tick_all_tree)
  qed
  ultimately show ?thesis by blast
qed

text \<open>The witness: a node that issued an operation publishes it, a node that knows nothing learns it from
  the message, and with a library that refuses the message the failure is recorded.\<close>

theorem gossip_delivers_witness:
  "\<exists>(a :: node_operation list node) b N x. node_log demo_env a = {x} \<and> node_log demo_env b = {} \<and>
    sw_gossip (nd_swarm (snd (dispatcher_tick demo_env N
      \<lparr>d_now = 0, d_readings = (\<lambda>_. None), d_roll = (\<lambda>_. 0), d_publish = (\<lambda>_. True)\<rparr> FromQueue a))) = [Published [1]] \<and>
    sw_gossip (nd_swarm (snd (dispatcher_tick demo_env N
      \<lparr>d_now = 0, d_readings = (\<lambda>_. None), d_roll = (\<lambda>_. 0), d_publish = (\<lambda>_. False)\<rparr> FromQueue a))) = [NotPublished [x]] \<and>
    node_log demo_env (snd (dispatcher_tick demo_env N
      \<lparr>d_now = 0, d_readings = (\<lambda>_. None), d_roll = (\<lambda>_. 0), d_publish = (\<lambda>_. True)\<rparr>
      (FromSwarm (GossipMessage [1])) b)) = {x}"
proof -
  let ?D = "\<lambda>ok. \<lparr>d_now = 0, d_readings = (\<lambda>_. None), d_roll = (\<lambda>_. 0), d_publish = (\<lambda>_. ok)\<rparr> :: dispatch_env"
  let ?b = "node_new demo_env 1 0 demo_members"
  obtain x t where c: "nt_create_node ref_api (Some 5) ROOT (NodeId 7) (Directory ''d'') (nt_new ref_api (PeerId 2)) = (x, t)"
    by force
  let ?a = "?b\<lparr>nd_fs := fs_new t (storage_new 1000), nd_queue := \<lparr>cq_items = [BroadcastOperations [x]], cq_open = True\<rparr>\<rparr>"
  let ?N = "demo_net\<lparr>n_encode := \<lambda>ops. if ops = [x] then Some [1] else None, n_decode := \<lambda>b. if b = [1] then Some [x] else None\<rparr>"
  have logs: "node_log demo_env ?b = {}" "node_log demo_env ?a = {x}"
    using c by (auto simp: node_log_def node_new_def fs_new_def nt_create_node_def nt_move_operation_def nt_new_def
        ref_api_def ref_apply_op_def log_stamps_def hlc_eval)
  have rep: "replica (e_replica demo_env) ref_valid" using ref.replica_axioms by simp
  have inv: "fs_inv demo_env ref_valid (nd_fs ?b)"
    using fs_reachable_inv [OF rep fs_reachable.start] by (simp add: node_new_def)
  have uniq: "op_ids_unique (node_log demo_env ?b \<union> set [x])" by (simp add: logs op_ids_unique_def)
  have codec: "\<And>bytes. n_encode ?N [x] = Some bytes \<Longrightarrow> n_decode ?N bytes = Some [x]" by simp
  have queue: "cq_items (nd_queue ?a) = BroadcastOperations [x] # []" by simp
  have quiet: "sw_gossip (nd_swarm ?a) = []" by (simp add: node_new_def demo_members_def)
  note delivered = gossip_delivers [OF rep inv uniq codec queue]
  from delivered [of "?D True" "?D True"] delivered [of "?D False" "?D True"] logs quiet show ?thesis
    by (intro exI [of _ ?a] exI [of _ ?b] exI [of _ ?N] exI [of _ x]) simp
qed

text \<open>C17: A chunk gets from the node that stores it to the callers that wait for it. A request a node has
  outstanding was sent to a peer; a peer that stores the chunk answers it with the data; and whenever this
  answer arrives, every caller in the session of the chunk is given that data, no caller is told anything
  else, and the session is over.\<close>

theorem served_chunk_reaches_callers:
  assumes "rids_fresh N" and "fetch_reachable E N acc (fetch_part a)" and "hget (cf_requests (nd_fetcher a)) rid = Some h"
    and "fs_inv E valid (nd_fs b)" and "fs_look (nd_fs b) h = Some d"
  shows "(\<exists>p. (rid, p, PullChunk h) \<in> set (sw_sent (nd_swarm a))) \<and>
    (ch, ChunkData d) \<in> set (sw_given (nd_swarm (snd (dispatcher_tick E N D (FromSwarm (MessageRequest (PullChunk h) ch)) b)))) \<and>
    (\<exists>se a'. snd (dispatcher_tick E N D' (FromSwarm (MessageResponse rid (ChunkData d))) a) = a' \<and>
       hget (cf_sessions (nd_fetcher a)) h = Some se \<and> hget (cf_sessions (nd_fetcher a')) h = None \<and>
       nd_replies a' = nd_replies a @ map (\<lambda>w. (w, Some d)) (se_waiters se))"
proof -
  note inv = fetch_inv_parts [OF fetch_reachable_inv [OF assms(1,2)]]
  from inv(2) assms(3) have sent: "\<exists>p. (rid, p, PullChunk h) \<in> set (sw_sent (nd_swarm a))"
    by (auto simp: requests_sent_def fetch_part_def)
  obtain se where se: "hget (cf_sessions (nd_fetcher a)) h = Some se"
    by (rule linkedD [OF inv(1), of rid h]) (use assms(3) in \<open>auto simp: fetch_part_def\<close>)
  have "hash_of (e_sha E) d = h"
    using fs_inv_parts(3) [OF assms(4)] assms(5)
    by (auto simp: fs_look_def chunk_look_def content_addressed_def split: option.splits)
  with answered_session [OF assms(3) se, of E d N D'] handle_request [of E N D "PullChunk h" ch b] assms(5) sent se
  show ?thesis unfolding dispatch_event by (auto simp: tick_all_given)
qed

theorem served_chunk_reaches_callers_witness:
  "nd_replies (snd (dispatcher_tick demo_env demo_net \<lparr>d_now = 0, d_readings = (\<lambda>_. None), d_roll = (\<lambda>_. 0), d_publish = (\<lambda>_. True)\<rparr>
     (FromSwarm (MessageResponse 1 (ChunkData [1, 2, 3])))
     ((node_new demo_env 1 0 demo_swarm)\<lparr>nd_fetcher := ft_fetcher demo_fetch, nd_swarm := ft_swarm demo_fetch,
        nd_replies := ft_replies demo_fetch\<rparr>))) = [(9, Some [1, 2, 3])]"
proof -
  let ?n = "node_new demo_env 1 0 demo_swarm" and ?h = "ChunkHash [1, 2, 3]"
  let ?a = "?n\<lparr>nd_fetcher := ft_fetcher demo_fetch, nd_swarm := ft_swarm demo_fetch, nd_replies := ft_replies demo_fetch\<rparr>"
  obtain fs where fs: "fs_inv demo_env ref_valid fs" "fs_look fs ?h = Some [1, 2, 3]" by (rule demo_in_use) (rule that)
  let ?b = "?n\<lparr>nd_fs := fs\<rparr>"
  have part: "fetch_part ?a = demo_fetch" by (simp add: fetch_part_def)
  have reach: "fetch_reachable demo_env demo_net {(9, ?h)} (fetch_part ?a)"
    unfolding part by (rule demo_fetch_reachable)
  have rid: "hget (cf_requests (nd_fetcher ?a)) 1 = Some ?h" by (simp add: demo_fetch_eq hget_def)
  have b: "fs_inv demo_env ref_valid (nd_fs ?b)" "fs_look (nd_fs ?b) ?h = Some [1, 2, 3]" using fs by simp_all
  from served_chunk_reaches_callers [OF rids_fresh_demo reach rid b, of 0 _ "\<lparr>d_now = 0, d_readings = (\<lambda>_. None), d_roll = (\<lambda>_. 0), d_publish = (\<lambda>_. True)\<rparr>"]
  show ?thesis by (auto simp: demo_fetch_eq hget_def)
qed

end
