(* ===== verification/Bridge.thy ===== *)
theory Bridge
  imports Replication
begin

text \<open>
  The mount's way to the network: \<open>src/src/network/network_bridge.rs\<close>, the implementation of the traits
  of \<open>src/src/port.rs\<close>. A task gathers the operations of the mount into batches for the gossip handler.

  The task is a state machine driven by what its \<open>select!\<close> wakes up for. \<open>send(..).await\<close> waits for
  room in the command channel and fails only when the receiver is gone; \<open>sent\<close> is the log of the
  commands accepted and \<open>open\<close> says whether the receiver is there.
\<close>

section \<open>The code\<close>

definition BATCH_IDLE :: nat where "BATCH_IDLE = 1000"

definition MAX_BATCH_OPERATIONS :: nat where "MAX_BATCH_OPERATIONS = 64"

datatype bridge_task =
    Receiving
  | Batching "node_operation list" instant
  | Returned

datatype bridge_input =
    Received "node_operation list"
  | TimeIs instant
  | Closed

text \<open>The loop that sends the batch in pieces; the \<open>bool\<close> is false when the task returns.\<close>

function flush_batch :: "bool \<Rightarrow> node_operation list \<Rightarrow> swarm_command list \<Rightarrow> bool \<times> swarm_command list" where
  "flush_batch open batch sent =
     (if batch = [] then (True, sent)
      else
        (let count = min (length batch) MAX_BATCH_OPERATIONS; remaining = drop count batch; operations = take count batch
         in if \<not> open then (False, sent)
            else flush_batch open remaining (sent @ [BroadcastOperations operations])))"
  by pat_completeness auto
termination
  by (relation "measure (\<lambda>(_, batch, _). length batch)") (auto simp: MAX_BATCH_OPERATIONS_def)

declare flush_batch.simps [simp del]

text \<open>The head of the inner loop: gather on, or send what there is.\<close>

definition gather ::
  "bool \<Rightarrow> node_operation list \<Rightarrow> instant \<Rightarrow> swarm_command list \<Rightarrow> bridge_task \<times> swarm_command list"
where
  "gather open batch deadline sent =
     (if length batch < MAX_BATCH_OPERATIONS then (Batching batch deadline, sent)
      else (case flush_batch open batch sent of (ok, sent) \<Rightarrow> (if ok then Receiving else Returned, sent)))"

fun bridge_step ::
  "bool \<Rightarrow> instant \<Rightarrow> bridge_input \<Rightarrow> bridge_task \<times> swarm_command list \<Rightarrow> bridge_task \<times> swarm_command list"
where
  "bridge_step open now (Received operations) (Receiving, sent) = gather open operations (now + BATCH_IDLE) sent"
| "bridge_step open now (Received operations) (Batching batch deadline, sent) =
     gather open (batch @ operations) deadline sent"
| "bridge_step open now (TimeIs t) (Batching batch deadline, sent) =
     (if t \<ge> deadline
      then (case flush_batch open batch sent of (ok, sent) \<Rightarrow> (if ok then Receiving else Returned, sent))
      else (Batching batch deadline, sent))"
| "bridge_step open now Closed (Receiving, sent) = (Returned, sent)"
| "bridge_step open now input s = s"

text \<open>\<open>OperationBroadcaster::broadcast\<close>: what reaches the task.\<close>

definition bridge_broadcast :: "node_operation list \<Rightarrow> bridge_input list" where
  "bridge_broadcast operations = (if operations \<noteq> [] then [Received operations] else [])"

text \<open>\<open>ChunkProvider::fetch\<close>: the command it sends with the reply channel \<open>w\<close>, and its result, given what
  comes through that channel (\<open>None\<close> when it is dropped).\<close>

definition bridge_fetch :: "chunk_hash \<Rightarrow> chunk_reply \<Rightarrow> swarm_command" where
  "bridge_fetch hash w = FetchChunk hash (Some w) False"

definition bridge_fetch_result :: "bool \<Rightarrow> bytes option option \<Rightarrow> bytes option" where
  "bridge_fetch_result open reply = (if open then (case reply of None \<Rightarrow> None | Some data \<Rightarrow> data) else None)"

section \<open>Lemmas\<close>

fun operations_of :: "swarm_command \<Rightarrow> node_operation list" where
  "operations_of (BroadcastOperations operations) = operations"
| "operations_of (FetchChunk hash reply pin) = []"

definition batch_ok :: "swarm_command \<Rightarrow> bool" where
  "batch_ok cmd \<longleftrightarrow> (\<exists>operations. cmd = BroadcastOperations operations \<and> operations \<noteq> [] \<and> length operations \<le> 64)"

lemma flush_batch_all:
  "\<exists>new. flush_batch True batch sent = (True, sent @ new) \<and> concat (map operations_of new) = batch \<and> (\<forall>c \<in> set new. batch_ok c)"
proof (induction "length batch" arbitrary: batch sent rule: less_induct)
  case less
  show ?case
  proof (cases "batch = []")
    case True
    then show ?thesis by (intro exI [of _ "[]"]) (simp add: flush_batch.simps)
  next
    case False
    let ?c = "min (length batch) MAX_BATCH_OPERATIONS"
    have "0 < ?c" using False by (simp add: MAX_BATCH_OPERATIONS_def)
    then have "length (drop ?c batch) < length batch" using False by simp
    from less [OF this, of "sent @ [BroadcastOperations (take ?c batch)]"] obtain new where new:
      "flush_batch True (drop ?c batch) (sent @ [BroadcastOperations (take ?c batch)]) =
         (True, (sent @ [BroadcastOperations (take ?c batch)]) @ new)"
      "concat (map operations_of new) = drop ?c batch" "\<forall>c \<in> set new. batch_ok c" by blast
    have "batch_ok (BroadcastOperations (take ?c batch))"
      using False by (simp add: batch_ok_def MAX_BATCH_OPERATIONS_def)
    moreover have "flush_batch True batch sent = (True, sent @ BroadcastOperations (take ?c batch) # new)"
      by (subst flush_batch.simps) (use False new(1) in \<open>simp add: Let_def\<close>)
    ultimately show ?thesis
      using new(2,3) by (intro exI [of _ "BroadcastOperations (take ?c batch) # new"]) simp
  qed
qed

definition received_of :: "bridge_input \<Rightarrow> node_operation list" where
  "received_of input = (case input of Received operations \<Rightarrow> operations | _ \<Rightarrow> [])"

definition held_by :: "bridge_task \<Rightarrow> node_operation list" where
  "held_by task = (case task of Batching batch _ \<Rightarrow> batch | _ \<Rightarrow> [])"

definition bridge_inv :: "bridge_task \<times> swarm_command list \<Rightarrow> node_operation list \<Rightarrow> bool" where
  "bridge_inv s received \<longleftrightarrow>
     concat (map operations_of (snd s)) @ held_by (fst s) = received \<and> (\<forall>c \<in> set (snd s). batch_ok c) \<and>
     fst s \<noteq> Returned \<and> (\<forall>batch deadline. fst s = Batching batch deadline \<longrightarrow> length batch < 64)"

lemma flush_inv:
  assumes "concat (map operations_of sent) = before" and "\<forall>c \<in> set sent. batch_ok c"
  shows "bridge_inv (case flush_batch True batch sent of (ok, sent) \<Rightarrow> (if ok then Receiving else Returned, sent))
    (before @ batch)"
proof -
  from flush_batch_all [of batch sent] obtain new where
    "flush_batch True batch sent = (True, sent @ new)" "concat (map operations_of new) = batch" "\<forall>c \<in> set new. batch_ok c" by blast
  with assms show ?thesis by (auto simp: bridge_inv_def held_by_def)
qed

lemma gather_inv:
  assumes "concat (map operations_of sent) = before" and "\<forall>c \<in> set sent. batch_ok c"
  shows "bridge_inv (gather True batch deadline sent) (before @ batch)"
proof (cases "length batch < 64")
  case True
  with assms show ?thesis by (simp add: gather_def MAX_BATCH_OPERATIONS_def bridge_inv_def held_by_def)
next
  case False
  with flush_inv [OF assms] show ?thesis by (simp add: gather_def MAX_BATCH_OPERATIONS_def)
qed

lemma bridge_step_inv:
  assumes "bridge_inv s received" and "input \<noteq> Closed"
  shows "bridge_inv (bridge_step True now input s) (received @ received_of input)"
proof (cases s)
  case (Pair task sent)
  with assms(1) have inv: "concat (map operations_of sent) @ held_by task = received" "\<forall>c \<in> set sent. batch_ok c"
    "task \<noteq> Returned" by (simp_all add: bridge_inv_def)
  show ?thesis
  proof (cases "(True, now, input, s)" rule: bridge_step.cases)
    case (1 chan now' operations sent')
    with inv Pair gather_inv [of sent received operations] show ?thesis by (simp add: held_by_def received_of_def)
  next
    case (2 chan now' operations batch deadline sent')
    with inv Pair gather_inv [of sent "concat (map operations_of sent)" "batch @ operations"] show ?thesis
      by (clarsimp simp: held_by_def received_of_def)
  next
    case (3 chan now' t batch deadline sent')
    with inv Pair flush_inv [of sent "concat (map operations_of sent)" batch] assms(1) show ?thesis
      by (simp add: held_by_def received_of_def)
  qed (use assms inv Pair in \<open>auto simp: received_of_def\<close>)
qed

fun bridge_run :: "(instant \<times> bridge_input) list \<Rightarrow> bridge_task \<times> swarm_command list \<Rightarrow> bridge_task \<times> swarm_command list" where
  "bridge_run [] s = s"
| "bridge_run ((now, input) # inputs) s = bridge_run inputs (bridge_step True now input s)"

lemma bridge_run_inv:
  "bridge_inv s received \<Longrightarrow> \<forall>(now, input) \<in> set inputs. input \<noteq> Closed \<Longrightarrow>
    bridge_inv (bridge_run inputs s) (received @ concat (map (received_of \<circ> snd) inputs))"
proof (induction inputs arbitrary: s received)
  case (Cons x inputs)
  obtain now input where x: "x = (now, input)" by force
  with Cons.prems bridge_step_inv [OF Cons.prems(1), of input now] Cons.IH [of "bridge_step True now input s"
      "received @ received_of input"] show ?case by simp
qed simp

section \<open>Property\<close>

text \<open>C33: The bridge loses no operation and keeps their order. Whatever the mount broadcasts and whenever the
  batch timer fires, while the channels are open the operations sent to the gossip handler followed by
  those still gathered are exactly those received; every message carries between one and 64 operations,
  fewer than 64 are ever held back, and once the timer has fired none are.\<close>

theorem bridge_delivers_in_order:
  assumes "\<forall>(now, input) \<in> set inputs. input \<noteq> Closed" and "bridge_run inputs (Receiving, []) = (task, sent)"
  shows "concat (map operations_of sent) @ held_by task = concat (map (received_of \<circ> snd) inputs) \<and>
    (\<forall>c \<in> set sent. \<exists>operations. c = BroadcastOperations operations \<and> operations \<noteq> [] \<and> length operations \<le> 64) \<and>
    length (held_by task) < 64 \<and>
    (\<forall>batch deadline now t. task = Batching batch deadline \<and> deadline \<le> t \<longrightarrow>
       (\<exists>sent'. bridge_step True now (TimeIs t) (task, sent) = (Receiving, sent') \<and>
          concat (map operations_of sent') = concat (map (received_of \<circ> snd) inputs)))"
proof -
  have "bridge_inv (Receiving, []) []" by (simp add: bridge_inv_def held_by_def)
  from bridge_run_inv [OF this assms(1)] have inv: "bridge_inv (task, sent) (concat (map (received_of \<circ> snd) inputs))"
    by (simp add: assms(2))
  have "length (held_by task) < 64" using inv by (auto simp: bridge_inv_def held_by_def split: bridge_task.split)
  moreover have "\<exists>sent'. bridge_step True now (TimeIs t) (task, sent) = (Receiving, sent') \<and>
      concat (map operations_of sent') = concat (map (received_of \<circ> snd) inputs)"
    if "task = Batching batch deadline" "deadline \<le> t" for batch deadline now t
  proof -
    from flush_batch_all [of batch sent] obtain new where
      "flush_batch True batch sent = (True, sent @ new)" "concat (map operations_of new) = batch" by blast
    with that inv show ?thesis by (auto simp: bridge_inv_def held_by_def)
  qed
  ultimately show ?thesis using inv by (auto simp: bridge_inv_def batch_ok_def)
qed

theorem bridge_delivers_in_order_witness:
  defines "x \<equiv> \<lparr>op_timestamp = Clock (PeerId 2) 1, op_parent = ROOT, op_metadata = Directory ''x'', op_child = NodeId 7\<rparr>"
  shows "concat (map operations_of (snd (bridge_run [(0, Received (replicate 70 x)), (5, Received [x])] (Receiving, [])))) @
    held_by (fst (bridge_run [(0, Received (replicate 70 x)), (5, Received [x])] (Receiving, []))) = replicate 70 x @ [x]"
proof -
  have "\<forall>(now, input) \<in> set [(0 :: instant, Received (replicate 70 x)), (5, Received [x])]. input \<noteq> Closed" by simp
  moreover obtain task sent where "bridge_run [(0, Received (replicate 70 x)), (5, Received [x])] (Receiving, []) = (task, sent)"
    by force
  ultimately show ?thesis
    using bridge_delivers_in_order [of "[(0, Received (replicate 70 x)), (5, Received [x])]" task sent]
    by (simp add: received_of_def)
qed

end
