(* ===== verification/Mutations.thy ===== *)
theory Mutations
  imports FuseSteps
begin

text \<open>
  What the mutations of the file system have in common, as the locale \<open>fs_mutation\<close>: each issues at most one
  operation, which it returns for the broadcast, and leads from a reachable state to a reachable one. The
  six mutations of \<open>src/src/filesystem/mod.rs\<close> interpret it, and what a task of the mount does to the
  file system follows for all of them at once.
\<close>

section \<open>The contract of a mutation\<close>

definition fs_log :: "'t fs_env \<Rightarrow> 't file_system \<Rightarrow> node_operation set" where
  "fs_log E fs = set (r_log (e_replica E) (nt_tree (fs_tree fs)))"

definition fs_peer :: "'t file_system \<Rightarrow> peer_id" where
  "fs_peer fs = nt_peer_id (fs_tree fs)"

definition result_ops :: "('a tree_mutation, 'e) result \<Rightarrow> node_operation list" where
  "result_ops r = (case r of Inl _ \<Rightarrow> [] | Inr changes \<Rightarrow> tm_operations changes)"

lemma result_ops_simps [simp]:
  "result_ops (Err e) = []" "result_ops (Ok changes) = tm_operations changes"
  "tm_operations (tree_mutation_new a ops) = ops"
  by (simp_all add: result_ops_def tree_mutation_new_def)

definition issued :: "'t fs_env \<Rightarrow> nat option \<Rightarrow> 't file_system \<Rightarrow> node_operation list \<Rightarrow> 't file_system \<Rightarrow> bool" where
  "issued E now fs ops fs' \<longleftrightarrow> ops = [] \<and> fs_tree fs' = fs_tree fs \<or>
     (\<exists>n p md x. issue_op (e_replica E) now n p md (fs_tree fs) = (x, fs_tree fs') \<and> ops = [x])"

lemma issued_none: "fs_tree fs' = fs_tree fs \<Longrightarrow> issued E now fs [] fs'"
  by (simp add: issued_def)

lemma issued_one:
  "issue_op (e_replica E) now n p md (fs_tree fs) = (x, t) \<Longrightarrow> issued E now fs [x] (fs\<lparr>fs_tree := t\<rparr>)"
  unfolding issued_def by (metis file_system.select_convs(1) file_system.surjective file_system.update_convs(1))

text \<open>What was issued is in the log, under the name of this peer, and nothing else is new.\<close>

lemma issued_log:
  assumes "replica (e_replica E) valid" and "fs_inv E valid fs" and "fs_can_stamp now fs" and "issued E now fs ops fs'"
  shows "fs_log E fs' = fs_log E fs \<union> set ops" and "fs_peer fs' = fs_peer fs"
    and "x \<in> set ops \<Longrightarrow> actor_id (op_timestamp x) = fs_peer fs"
proof -
  have "fs_log E fs' = fs_log E fs \<union> set ops \<and> fs_peer fs' = fs_peer fs \<and>
    (x \<in> set ops \<longrightarrow> actor_id (op_timestamp x) = fs_peer fs)"
    using assms(4) unfolding issued_def
  proof (elim disjE exE conjE)
    fix n p md y
    assume y: "issue_op (e_replica E) now n p md (fs_tree fs) = (y, fs_tree fs')" "ops = [y]"
    note eff = replica.issue_op_effect [OF assms(1) fs_inv_parts(1) [OF assms(2)] assms(3) [unfolded fs_can_stamp_def] y(1)]
    show ?thesis using eff(2,6,8) y(2) by (simp add: fs_log_def fs_peer_def)
  qed (simp add: fs_log_def fs_peer_def)
  then show "fs_log E fs' = fs_log E fs \<union> set ops" "fs_peer fs' = fs_peer fs"
    "x \<in> set ops \<Longrightarrow> actor_id (op_timestamp x) = fs_peer fs" by blast+
qed

locale fs_mutation =
  fixes E :: "'t fs_env" and allowed :: "'t file_system \<Rightarrow> bool"
    and m :: "nat option \<Rightarrow> 't file_system \<Rightarrow> ('a tree_mutation, fs_error) result \<times> 't file_system"
  assumes reach: "fs_reachable E peer capacity fs \<Longrightarrow> fs_can_stamp now fs \<Longrightarrow> allowed fs \<Longrightarrow> m now fs = (r, fs') \<Longrightarrow>
      fs_reachable E peer capacity fs'"
    and issues: "m now fs = (r, fs') \<Longrightarrow> issued E now fs (result_ops r) fs'"
    and capacity: "m now fs = (r, fs') \<Longrightarrow> fs_capacity_bytes fs' = fs_capacity_bytes fs"

subsection \<open>The six mutations\<close>

lemma create_node_issued: "fs_create_node E now p name md fs = (r, fs') \<Longrightarrow> issued E now fs (result_ops r) fs'"
  by (auto simp: fs_create_node_def nt_create_issue Let_def intro: issued_none issued_one split: if_splits prod.splits)

lemma delete_node_issued: "fs_delete_node E now n fs = (r, fs') \<Longrightarrow> issued E now fs (result_ops r) fs'"
  by (auto simp: fs_delete_node_def nt_delete_issue intro: issued_none issued_one
      split: if_splits prod.splits option.splits sum.splits)

lemma replace_meta_issued: "fs_replace_meta E now n md fs = (r, fs') \<Longrightarrow> issued E now fs (result_ops r) fs'"
  by (auto simp: fs_replace_meta_def nt_move_issue intro: issued_none issued_one
      split: if_splits prod.splits option.splits sum.splits)

lemma issued_storage [simp]: "issued E now (fs\<lparr>fs_storage := st\<rparr>) ops fs' \<longleftrightarrow> issued E now fs ops fs'"
  by (simp add: issued_def)

lemma delete_file_issued: "fs_delete_file E now p name fs = (r, fs') \<Longrightarrow> issued E now fs (result_ops r) fs'"
  by (auto simp: fs_delete_file_def intro: issued_none delete_node_issued split: sum.splits node_meta.splits)

lemma delete_directory_issued:
  "fs_delete_directory E now p name fs = (r, fs') \<Longrightarrow> issued E now fs (result_ops r) fs'"
  by (auto simp: fs_delete_directory_def intro: issued_none delete_node_issued
      split: sum.splits node_meta.splits if_splits)

lemma rename_issued:
  assumes "fs_rename E now p name p' name' fs = (r, fs')"
  shows "issued E now fs (result_ops r) fs'"
proof (cases "fs_child_id E fs p name")
  case (Inr n)
  show ?thesis
  proof (cases "fs_metadata E fs n")
    case (Inr md)
    obtain y t where x: "issue_op (e_replica E) now n p' (renamed name' md) (fs_tree fs) = (y, t)" by force
    with assms \<open>fs_child_id E fs p name = Inr n\<close> Inr issued_one [OF x] show ?thesis
      by (auto simp: fs_rename_def nt_move_issue intro: issued_none split: if_split_asm)
  qed (use assms Inr in \<open>auto simp: fs_rename_def intro: issued_none split: if_split_asm\<close>)
qed (use assms in \<open>auto simp: fs_rename_def intro: issued_none\<close>)

lemma truncate_file_issued: "fs_truncate_file E now n sz fs = (r, fs') \<Longrightarrow> issued E now fs (result_ops r) fs'"
  by (auto simp: fs_truncate_file_def intro: issued_none replace_meta_issued split: sum.splits node_meta.splits)

lemma write_file_issued: "fs_write_file E now n data fs = (r, fs') \<Longrightarrow> issued E now fs (result_ops r) fs'"
  by (auto simp: fs_write_file_def Let_def issued_none dest: replace_meta_issued
      split: sum.splits node_meta.splits prod.splits)

text \<open>None of them changes the capacity.\<close>

lemma capacity_storage: "fs_storage fs' = fs_storage fs \<Longrightarrow> fs_capacity_bytes fs' = fs_capacity_bytes fs"
  by (simp add: fs_capacity_bytes_def)

lemma delete_node_capacity: "fs_delete_node E now n fs = (r, fs') \<Longrightarrow> fs_capacity_bytes fs' = fs_capacity_bytes fs"
  by (auto simp: fs_delete_node_def intro: capacity_storage split: prod.splits sum.splits)

lemma replace_meta_capacity:
  "fs_replace_meta E now n md fs = (r, fs') \<Longrightarrow> fs_capacity_bytes fs' = fs_capacity_bytes fs"
  by (auto simp: fs_replace_meta_def intro: capacity_storage split: prod.splits option.splits sum.splits)

lemma create_node_capacity:
  "fs_create_node E now p name md fs = (r, fs') \<Longrightarrow> fs_capacity_bytes fs' = fs_capacity_bytes fs"
  by (auto simp: fs_create_node_def Let_def intro: capacity_storage split: if_splits prod.splits)

lemma delete_file_capacity: "fs_delete_file E now p name fs = (r, fs') \<Longrightarrow> fs_capacity_bytes fs' = fs_capacity_bytes fs"
  by (auto simp: fs_delete_file_def intro: delete_node_capacity split: sum.splits node_meta.splits)

lemma delete_directory_capacity:
  "fs_delete_directory E now p name fs = (r, fs') \<Longrightarrow> fs_capacity_bytes fs' = fs_capacity_bytes fs"
  by (auto simp: fs_delete_directory_def intro: delete_node_capacity split: sum.splits node_meta.splits if_splits)

lemma rename_capacity: "fs_rename E now p name p' name' fs = (r, fs') \<Longrightarrow> fs_capacity_bytes fs' = fs_capacity_bytes fs"
  unfolding fs_rename_def by (intro capacity_storage) (auto split: sum.splits if_split_asm prod.splits)

lemma truncate_file_capacity: "fs_truncate_file E now n sz fs = (r, fs') \<Longrightarrow> fs_capacity_bytes fs' = fs_capacity_bytes fs"
  by (auto simp: fs_truncate_file_def intro: replace_meta_capacity split: sum.splits node_meta.splits)

lemma write_file_capacity:
  assumes "fs_write_file E now n data fs = (r, fs')"
  shows "fs_capacity_bytes fs' = fs_capacity_bytes fs"
proof -
  have "fs_capacity_bytes (fs\<lparr>fs_storage := st\<rparr>) = fs_capacity_bytes fs"
    if "storage_try_pin cs (fs_storage fs) = (q, st)" for cs q st
    using storage_step_max [of "TryPin cs" "fs_storage fs"] that
    by (simp add: fs_capacity_bytes_def storage_capacity_bytes_def)
  with assms show ?thesis
    by (auto simp: fs_write_file_def Let_def dest: replace_meta_capacity split: sum.splits node_meta.splits prod.splits)
qed

interpretation create: fs_mutation E "\<lambda>_. True" "\<lambda>now. fs_create_node E now p name md" for E :: "'t fs_env" and p name md
  by unfold_locales (rule fs_reachable.create create_node_issued create_node_capacity; assumption)+

interpretation delete_file: fs_mutation E "\<lambda>_. True" "\<lambda>now. fs_delete_file E now p name" for E :: "'t fs_env" and p name
  by unfold_locales (rule fs_reachable.delete_file delete_file_issued delete_file_capacity; assumption)+

interpretation delete_directory: fs_mutation E "\<lambda>_. True" "\<lambda>now. fs_delete_directory E now p name"
  for E :: "'t fs_env" and p name
  by unfold_locales (rule fs_reachable.delete_directory delete_directory_issued delete_directory_capacity; assumption)+

interpretation rename: fs_mutation E "\<lambda>_. True" "\<lambda>now. fs_rename E now p name p' name'"
  for E :: "'t fs_env" and p name p' name'
  by unfold_locales (rule fs_reachable.rename rename_issued rename_capacity; assumption)+

interpretation truncate_file: fs_mutation E "\<lambda>_. True" "\<lambda>now. fs_truncate_file E now n sz" for E :: "'t fs_env" and n sz
  by unfold_locales (rule fs_reachable.truncate_file truncate_file_issued truncate_file_capacity; assumption)+

interpretation write_file: fs_mutation E
  "\<lambda>fs. pin_addressable (fs_storage fs) (chunk_split (e_sha E) (e_cdc E) data)" "\<lambda>now. fs_write_file E now n data"
  for E :: "'t fs_env" and n data
  by unfold_locales (rule fs_reachable.write_file write_file_issued write_file_capacity; assumption)+

end
