(* ===== verification/Traffic.thy ===== *)
theory Traffic
  imports NodeRuns Bridge
begin

text \<open>
  Where a node's operations go and come from in one dispatcher call (theory Node): what it publishes, what it
  answers, what it adds to its command queue, and how its log grows. The theories Program and Cluster
  follow the operations through whole runs with these facts.
\<close>

section \<open>What is published\<close>

lemma ask_peer_published: "sw_gossip (ft_swarm (ask_peer N h p s)) = sw_gossip (ft_swarm s)"
  by (simp add: ask_peer_def send_request_def Let_def)

lemma ask_all_published: "sw_gossip (ft_swarm (fold (ask_peer N h) ps s)) = sw_gossip (ft_swarm s)"
  by (induction ps arbitrary: s) (simp_all add: ask_peer_published)

lemma walk_down_published: "sw_gossip (ft_swarm (walk_down N now h s)) = sw_gossip (ft_swarm s)"
  by (simp add: walk_down_def Let_def answer_def ask_all_published split: option.split)

lemma fetch_published:
  "sw_gossip (ft_swarm (fetch_chunk N now h reply pin s)) = sw_gossip (ft_swarm s)"
  "sw_gossip (ft_swarm (handle_failure N now rid s)) = sw_gossip (ft_swarm s)"
  "sw_gossip (ft_swarm (on_attempt_failed N now h rid s)) = sw_gossip (ft_swarm s)"
  by (simp_all add: fetch_chunk_def handle_failure_def on_attempt_failed_def Let_def answer_def walk_down_published
      split: option.split)

lemma response_published:
  "sw_gossip (ft_swarm (fst (handle_response E N now rid data (s, fs)))) = sw_gossip (ft_swarm s)"
  by (simp add: handle_response_def Let_def answer_def block_chunk_def fetch_published
      split: option.split prod.split sum.split)

lemma chunk_published:
  assumes "chunk_handle E N now ev (s, fs) = (ev', s', fs')"
  shows "sw_gossip (ft_swarm s') = sw_gossip (ft_swarm s)"
proof -
  have "sw_gossip (ft_swarm s1) = sw_gossip (ft_swarm s)"
    if "handle_response E N now rid data (s, fs) = (s1, fs1)" for rid data s1 fs1
    using response_published [of E N now rid data s fs] that by simp
  then show ?thesis
    using assms by (cases "(E, N, now, ev, s, fs)" rule: chunk_handle.cases)
      (auto simp: fetch_published send_response_def split: option.splits prod.splits)
qed

lemma replication_published: "sw_gossip (rc_swarm (snd (replication_handle E N now ev c))) = sw_gossip (rc_swarm c)"
  by (cases "(E, N, now, ev, c)" rule: replication_handle.cases)
    (auto simp: Let_def send_response_def split: option.split prod.split)

lemma replication_published':
  "replication_handle E N now ev c = (ev', c') \<Longrightarrow> sw_gossip (rc_swarm c') = sw_gossip (rc_swarm c)"
  using replication_published [of E N now ev c] by simp

lemma mdns_published: "sw_gossip (mdns_handle ev sw) = sw_gossip sw"
proof -
  have "sw_gossip (fold dial_unless_connected found sw) = sw_gossip sw" for found
    by (induction found arbitrary: sw) (auto simp: dial_unless_connected_def)
  then show ?thesis by (cases "(ev, sw)" rule: mdns_handle.cases) auto
qed

lemma sync_published:
  assumes "sync_handle E N readings ev (sw, fs) = (ev', sw', fs')"
  shows "sw_gossip sw' = sw_gossip sw"
  using assms by (cases "(E, N, readings, ev, sw, fs)" rule: sync_handle.cases)
    (auto simp: synchronize_with_def send_response_def split: option.splits if_splits)

fun gossip_of :: "net_env \<Rightarrow> dispatch_env \<Rightarrow> event \<Rightarrow> gossip_outcome list" where
  "gossip_of N D (Command (BroadcastOperations operations)) = [case n_encode N operations of
     None \<Rightarrow> NotPublished operations
   | Some b \<Rightarrow> if d_publish D b then Published b else NotPublished operations]"
| "gossip_of N D ev = []"

lemma handle_all_published: "sw_gossip (nd_swarm (handle_all E N D ev n)) = sw_gossip (nd_swarm n) @ gossip_of N D ev"
proof (cases rule: handle_all_stages [of E N D ev n])
  case (1 sw2 fs2 ev3 sw3 fs3 ev4 ft4 fs4 ev5 ctx)
  have "sw_gossip sw2 = sw_gossip (nd_swarm n) @ gossip_of N D ev"
    using 1(1) mdns_published [of ev "nd_swarm n"]
    by (cases "(E, N, d_readings D, d_publish D, ev, mdns_handle ev (nd_swarm n), nd_fs n)" rule: gossip_handle.cases)
      (auto simp: gossip_broadcast_def split: option.splits)
  with sync_published [OF 1(2)] chunk_published [OF 1(3)] replication_published' [OF 1(4)] 1(5) show ?thesis by simp
qed

section \<open>What enters the command queue\<close>

text \<open>Only the replication handler sends commands from inside the dispatcher, and those are fetches.\<close>

definition queue_grows :: "command_queue \<Rightarrow> command_queue \<Rightarrow> bool" where
  "queue_grows q q' \<longleftrightarrow> cq_open q' = cq_open q \<and>
     (\<exists>new. cq_items q' = cq_items q @ new \<and> (\<forall>c \<in> set new. operations_of c = []))"

lemma queue_grows_refl [simp]: "queue_grows q q"
  by (simp add: queue_grows_def)

lemma queue_grows_trans: "queue_grows q q' \<Longrightarrow> queue_grows q' q'' \<Longrightarrow> queue_grows q q''"
  unfolding queue_grows_def by fastforce

lemma try_send_grows: "try_send cmd q = (b, q') \<Longrightarrow> operations_of cmd = [] \<Longrightarrow> queue_grows q q'"
  by (auto simp: try_send_def queue_grows_def split: if_splits)

lemma rebalance_loop_grows:
  "rebalance_loop N now members local live issued rp q fs = (rp', q', fs') \<Longrightarrow> queue_grows q q'"
proof (induction N now members local live issued rp q fs rule: rebalance_loop.induct)
  case (2 N now members local h live issued rp q fs)
  obtain b fs1 where p: "fs_promote_to_pinned h fs = (b, fs1)" by fastforce
  obtain b' q1 where t: "try_send (FetchChunk h None True) q = (b', q1)" by fastforce
  have grow: "queue_grows q1 q' \<Longrightarrow> queue_grows q q'"
    using try_send_grows [OF t] queue_grows_trans [of q q1 q'] by simp
  from 2 p t grow show ?case by (auto split: if_splits option.splits bool.splits)
qed auto

lemma rebalance_grows: "queue_grows (rc_queue c) (rc_queue (rebalance_ctx E N now c))"
proof -
  obtain rp q fs where r: "rebalance E N now (rc_swarm c) (rc_state c) (rc_queue c) (rc_fs c) = (rp, q, fs)"
    by (metis prod_cases3)
  then have "queue_grows (rc_queue c) q"
    using rebalance_loop_grows by (fastforce simp: rebalance_def Let_def split: if_splits)
  with r show ?thesis by (simp add: rebalance_ctx_def)
qed

lemma replication_grows:
  assumes "replication_handle E N now ev c = (ev', c')"
  shows "queue_grows (rc_queue c) (rc_queue c')"
proof -
  have "queue_grows (rc_queue c) (rc_queue (snd (replication_handle E N now ev c)))"
    using rebalance_grows by (cases "(E, N, now, ev, c)" rule: replication_handle.cases)
      (auto simp: Let_def split: option.split prod.split)
  with assms show ?thesis by simp
qed

lemma handle_all_grows: "queue_grows (nd_queue n) (nd_queue (handle_all E N D ev n))"
proof (cases rule: handle_all_stages [of E N D ev n])
  case (1 sw2 fs2 ev3 sw3 fs3 ev4 ft4 fs4 ev5 ctx)
  with replication_grows [OF 1(4)] show ?thesis by simp
qed

lemma replication_tick_grows: "queue_grows (rc_queue c) (rc_queue (replication_tick E N now c))"
proof (cases rule: replication_tick_cases [of c E N now])
  case (ticked c1)
  have "queue_grows (rc_queue c) (rc_queue c1)"
    using ticked(1)
  proof (elim disjE exE conjE)
    fix c0 assume c0: "c0 = c\<lparr>rc_state := (rc_state c)\<lparr>rp_next_rebalance := rp_next_rebalance (rc_state c0)\<rparr>\<rparr>"
      "c1 = rebalance_ctx E N now c0"
    have "rc_queue c0 = rc_queue c" by (subst c0(1)) simp
    with rebalance_grows [of c0 E N now] c0(2) show ?thesis by simp
  qed simp
  with ticked(2) show ?thesis by auto
qed

lemma tick_all_grows: "queue_grows (nd_queue n) (nd_queue (tick_all E N D n))"
proof (cases "sync_tick E N (d_roll D) (d_now D) (nd_fs n) (nd_last_sync n, nd_swarm n)")
  case (Pair x sw)
  then show ?thesis
    using replication_tick_grows [of "replication_part (n\<lparr>nd_last_sync := x, nd_swarm := sw\<rparr>)" E N "d_now D"]
    by (simp add: tick_all_def Let_def with_replication_def replication_part_def)
qed

section \<open>What enters the log\<close>

fun event_ops :: "net_env \<Rightarrow> swarm_event \<Rightarrow> node_operation set" where
  "event_ops N (GossipMessage data) = (case n_decode N data of None \<Rightarrow> {} | Some operations \<Rightarrow> set operations)"
| "event_ops N (MessageResponse rid (MissingOperations operations)) = set operations"
| "event_ops N e = {}"

fun handled_ops :: "net_env \<Rightarrow> event \<Rightarrow> node_operation list" where
  "handled_ops N (GossipEvent data) = (case n_decode N data of None \<Rightarrow> [] | Some operations \<Rightarrow> operations)"
| "handled_ops N (ResponseEvent rid (MissingOperations operations)) = operations"
| "handled_ops N ev = []"

lemma handled_event_ops: "set (handled_ops N (event_from_swarm e)) = event_ops N e"
  by (cases "(N, e)" rule: event_ops.cases) (auto split: option.split)

lemma handle_all_applies:
  "\<exists>fs. fs_tree (nd_fs (handle_all E N D ev n)) = fs_tree fs \<and>
    (fs = nd_fs n \<or> fs = fs_apply_operations E (d_readings D) (handled_ops N ev) (nd_fs n))"
proof (cases rule: handle_all_stages [of E N D ev n])
  case (1 sw2 fs2 ev3 sw3 fs3 ev4 ft4 fs4 ev5 ctx)
  have "fs2 = nd_fs n \<or> (fs2 = fs_apply_operations E (d_readings D) (handled_ops N ev) (nd_fs n) \<and> (\<exists>b. ev = GossipEvent b))"
    using 1(1) by (cases "(E, N, d_readings D, d_publish D, ev, mdns_handle ev (nd_swarm n), nd_fs n)" rule: gossip_handle.cases)
      (auto simp: apply_gossip_def split: option.split)
  moreover have "fs3 = fs2 \<or> ((\<nexists>b. ev = GossipEvent b) \<and> fs3 = fs_apply_operations E (d_readings D) (handled_ops N ev) fs2)"
    using 1(2) by (cases "(E, N, d_readings D, ev, sw2, fs2)" rule: sync_handle.cases)
      (auto simp: sync_apply_operations_def split: option.splits if_splits)
  ultimately have "fs3 = nd_fs n \<or> fs3 = fs_apply_operations E (d_readings D) (handled_ops N ev) (nd_fs n)" by blast
  with handle_all_tree [OF 1(1,2)] show ?thesis by blast
qed

lemma handle_all_log:
  assumes "replica (e_replica E) valid" and "fs_inv E valid (nd_fs n)"
  shows "node_log E n \<subseteq> node_log E (handle_all E N D ev n)"
    and "node_log E (handle_all E N D ev n) \<subseteq> node_log E n \<union> set (handled_ops N ev)"
proof -
  have v: "valid (nt_tree (fs_tree (nd_fs n)))" using fs_inv_parts(1) [OF assms(2)] by (simp add: tree_inv_def)
  note grown = replica.apply_ops_stamps(2,3) [OF assms(1) v, of "handled_ops N ev"]
  show "node_log E n \<subseteq> node_log E (handle_all E N D ev n)"
    "node_log E (handle_all E N D ev n) \<subseteq> node_log E n \<union> set (handled_ops N ev)"
    using handle_all_applies [of E N D ev n] grown
    by (auto simp: node_log_def fs_apply_operations_def nt_apply_operations_def)
qed

lemma tick_all_log [simp]: "node_log E (tick_all E N D n) = node_log E n"
  by (simp add: node_log_def tick_all_tree)

section \<open>One call of the dispatcher\<close>

definition queue_ops :: "command_queue \<Rightarrow> node_operation set" where
  "queue_ops q = \<Union> (set ` operations_of ` set (cq_items q))"

lemma queue_grows_ops: "queue_grows q q' \<Longrightarrow> queue_ops q' = queue_ops q"
  by (auto simp: queue_grows_def queue_ops_def)

definition given_ops :: "swarm \<Rightarrow> node_operation set" where
  "given_ops sw = \<Union> {set ops | ops. \<exists>ch. (ch, MissingOperations ops) \<in> set (sw_given sw)}"

lemma dispatcher_cases:
  obtains (asleep) e where "w = FromQueue" "cq_items (nd_queue n) = []" "dispatcher_tick E N D w n = (e, n)"
  | (command) cmd rest where "w = FromQueue" "cq_items (nd_queue n) = cmd # rest"
      "snd (dispatcher_tick E N D w n) = tick_all E N D (handle_all E N D (Command cmd) (n\<lparr>nd_queue := (nd_queue n)\<lparr>cq_items := rest\<rparr>\<rparr>))"
  | (event) e where "w = FromSwarm e" "snd (dispatcher_tick E N D w n) = tick_all E N D (handle_all E N D (event_from_swarm e) n)"
  | (timeout) "w = Timeout" "snd (dispatcher_tick E N D w n) = tick_all E N D (handle_all E N D Tick n)"
proof (cases w)
  case FromQueue
  show ?thesis
  proof (cases "cq_items (nd_queue n)")
    case Nil
    with FromQueue have "\<exists>e. dispatcher_tick E N D w n = (e, n)" by (simp add: dispatcher_tick_def)
    with asleep FromQueue Nil show ?thesis by blast
  next
    case (Cons cmd rest)
    with FromQueue show ?thesis by (intro command) (simp_all add: dispatcher_tick_def event_from_command_def)
  qed
qed (auto simp: dispatcher_tick_def intro: event timeout)

lemma dispatcher_published:
  "sw_gossip (nd_swarm (snd (dispatcher_tick E N D w n))) = sw_gossip (nd_swarm n) @
    (if w = FromQueue \<and> cq_items (nd_queue n) \<noteq> [] then gossip_of N D (Command (hd (cq_items (nd_queue n)))) else [])"
proof (cases rule: dispatcher_cases [of w n E N D])
  case (event e)
  then show ?thesis by (cases e) (simp_all add: tick_all_given handle_all_published)
qed (simp_all add: tick_all_given handle_all_published)

lemma dispatcher_queue:
  assumes "w \<noteq> FromQueue \<or> cq_items (nd_queue n) = []"
  shows "queue_grows (nd_queue n) (nd_queue (snd (dispatcher_tick E N D w n)))"
proof (cases rule: dispatcher_cases [of w n E N D])
  case (event e)
  with queue_grows_trans [OF handle_all_grows tick_all_grows] show ?thesis by simp
next
  case timeout
  with queue_grows_trans [OF handle_all_grows tick_all_grows] show ?thesis by simp
qed (use assms in simp_all)

lemma dispatcher_command:
  assumes "cq_items (nd_queue n) = cmd # rest"
  shows "queue_grows ((nd_queue n)\<lparr>cq_items := rest\<rparr>) (nd_queue (snd (dispatcher_tick E N D FromQueue n)))"
proof (cases rule: dispatcher_cases [of FromQueue n E N D])
  case (command cmd' rest')
  let ?n = "n\<lparr>nd_queue := (nd_queue n)\<lparr>cq_items := rest\<rparr>\<rparr>"
  have "queue_grows (nd_queue ?n) (nd_queue (tick_all E N D (handle_all E N D (Command cmd) ?n)))"
    by (rule queue_grows_trans [OF handle_all_grows tick_all_grows])
  with command assms show ?thesis by simp
qed (use assms in auto)

lemma dispatcher_log:
  assumes "replica (e_replica E) valid" and "fs_inv E valid (nd_fs n)"
  shows "node_log E n \<subseteq> node_log E (snd (dispatcher_tick E N D w n))"
    and "node_log E (snd (dispatcher_tick E N D w n)) \<subseteq>
      node_log E n \<union> (case w of FromSwarm e \<Rightarrow> event_ops N e | _ \<Rightarrow> {})"
proof -
  have "node_log E n \<subseteq> node_log E (snd (dispatcher_tick E N D w n)) \<and>
    node_log E (snd (dispatcher_tick E N D w n)) \<subseteq> node_log E n \<union> (case w of FromSwarm e \<Rightarrow> event_ops N e | _ \<Rightarrow> {})"
  proof (cases rule: dispatcher_cases [of w n E N D])
    case (command cmd rest)
    let ?n = "n\<lparr>nd_queue := (nd_queue n)\<lparr>cq_items := rest\<rparr>\<rparr>"
    have "node_log E ?n = node_log E n" by (simp add: node_log_def)
    with handle_all_log [OF assms(1), of ?n N D "Command cmd"] assms(2) command show ?thesis by simp
  next
    case (event e)
    with handle_all_log [OF assms, of N D "event_from_swarm e"] handled_event_ops [of N e] show ?thesis by simp
  next
    case timeout
    with handle_all_log [OF assms, of N D Tick] show ?thesis by simp
  qed simp
  then show "node_log E n \<subseteq> node_log E (snd (dispatcher_tick E N D w n))"
    "node_log E (snd (dispatcher_tick E N D w n)) \<subseteq>
      node_log E n \<union> (case w of FromSwarm e \<Rightarrow> event_ops N e | _ \<Rightarrow> {})" by blast+
qed

lemma request_given:
  "given_ops (nd_swarm (handle_all E N D (RequestEvent req (Some ch)) n)) \<subseteq> given_ops (nd_swarm n) \<union> node_log E n"
proof -
  from handle_request [of E N D req ch n] obtain resp where
    given: "sw_given (nd_swarm (handle_all E N D (RequestEvent req (Some ch)) n)) = sw_given (nd_swarm n) @ [(ch, resp)]"
    and resp: "resp = (case req of
         PullChunk h \<Rightarrow> (case fs_look (nd_fs n) h of Some d \<Rightarrow> ChunkData d | None \<Rightarrow> ErrorResponse ChunkNotFound)
       | CheckChunks hs \<Rightarrow> HeldChunks (filter (fs_is_pinned (nd_fs n)) hs)
       | PullMissingOperations ids \<Rightarrow> MissingOperations (fs_operations_missing_from E (nd_fs n) (set ids)))" by blast
  have "set ops \<subseteq> node_log E n" if "resp = MissingOperations ops" for ops
    using that resp by (cases req)
      (auto simp: fs_operations_missing_from_def nt_operations_missing_from_def node_log_def split: option.splits)
  then show ?thesis unfolding given_ops_def given by auto
qed

lemma dispatcher_given:
  "given_ops (nd_swarm (snd (dispatcher_tick E N D w n))) \<subseteq> given_ops (nd_swarm n) \<union> node_log E n"
proof (cases rule: dispatcher_cases [of w n E N D])
  case (command cmd rest)
  have "no_reply (Command cmd)" by (simp add: no_reply_def)
  with command show ?thesis by (simp add: given_ops_def tick_all_given handle_no_reply)
next
  case (event e)
  show ?thesis
  proof (cases "\<exists>req ch. e = MessageRequest req ch")
    case True
    then obtain req ch where e: "event_from_swarm e = RequestEvent req (Some ch)" by auto
    show ?thesis
      using request_given [of E N D req ch n] unfolding event(2) e by (simp add: given_ops_def tick_all_given)
  next
    case False
    then have "no_reply (event_from_swarm e)" by (cases e) (auto simp: no_reply_def)
    then show ?thesis unfolding event(2) by (auto simp: given_ops_def tick_all_given handle_no_reply)
  qed
next
  case timeout
  have "no_reply Tick" by (simp add: no_reply_def)
  then show ?thesis unfolding timeout(2) by (auto simp: given_ops_def tick_all_given handle_no_reply)
qed auto

end
