(* ===== verification/Program.thy ===== *)
theory Program
  imports Mutations Traffic
begin

text \<open>
  The whole program of one node as \<open>src/src/app.rs\<close> puts it together: the mount with the requests that are
  in progress (theory FuseSteps), the bridge (theory Bridge) and the network side (theory Node) share the
  file system and are joined by channels. They run side by side: \<open>program_step\<close> lets any of them take
  its next step, so a run is any interleaving of their steps.

  The steps are those of the program while the loop of \<open>app.rs\<close> runs. Until it ends nobody drops the mount,
  which holds the sender of the bridge's channel, nor the replication handler, which holds a sender of the
  command channel, so no step closes a channel; what the bridge and the dispatcher do with a closed one
  is in the theories Bridge and Node, and what the loop makes of their results in theory App.

  A sender that waits for room in the command channel stands in \<open>pr_outbox\<close>. Reply channels are numbers,
  each used once. \<open>answers\<close> and the readings of the clocks are chosen by the environment; what a peer can
  say is the predicate \<open>heard\<close> (theory Cluster makes it what other nodes have said).
\<close>

section \<open>State\<close>

record 't program =
  pr_node :: "'t node"
  pr_inodes :: inode_map
  pr_files :: open_files
  pr_next_fh :: u64
  pr_tasks :: "(nat, fuse_task \<times> chunk_reply list) hmap"
  pr_next_reply :: chunk_reply
  pr_channel :: "bridge_input list"
  pr_bridge :: bridge_task
  pr_outbox :: "swarm_command list"

abbreviation pr_fs :: "'t program \<Rightarrow> 't file_system" where
  "pr_fs P \<equiv> nd_fs (pr_node P)"

definition program_new :: "'t fs_env \<Rightarrow> u64 \<Rightarrow> instant \<Rightarrow> swarm \<Rightarrow> inode_no \<Rightarrow> 't program" where
  "program_new E max_storage now sw root_ino =
     (let n = node_new E max_storage now sw; s = fuse_new root_ino (nd_fs n)
      in \<lparr>pr_node = n, pr_inodes = ff_inode_map s, pr_files = ff_open_files s, pr_next_fh = ff_next_fh s,
          pr_tasks = [], pr_next_reply = 0, pr_channel = [], pr_bridge = Receiving, pr_outbox = []\<rparr>)"

section \<open>The mount\<close>

definition mount_part :: "'t program \<Rightarrow> 't fuse_file_system" where
  "mount_part P = \<lparr>ff_filesystem = pr_fs P, ff_inode_map = pr_inodes P, ff_open_files = pr_files P,
     ff_next_fh = pr_next_fh P, ff_sent = []\<rparr>"

text \<open>What a step of the mount broadcasts enters the bridge's channel.\<close>

definition with_mount :: "'t fuse_file_system \<Rightarrow> 't program \<Rightarrow> 't program" where
  "with_mount s P = P\<lparr>pr_node := (pr_node P)\<lparr>nd_fs := ff_filesystem s\<rparr>, pr_inodes := ff_inode_map s,
     pr_files := ff_open_files s, pr_next_fh := ff_next_fh s,
     pr_channel := pr_channel P @ concat (map bridge_broadcast (ff_sent s))\<rparr>"

fun fetches_of :: "fuse_task \<Rightarrow> chunk_hash list" where
  "fetches_of (Awaiting hashes k) = hashes"
| "fetches_of t = []"

text \<open>A request is over, or waits for its next step; one that waits for chunks has sent a command for each.\<close>

definition settle :: "nat \<Rightarrow> 'r fuse_outcome \<times> 't fuse_file_system \<Rightarrow> 't program \<Rightarrow> 't program" where
  "settle rq x P =
     (let P' = with_mount (snd x) P in
      case fst x of
        Done r \<Rightarrow> P'\<lparr>pr_tasks := hremove rq (pr_tasks P)\<rparr>
      | Pending t \<Rightarrow>
          (let hs = fetches_of t; ws = [pr_next_reply P..<pr_next_reply P + length hs]
           in P'\<lparr>pr_tasks := hinsert rq (t, ws) (pr_tasks P), pr_next_reply := pr_next_reply P + length hs,
                 pr_outbox := pr_outbox P @ map2 bridge_fetch hs ws\<rparr>))"

text \<open>A task can go on: the channel to the bridge has room, or every chunk was answered. A chunk that
  came is a \<open>Vec\<close>, and the bytes of a buffer to pin are addressable.\<close>

definition OPERATIONS_CHANNEL_CAPACITY :: nat where "OPERATIONS_CHANNEL_CAPACITY = 256"

fun task_ready :: "'t fs_env \<Rightarrow> 't program \<Rightarrow> fuse_task \<Rightarrow> chunk_reply list \<Rightarrow> (nat \<Rightarrow> bytes option) \<Rightarrow> bool" where
  "task_ready E P (Sending operations k) ws answers \<longleftrightarrow>
     operations = [] \<or> length (pr_channel P) < OPERATIONS_CHANNEL_CAPACITY"
| "task_ready E P (Awaiting hashes k) ws answers \<longleftrightarrow>
     (\<forall>i < length hashes. (ws ! i, answers i) \<in> set (nd_replies (pr_node P)))"
| "task_ready E P (Caching (Some data # rest) b k) ws answers \<longleftrightarrow> vec_ok data"
| "task_ready E P (WritingBack node buffer) ws answers \<longleftrightarrow>
     pin_addressable (fs_storage (pr_fs P)) (chunk_split (e_sha E) (e_cdc E) buffer)"
| "task_ready E P t ws answers \<longleftrightarrow> True"

section \<open>Steps\<close>

definition with_bridge :: "bridge_task \<times> swarm_command list \<Rightarrow> 't program \<Rightarrow> 't program" where
  "with_bridge s P = P\<lparr>pr_bridge := fst s, pr_outbox := pr_outbox P @ snd s\<rparr>"

fun event_vec_ok :: "swarm_event \<Rightarrow> bool" where
  "event_vec_ok (MessageResponse rid (ChunkData data)) = vec_ok data"
| "event_vec_ok e = True"

inductive program_step ::
  "'t fs_env \<Rightarrow> net_env \<Rightarrow> 'r directory_api \<Rightarrow> (swarm_event \<Rightarrow> bool) \<Rightarrow> 't program \<Rightarrow> 't program \<Rightarrow> bool"
  for E N R heard
where
  begin_request: "hget (pr_tasks P) rq = None \<Longrightarrow> fs_can_stamp now (pr_fs P) \<Longrightarrow>
    program_step E N R heard P (settle rq (fuse_start E R now req (mount_part P)) P)"
| resume_request: "hget (pr_tasks P) rq = Some (t, ws) \<Longrightarrow> task_ready E P t ws answers \<Longrightarrow> fs_can_stamp now (pr_fs P) \<Longrightarrow>
    program_step E N R heard P (settle rq (fuse_resume E now answers t (mount_part P) :: 'r fuse_outcome \<times> 't fuse_file_system) P)"
| bridge_receives: "pr_channel P = input # rest \<Longrightarrow>
    program_step E N R heard P (with_bridge (bridge_step True now input (pr_bridge P, [])) (P\<lparr>pr_channel := rest\<rparr>))"
| bridge_waits: "program_step E N R heard P (with_bridge (bridge_step True now (TimeIs t) (pr_bridge P, [])) P)"
| command_enters: "pr_outbox P = cmd # rest \<Longrightarrow> try_send cmd (nd_queue (pr_node P)) = (True, q) \<Longrightarrow>
    program_step E N R heard P (P\<lparr>pr_outbox := rest, pr_node := (pr_node P)\<lparr>nd_queue := q\<rparr>\<rparr>)"
| dispatches: "(\<And>i. time_ok (d_readings D i)) \<Longrightarrow> (\<And>e. w = FromSwarm e \<Longrightarrow> heard e \<and> event_vec_ok e) \<Longrightarrow>
    program_step E N R heard P (P\<lparr>pr_node := snd (dispatcher_tick E N D w (pr_node P))\<rparr>)"
| connections_change: "program_step E N R heard P
    (P\<lparr>pr_node := (pr_node P)\<lparr>nd_swarm := (nd_swarm (pr_node P))\<lparr>sw_connected := peers\<rparr>\<rparr>\<rparr>)"

inductive_cases program_stepE: "program_step E N R heard P P'"

section \<open>What a step of the mount does to the file system\<close>

fun task_ops :: "fuse_task \<Rightarrow> node_operation list" where
  "task_ops (Sending operations k) = operations"
| "task_ops t = []"

fun outcome_ops :: "'r fuse_outcome \<Rightarrow> node_operation list" where
  "outcome_ops (Pending t) = task_ops t"
| "outcome_ops (Done r) = []"

text \<open>From a sound file system to a sound one; the operations issued wait to be sent.\<close>

definition mount_moves ::
  "'t fs_env \<Rightarrow> peer_id \<Rightarrow> usize \<Rightarrow> nat option \<Rightarrow> 't file_system \<Rightarrow> 'r fuse_outcome \<times> 't fuse_file_system \<Rightarrow> bool"
where
  "mount_moves E peer capacity now fs x \<longleftrightarrow> fs_sound E peer capacity (ff_filesystem (snd x)) \<and>
     issued E now fs (outcome_ops (fst x)) (ff_filesystem (snd x))"

lemma mount_stays:
  "fs_sound E peer capacity fs \<Longrightarrow> ff_filesystem s = fs \<Longrightarrow> outcome_ops out = [] \<Longrightarrow> mount_moves E peer capacity now fs (out, s)"
  by (simp add: mount_moves_def issued_none)

lemma stop_stays:
  "fs_sound E peer capacity fs \<Longrightarrow> ff_filesystem (snd x) = fs \<Longrightarrow> mount_moves E peer capacity now fs (stop x)"
  by (cases x) (simp add: stop_def mount_stays)

lemma ask_task_moves:
  assumes "fs_sound E peer capacity fs" and "ff_filesystem s = fs"
    and "\<And>a. r = Ok a \<Longrightarrow> mount_moves E peer capacity now fs (k a s)"
  shows "mount_moves E peer capacity now fs (ask_task r k s)"
  using assms by (cases r) (auto simp: ask_task_def intro: mount_stays)

context fs_mutation begin

lemma task_moves:
  assumes "fs_sound E peer capacity (ff_filesystem s)" and "fs_can_stamp now (ff_filesystem s)" and "allowed (ff_filesystem s)"
  shows "mount_moves E peer capacity now (ff_filesystem s) (mutate_task (m now) after s)"
proof -
  obtain r fs' where run: "m now (ff_filesystem s) = (r, fs')" by force
  have "fs_sound E peer capacity fs'"
    using reach [OF _ assms(2,3) run] capacity [OF run] assms(1) by (auto simp: fs_sound_def)
  with issues [OF run] run show ?thesis
    by (cases r) (auto simp: mutate_task_def mount_moves_def)
qed

end

lemmas task_moves = create.task_moves delete_file.task_moves delete_directory.task_moves rename.task_moves
  truncate_file.task_moves write_file.task_moves

text \<open>The handlers that neither wait nor write leave the file system alone and broadcast nothing.\<close>

definition untouched :: "'t fuse_file_system \<Rightarrow> 't fuse_file_system \<Rightarrow> bool" where
  "untouched s s' \<longleftrightarrow> ff_filesystem s' = ff_filesystem s \<and> ff_sent s' = ff_sent s"

lemma untouched_refl [simp]: "untouched s s"
  by (simp add: untouched_def)

lemma assigned_untouched: "node_id_to_ino n s = (ino, s') \<Longrightarrow> untouched s s'"
  by (auto simp: node_id_to_ino_def untouched_def split: prod.splits)

lemma numbered_untouched: "number_children cs s = (es, s') \<Longrightarrow> untouched s s'"
proof (induction cs arbitrary: s es s')
  case (Cons c cs)
  obtain ch name md where c: "c = (ch, name, md)" by (metis prod_cases3)
  obtain ino s1 where n: "node_id_to_ino ch s = (ino, s1)" by force
  obtain es2 s2 where m: "number_children cs s1 = (es2, s2)" by force
  have "s' = s2" using Cons.prems by (simp add: c n m)
  with Cons.IH [OF m] assigned_untouched [OF n] show ?case by (simp add: untouched_def)
qed simp

lemma map_ok_state [simp]: "snd (map_ok f x) = snd x"
  by (cases x) (auto simp: map_ok_def split: sum.split)

lemma ask_untouched: "(\<And>a. r = Ok a \<Longrightarrow> untouched s (snd (k a s))) \<Longrightarrow> untouched s (snd (ask r k s))"
  by (cases r) (auto simp: ask_def)

lemma quick_handlers:
  "untouched s (snd (fuse_lookup E p name s))" "untouched s (snd (fuse_getattr E ino fh s))"
  "untouched s (snd (fuse_open E ino s))" "untouched s (snd (fuse_opendir E ino s))"
  "untouched s (snd (fuse_readdir E R ino sz off s))" "untouched s (snd (fuse_readlink E ino s))"
proof -
  show "untouched s (snd (fuse_lookup E p name s))"
    unfolding fuse_lookup_def by (intro ask_untouched) (auto split: prod.split dest: assigned_untouched)
  show "untouched s (snd (fuse_getattr E ino fh s))"
    unfolding fuse_getattr_def by (auto split: option.split intro!: ask_untouched)
  show "untouched s (snd (fuse_open E ino s))"
    unfolding fuse_open_def
    by (intro ask_untouched) (auto simp: fuse_next_fh_def untouched_def Let_def split: node_meta.split)
  show "untouched s (snd (fuse_opendir E ino s))"
    unfolding fuse_opendir_def
    by (intro ask_untouched) (auto simp: fuse_next_fh_def untouched_def Let_def split: node_meta.split)
  show "untouched s (snd (fuse_readlink E ino s))"
    unfolding fuse_readlink_def by (intro ask_untouched) (auto split: node_meta.split)
  show "untouched s (snd (fuse_readdir E R ino sz off s))"
    unfolding fuse_readdir_def by (intro ask_untouched)
      (auto simp: Let_def untouched_def split: prod.split dest!: assigned_untouched numbered_untouched)
qed

lemma after_sending_untouched: "untouched s (snd (after_sending E k s))"
  by (cases k) (auto simp: entry_created_def fuse_next_fh_def untouched_def Let_def split: prod.split
      dest!: assigned_untouched intro!: ask_untouched [unfolded untouched_def])

lemma untouched_fs: "untouched s s' \<Longrightarrow> ff_filesystem s' = ff_filesystem s"
  by (simp add: untouched_def)

lemma fetch_task_stays:
  "fs_sound E peer capacity fs \<Longrightarrow> ff_filesystem s = fs \<Longrightarrow> mount_moves E peer capacity now fs (fetch_task E n off len k s)"
  by (auto simp: fetch_task_def intro: mount_stays split: sum.split)

lemma creations:
  "fs_create_directory E now p name = fs_create_node E now p name (Directory name)"
  "fs_create_symlink E now p name target = fs_create_node E now p name (Symlink name target)"
  "fs_create_file E now p name = fs_create_node E now p name (RegularFile name 0 [])"
  by (simp_all add: fun_eq_iff fs_create_directory_def fs_create_symlink_def fs_create_file_def)

text \<open>The loop of a read leaves the capacity alone, too: the loop's contract holds for the chunks and the
  capacity together.\<close>

interpretation bounded: content_store storage_get "\<lambda>st. (st_chunks st, st_max_pinned_bytes st)" "\<lambda>c. chunk_look (fst c)"
  storage_inv
proof unfold_locales
  fix s h d s' assume "storage_inv s" "storage_get h s = (d, s')"
  with store.get_law [OF this] storage_step_max [of "GetChunk h" s]
  show "d = chunk_look (fst (st_chunks s, st_max_pinned_bytes s)) h \<and>
    (st_chunks s', st_max_pinned_bytes s') = (st_chunks s, st_max_pinned_bytes s) \<and> storage_inv s'" by simp
qed

lemma sound_read:
  assumes "replica (e_replica E) valid" and "fs_sound E peer capacity fs" and "fs_read_file E n off len fs = (r, fs')"
  shows "fs_sound E peer capacity fs'" and "fs_tree fs' = fs_tree fs"
proof -
  have inv: "storage_inv (fs_storage fs)"
    using fs_inv_parts(2) [OF fs_reachable_inv [OF assms(1), of peer capacity fs]] assms(2) by (simp add: fs_sound_def)
  have "st_max_pinned_bytes (fs_storage fs') = st_max_pinned_bytes (fs_storage fs)"
    using assms(3) bounded.read_chunks_keeps [OF inv]
    by (auto simp: fs_read_file_def Let_def split: sum.splits node_meta.splits if_splits prod.splits)
  with assms(2) fs_reachable.read_file [OF _ assms(3)] show "fs_sound E peer capacity fs'"
    by (auto simp: fs_sound_def fs_capacity_bytes_def storage_capacity_bytes_def)
  show "fs_tree fs' = fs_tree fs"
    using assms(3) by (auto simp: fs_read_file_def Let_def split: sum.splits node_meta.splits if_splits prod.splits)
qed

text \<open>The first step of a request, and the later ones.\<close>

lemma start_moves:
  fixes s :: "'t fuse_file_system"
  assumes "fs_sound E peer capacity (ff_filesystem s)" and "fs_can_stamp now (ff_filesystem s)"
  shows "mount_moves E peer capacity now (ff_filesystem s) (fuse_start E R now req s)"
proof (cases req)
  case (ReqSetattr ino unsupported new_size)
  with assms show ?thesis
    by (auto intro!: ask_task_moves mount_stays stop_stays untouched_fs [OF ask_untouched] task_moves split: option.split)
next
  case (ReqRead ino fh off sz)
  with assms show ?thesis by (auto intro!: ask_task_moves mount_stays fetch_task_stays split: option.split)
next
  case (ReqWrite ino fh off data)
  with assms show ?thesis by (auto intro!: ask_task_moves mount_stays fetch_task_stays)
next
  case (ReqRelease ino fh)
  with assms show ?thesis by (auto intro!: mount_stays split: prod.split option.split)
qed (use assms in \<open>auto intro!: ask_task_moves stop_stays task_moves
    simp: creations untouched_fs [OF quick_handlers(1)] untouched_fs [OF quick_handlers(2)] untouched_fs [OF quick_handlers(3)]
      untouched_fs [OF quick_handlers(4)] untouched_fs [OF quick_handlers(5)] untouched_fs [OF quick_handlers(6)] fuse_releasedir_def fuse_access_def\<close>)

lemma resume_moves:
  fixes P :: "'t program"
  assumes "replica (e_replica E) valid" and "fs_sound E peer capacity (pr_fs P)" and "fs_can_stamp now (pr_fs P)"
    and "task_ready E P t ws answers"
  shows "mount_moves E peer capacity now (pr_fs P) (fuse_resume E now answers t (mount_part P))"
proof -
  let ?s = "mount_part P"
  have fs: "ff_filesystem ?s = pr_fs P" by (simp add: mount_part_def)
  have fetched: "mount_moves E peer capacity now (pr_fs P) (after_fetching E k ?s)" for k
  proof (cases k)
    case (ThenRead n off len)
    obtain r fs' where r: "fs_read_file E n off len (pr_fs P) = (r, fs')" by force
    show ?thesis
      using sound_read [OF assms(1,2) r] r by (auto simp: ThenRead fs stop_def mount_moves_def map_ok_def issued_none split: sum.split)
  next
    case (ThenFill n fh off data)
    obtain r fs' where r: "fs_read_file_all E n (pr_fs P) = (r, fs')" by force
    have "fs_sound E peer capacity fs' \<and> fs_tree fs' = fs_tree (pr_fs P)"
      using r sound_read [OF assms(1,2)] assms(2) by (auto simp: fs_read_file_all_def split: sum.splits node_meta.splits)
    then show ?thesis
      using r by (cases r) (auto simp: ThenFill fs ask_task_def mount_moves_def issued_none)
  qed
  show ?thesis
  proof (cases "(E, now, answers, t, ?s)" rule: fuse_resume.cases)
    case (3 E' now' answers' data rest b k s')
    with assms(4) sound_cache [OF assms(2), of data] show ?thesis
      by (auto simp: fs mount_moves_def fs_cache_chunk_def issued_none)
  next
    case (7 E' now' answers' fh off data s')
    with assms(2) show ?thesis by (auto simp: fs ask_def split: prod.split sum.split intro!: stop_stays)
  next
    case (9 E' now' answers' n buffer s')
    then have t: "t = WritingBack n buffer" by simp
    show ?thesis
      using write_file.task_moves [of E peer capacity ?s now buffer n "\<lambda>_. AfterUnit", unfolded fs] assms(2-4)
      by (simp add: t)
  qed (use assms(2-4) fetched in \<open>auto simp: fs untouched_fs [OF after_sending_untouched] split: prod.split
      intro!: mount_stays stop_stays ask_task_moves\<close>)
qed

end
