(* ===== verification/ProgramRuns.thy ===== *)
theory ProgramRuns
  imports Program
begin

text \<open>
  What one step of a program (theory Program) does to its file system and to the operations it knows: the
  file system stays sound, the log only grows, by operations of this node or by operations heard, and
  every operation the node itself issued is in the log and on its way to the other nodes.
\<close>

section \<open>Where operations are\<close>

definition sending_ops :: "(nat, fuse_task \<times> chunk_reply list) hmap \<Rightarrow> node_operation set" where
  "sending_ops tasks = \<Union> {set ops | ops. \<exists>rq k ws. hget tasks rq = Some (Sending ops k, ws)}"

definition received_ops :: "bridge_input list \<Rightarrow> node_operation set" where
  "received_ops inputs = \<Union> (set ` received_of ` set inputs)"

definition command_ops :: "swarm_command list \<Rightarrow> node_operation set" where
  "command_ops cmds = \<Union> (set ` operations_of ` set cmds)"

definition pending_ops :: "'t program \<Rightarrow> node_operation set" where
  "pending_ops P = sending_ops (pr_tasks P) \<union> received_ops (pr_channel P) \<union> set (held_by (pr_bridge P)) \<union>
     command_ops (pr_outbox P) \<union> queue_ops (nd_queue (pr_node P))"

definition published_ops :: "net_env \<Rightarrow> swarm \<Rightarrow> node_operation set" where
  "published_ops N sw = \<Union> {set ops | ops. \<exists>b. Published b \<in> set (sw_gossip sw) \<and> n_decode N b = Some ops}"

text \<open>All a program has said, or may still say, about operations.\<close>

definition known_ops :: "'t fs_env \<Rightarrow> net_env \<Rightarrow> 't program \<Rightarrow> node_operation set" where
  "known_ops E N P = fs_log E (pr_fs P) \<union> pending_ops P \<union> given_ops (nd_swarm (pr_node P)) \<union>
     published_ops N (nd_swarm (pr_node P))"

text \<open>Operations handed to gossip: in a message that was published, or among those of a broadcast that was
  logged as failed.\<close>

definition handed_ops :: "net_env \<Rightarrow> swarm \<Rightarrow> node_operation set" where
  "handed_ops N sw = {x. \<exists>ops. x \<in> set ops \<and>
     (NotPublished ops \<in> set (sw_gossip sw) \<or> (\<exists>b. n_encode N ops = Some b \<and> Published b \<in> set (sw_gossip sw)))}"

definition codec_ok :: "net_env \<Rightarrow> bool" where
  "codec_ok N \<longleftrightarrow> (\<forall>ops b. n_encode N ops = Some b \<longrightarrow> n_decode N b = Some ops)"

section \<open>The invariant of a program\<close>

definition program_inv :: "'t fs_env \<Rightarrow> peer_id \<Rightarrow> usize \<Rightarrow> 't program \<Rightarrow> bool" where
  "program_inv E peer capacity P \<longleftrightarrow> fs_sound E peer capacity (pr_fs P) \<and> fs_peer (pr_fs P) = peer \<and>
     pr_bridge P \<noteq> Returned \<and> cq_open (nd_queue (pr_node P)) \<and> (\<forall>input \<in> set (pr_channel P). \<exists>ops. input = Received ops)"

text \<open>What this node issued is on its way, or handed to gossip.\<close>

definition own_ops_kept :: "'t fs_env \<Rightarrow> net_env \<Rightarrow> peer_id \<Rightarrow> 't program \<Rightarrow> bool" where
  "own_ops_kept E N peer P \<longleftrightarrow> (\<forall>x \<in> fs_log E (pr_fs P). actor_id (op_timestamp x) = peer \<longrightarrow>
     x \<in> pending_ops P \<union> handed_ops N (nd_swarm (pr_node P)))"

lemma sets_of_append [simp]:
  "received_ops (xs @ ys) = received_ops xs \<union> received_ops ys" "command_ops (cs @ ds) = command_ops cs \<union> command_ops ds"
  "received_ops (x # xs) = set (received_of x) \<union> received_ops xs" "command_ops (c # cs) = set (operations_of c) \<union> command_ops cs"
  "received_ops [] = {}" "command_ops [] = {}"
  by (auto simp: received_ops_def command_ops_def)

lemma command_ops_fetches [simp]: "command_ops (map2 bridge_fetch hs ws) = {}"
  by (auto simp: command_ops_def bridge_fetch_def dest: set_zip_leftD)

lemma sending_insert:
  "sending_ops (hinsert rq (t, ws) tasks) \<subseteq> sending_ops tasks \<union> set (task_ops t)"
  "set (task_ops t) \<subseteq> sending_ops (hinsert rq (t, ws) tasks)"
  by (cases t; fastforce simp: sending_ops_def split: if_splits)+

lemma sending_kept:
  assumes "x \<in> sending_ops tasks"
  shows "x \<in> sending_ops (hinsert rq y tasks) \<or> (\<exists>ops k ws. hget tasks rq = Some (Sending ops k, ws) \<and> x \<in> set ops)"
    and "x \<in> sending_ops (hremove rq tasks) \<or> (\<exists>ops k ws. hget tasks rq = Some (Sending ops k, ws) \<and> x \<in> set ops)"
proof -
  from assms obtain ops rq' k ws where t: "hget tasks rq' = Some (Sending ops k, ws)" "x \<in> set ops"
    by (auto simp: sending_ops_def)
  show "x \<in> sending_ops (hinsert rq y tasks) \<or> (\<exists>ops k ws. hget tasks rq = Some (Sending ops k, ws) \<and> x \<in> set ops)"
    "x \<in> sending_ops (hremove rq tasks) \<or> (\<exists>ops k ws. hget tasks rq = Some (Sending ops k, ws) \<and> x \<in> set ops)"
    using t by (cases "rq' = rq"; fastforce simp: sending_ops_def)+
qed

lemma sending_remove: "sending_ops (hremove rq tasks) \<subseteq> sending_ops tasks"
  by (fastforce simp: sending_ops_def split: if_splits)

section \<open>A step of the mount\<close>

lemma broadcast_ops [simp]: "received_ops (concat (map bridge_broadcast batches)) = \<Union> (set ` set batches)"
  by (induction batches) (auto simp: bridge_broadcast_def received_of_def)

lemma settle_simps:
  "pr_fs (settle rq x P) = ff_filesystem (snd x)"
  "nd_swarm (pr_node (settle rq x P)) = nd_swarm (pr_node P)"
  "nd_queue (pr_node (settle rq x P)) = nd_queue (pr_node P)"
  "pr_bridge (settle rq x P) = pr_bridge P"
  "pr_channel (settle rq x P) = pr_channel P @ concat (map bridge_broadcast (ff_sent (snd x)))"
  "command_ops (pr_outbox (settle rq x P)) = command_ops (pr_outbox P)"
  by (simp_all add: settle_def with_mount_def Let_def split: fuse_outcome.split)

lemma settle_tasks:
  "sending_ops (pr_tasks (settle rq x P)) \<subseteq> sending_ops (pr_tasks P) \<union> set (outcome_ops (fst x))"
  "set (outcome_ops (fst x)) \<subseteq> sending_ops (pr_tasks (settle rq x P))"
  "y \<in> sending_ops (pr_tasks P) \<Longrightarrow> y \<in> sending_ops (pr_tasks (settle rq x P)) \<or>
     (\<exists>ops k ws. hget (pr_tasks P) rq = Some (Sending ops k, ws) \<and> y \<in> set ops)"
proof -
  show "sending_ops (pr_tasks (settle rq x P)) \<subseteq> sending_ops (pr_tasks P) \<union> set (outcome_ops (fst x))"
    "set (outcome_ops (fst x)) \<subseteq> sending_ops (pr_tasks (settle rq x P))"
    using sending_insert(1) [where rq = rq and tasks = "pr_tasks P"] sending_insert(2) [where rq = rq and tasks = "pr_tasks P"]
      sending_remove [of rq "pr_tasks P"]
    by (auto simp: settle_def Let_def split: fuse_outcome.split)
  show "y \<in> sending_ops (pr_tasks P) \<Longrightarrow> y \<in> sending_ops (pr_tasks (settle rq x P)) \<or>
     (\<exists>ops k ws. hget (pr_tasks P) rq = Some (Sending ops k, ws) \<and> y \<in> set ops)"
    using sending_kept [of y "pr_tasks P" rq] by (auto simp: settle_def Let_def split: fuse_outcome.split)
qed

text \<open>What every step has to do: \<open>H\<close> are the operations it heard.\<close>

definition step_ok ::
  "'t fs_env \<Rightarrow> net_env \<Rightarrow> peer_id \<Rightarrow> usize \<Rightarrow> node_operation set \<Rightarrow> 't program \<Rightarrow> 't program \<Rightarrow> bool"
where
  "step_ok E N peer capacity H P P' \<longleftrightarrow> program_inv E peer capacity P' \<and>
     fs_log E (pr_fs P) \<subseteq> fs_log E (pr_fs P') \<and>
     fs_log E (pr_fs P') \<subseteq> fs_log E (pr_fs P) \<union> H \<union> {x. actor_id (op_timestamp x) = peer} \<and>
     known_ops E N P' \<subseteq> known_ops E N P \<union> H \<union> fs_log E (pr_fs P') \<and>
     (own_ops_kept E N peer P \<longrightarrow> {x \<in> H. actor_id (op_timestamp x) = peer} \<subseteq> fs_log E (pr_fs P) \<longrightarrow> own_ops_kept E N peer P')"

lemma connected_ops [simp]:
  "given_ops (sw\<lparr>sw_connected := peers\<rparr>) = given_ops sw" "published_ops N (sw\<lparr>sw_connected := peers\<rparr>) = published_ops N sw"
  "handed_ops N (sw\<lparr>sw_connected := peers\<rparr>) = handed_ops N sw"
  by (simp_all add: given_ops_def published_ops_def handed_ops_def)

text \<open>A step that leaves the file system and the published messages alone and loses no pending operation.\<close>

lemma step_ok_moving:
  assumes "program_inv E peer capacity P" and "pr_fs P' = pr_fs P" and "pending_ops P' = pending_ops P"
    and "nd_swarm (pr_node P') = (nd_swarm (pr_node P))\<lparr>sw_connected := peers\<rparr>"
    and "pr_bridge P' \<noteq> Returned" and "set (pr_channel P') \<subseteq> set (pr_channel P)"
    and "cq_open (nd_queue (pr_node P'))"
  shows "step_ok E N peer capacity H P P'"
  using assms by (auto simp: step_ok_def program_inv_def known_ops_def own_ops_kept_def)

lemma mount_step_ok:
  assumes "replica (e_replica E) valid" and inv: "program_inv E peer capacity P" and "fs_can_stamp now (pr_fs P)"
    and moves: "mount_moves E peer capacity now (pr_fs P) x"
    and sent: "concat (map bridge_broadcast (ff_sent (snd x))) = bridge_broadcast sent"
    and "set sent \<subseteq> sending_ops (pr_tasks P)"
    and kept: "\<And>t ws. hget (pr_tasks P) rq = Some (t, ws) \<Longrightarrow> task_ops t = sent"
  shows "step_ok E N peer capacity H P (settle rq x P)"
proof -
  let ?P = "settle rq x P" and ?new = "outcome_ops (fst x)"
  from moves have sound: "fs_sound E peer capacity (pr_fs ?P)" and iss: "issued E now (pr_fs P) ?new (pr_fs ?P)"
    by (simp_all add: mount_moves_def settle_simps)
  have "fs_inv E valid (pr_fs P)"
    using inv fs_reachable_inv [OF assms(1)] by (auto simp: program_inv_def fs_sound_def)
  note log = issued_log [OF assms(1) this assms(3) iss]
  have own: "y \<in> set ?new \<Longrightarrow> actor_id (op_timestamp y) = peer" for y
    using log(3) inv by (simp add: program_inv_def)
  have chan: "pr_channel ?P = pr_channel P @ bridge_broadcast sent" by (simp add: settle_simps sent)
  have received: "received_ops (bridge_broadcast sent) = set sent"
    by (auto simp: bridge_broadcast_def received_of_def)
  have lost: "y \<in> sending_ops (pr_tasks P) \<Longrightarrow> y \<in> sending_ops (pr_tasks ?P) \<union> set sent" for y
    using settle_tasks(3) [of y P rq x] kept by fastforce
  have pend: "pending_ops ?P \<subseteq> pending_ops P \<union> set ?new" "pending_ops P \<union> set ?new \<subseteq> pending_ops ?P"
    using settle_tasks(1,2) [where rq = rq and x = x and P = P] lost assms(6)
    by (auto simp: pending_ops_def settle_simps sent received)
  have "program_inv E peer capacity ?P"
    using inv sound log(2) by (auto simp: program_inv_def chan settle_simps bridge_broadcast_def)
  moreover have "known_ops E N ?P \<subseteq> known_ops E N P \<union> H \<union> fs_log E (pr_fs ?P)"
    using pend(1) log(1) by (auto simp: known_ops_def settle_simps)
  moreover have "own_ops_kept E N peer P \<longrightarrow> own_ops_kept E N peer ?P"
    using pend(2) log(1) by (auto simp: own_ops_kept_def settle_simps)
  ultimately show ?thesis using log(1) own by (auto simp: step_ok_def)
qed

lemma untouched_sent: "untouched s s' \<Longrightarrow> ff_sent s' = ff_sent s"
  by (simp add: untouched_def)

lemma stop_state [simp]: "snd (stop x) = snd x"
  by (cases x) (simp add: stop_def)

lemma ask_task_sent: "(\<And>a. r = Ok a \<Longrightarrow> ff_sent (snd (k a s)) = ff_sent s) \<Longrightarrow> ff_sent (snd (ask_task r k s)) = ff_sent s"
  by (cases r) (auto simp: ask_task_def)

lemma task_sent [simp]:
  "ff_sent (snd (mutate_task m after s)) = ff_sent s" "ff_sent (snd (fetch_task E n off len k s)) = ff_sent s"
  by (auto simp: mutate_task_def fetch_task_def split: prod.split sum.split)

lemma start_sent: "ff_sent (snd (fuse_start E R now req s)) = ff_sent s"
proof (cases req)
  case (ReqSetattr ino unsupported new_size)
  then show ?thesis by (auto intro!: ask_task_sent untouched_sent [OF ask_untouched] split: option.split)
qed (auto intro!: ask_task_sent simp: untouched_sent [OF quick_handlers(1)] untouched_sent [OF quick_handlers(2)]
    untouched_sent [OF quick_handlers(3)] untouched_sent [OF quick_handlers(4)] untouched_sent [OF quick_handlers(5)]
    untouched_sent [OF quick_handlers(6)] fuse_releasedir_def fuse_access_def split: option.split prod.split)

lemma after_fetching_sent: "ff_sent (snd (after_fetching E k s)) = ff_sent s"
  by (cases k) (auto simp: ask_task_def split: prod.split sum.split)

lemma after_sending_sent [simp]: "ff_sent (snd (after_sending E k s)) = ff_sent s"
  by (rule untouched_sent [OF after_sending_untouched])

lemma resume_sent:
  "concat (map bridge_broadcast (ff_sent (snd (fuse_resume E now answers t s)))) =
    concat (map bridge_broadcast (ff_sent s)) @ bridge_broadcast (task_ops t)"
proof (cases "(E, now, answers, t, s)" rule: fuse_resume.cases)
  case (1 E' now' answers' ops k s')
  then show ?thesis by simp
next
  case (7 E' now' answers' fh off data s')
  then show ?thesis by (auto simp: ask_def bridge_broadcast_def split: prod.split sum.split)
next
  case (8 E' now' answers' ino buffer s')
  then show ?thesis by (auto simp: ask_task_def bridge_broadcast_def split: sum.split)
qed (auto simp: bridge_broadcast_def after_fetching_sent)

section \<open>A step of the bridge\<close>

lemma flush_ops:
  "snd (case flush_batch True batch sent of (ok, sent) \<Rightarrow> (if ok then Receiving else Returned, sent)) = snd (flush_batch True batch sent) \<and>
   fst (case flush_batch True batch sent of (ok, sent) \<Rightarrow> (if ok then Receiving else Returned, sent)) = Receiving \<and>
   command_ops (snd (flush_batch True batch sent)) = command_ops sent \<union> set batch"
proof -
  from flush_batch_all [of batch sent] obtain new where
    "flush_batch True batch sent = (True, sent @ new)" "concat (map operations_of new) = batch" by blast
  moreover from this(2) have "command_ops new = set batch" by (auto simp: command_ops_def)
  ultimately show ?thesis by simp
qed

lemma bridge_step_ops:
  assumes "task \<noteq> Returned" and "input \<noteq> Closed"
  shows "fst (bridge_step True now input (task, [])) \<noteq> Returned \<and>
    set (held_by (fst (bridge_step True now input (task, [])))) \<union> command_ops (snd (bridge_step True now input (task, []))) =
      set (held_by task) \<union> set (received_of input)"
proof -
  have gather: "fst (gather True batch deadline []) \<noteq> Returned \<and>
      set (held_by (fst (gather True batch deadline []))) \<union> command_ops (snd (gather True batch deadline [])) = set batch"
    for batch deadline
    using flush_ops [of batch "[]"] by (auto simp: gather_def held_by_def)
  show ?thesis
    using assms flush_ops [of _ "[]"] gather
    by (cases task; cases input) (auto simp: held_by_def received_of_def)
qed

lemma bridge_step_ok:
  assumes "program_inv E peer capacity P" and "input \<noteq> Closed"
    and "pending_ops P = pending_ops Q \<union> set (received_of input)" and "pr_fs Q = pr_fs P"
    and "nd_swarm (pr_node Q) = nd_swarm (pr_node P)" and "nd_queue (pr_node Q) = nd_queue (pr_node P)" and "pr_bridge Q = pr_bridge P" and "set (pr_channel Q) \<subseteq> set (pr_channel P)"
  shows "step_ok E N peer capacity H P (with_bridge (bridge_step True now input (pr_bridge P, [])) Q)"
proof (rule step_ok_moving [OF assms(1)])
  let ?Q = "with_bridge (bridge_step True now input (pr_bridge P, [])) Q"
  have "pr_bridge P \<noteq> Returned" using assms(1) by (simp add: program_inv_def)
  note step = bridge_step_ops [OF this assms(2), of now]
  have "pending_ops ?Q = sending_ops (pr_tasks Q) \<union> received_ops (pr_channel Q) \<union> command_ops (pr_outbox Q) \<union>
      queue_ops (nd_queue (pr_node Q)) \<union> (set (held_by (fst (bridge_step True now input (pr_bridge P, [])))) \<union>
        command_ops (snd (bridge_step True now input (pr_bridge P, []))))"
    by (auto simp: pending_ops_def with_bridge_def)
  also have "\<dots> = pending_ops Q \<union> set (received_of input)"
    unfolding conjunct2 [OF step] by (auto simp: pending_ops_def assms(7))
  finally show "pending_ops ?Q = pending_ops P" using assms(3) by simp
  show "pr_bridge ?Q \<noteq> Returned" using step by (simp add: with_bridge_def)
  show "nd_swarm (pr_node ?Q) = (nd_swarm (pr_node P))\<lparr>sw_connected := sw_connected (nd_swarm (pr_node P))\<rparr>"
    by (simp add: with_bridge_def assms(5))
qed (use assms in \<open>simp_all add: with_bridge_def program_inv_def\<close>)

section \<open>A call of the dispatcher\<close>

lemma fs_log_node: "fs_log E (nd_fs n) = node_log E n"
  by (simp add: fs_log_def node_log_def)

lemma tree_keeps_peer: "fs_peer (nd_fs (snd (dispatcher_tick E N D w n))) = fs_peer (nd_fs n)"
proof -
  have handled: "fs_peer (nd_fs (handle_all E N D ev m)) = fs_peer (nd_fs m)" for ev and m :: "'a node"
    using handle_all_applies [of E N D ev m]
    by (auto simp: fs_peer_def fs_apply_operations_def nt_apply_operations_def)
  have ticked: "fs_peer (nd_fs (tick_all E N D m)) = fs_peer (nd_fs m)" for m :: "'a node"
    by (simp add: fs_peer_def tick_all_tree)
  show ?thesis by (cases rule: dispatcher_cases [of w n E N D]) (simp_all add: handled ticked)
qed

lemma dispatcher_pending:
  assumes "x \<in> queue_ops (nd_queue n)"
  shows "x \<in> queue_ops (nd_queue (snd (dispatcher_tick E N D w n))) \<or>
    x \<in> handed_ops N (nd_swarm (snd (dispatcher_tick E N D w n)))"
proof (cases "w = FromQueue \<and> cq_items (nd_queue n) \<noteq> []")
  case True
  then obtain cmd rest where q: "cq_items (nd_queue n) = cmd # rest" by (cases "cq_items (nd_queue n)") auto
  have rest: "queue_ops (nd_queue (snd (dispatcher_tick E N D w n))) = command_ops rest"
    using queue_grows_ops [OF dispatcher_command [OF q, of E N D]] True
    by (simp only: True) (simp add: queue_ops_def command_ops_def)
  from assms q consider "x \<in> command_ops rest" | "x \<in> set (operations_of cmd)"
    by (auto simp: queue_ops_def command_ops_def)
  then show ?thesis
  proof cases
    case 2
    then obtain ops where cmd: "cmd = BroadcastOperations ops" "x \<in> set ops" by (cases cmd) auto
    with dispatcher_published [of E N D w n] True q show ?thesis
      by (auto simp: handed_ops_def intro!: exI [of _ ops] split: option.splits if_splits)
  qed (simp add: rest)
next
  case False
  with queue_grows_ops [OF dispatcher_queue, of w n E N D] assms show ?thesis by auto
qed

lemma handed_mono: "set (sw_gossip sw) \<subseteq> set (sw_gossip sw') \<Longrightarrow> handed_ops N sw \<subseteq> handed_ops N sw'"
  by (auto simp: handed_ops_def)

lemma dispatcher_queue_shrinks: "queue_ops (nd_queue (snd (dispatcher_tick E N D w n))) \<subseteq> queue_ops (nd_queue n)"
proof (cases "w = FromQueue \<and> cq_items (nd_queue n) \<noteq> []")
  case True
  then obtain cmd rest where q: "cq_items (nd_queue n) = cmd # rest" by (cases "cq_items (nd_queue n)") auto
  from queue_grows_ops [OF dispatcher_command [OF q, of E N D]] True show ?thesis by (auto simp: queue_ops_def q)
next
  case False
  with queue_grows_ops [OF dispatcher_queue, of w n E N D] show ?thesis by auto
qed

lemma dispatcher_publishes:
  assumes "codec_ok N"
  shows "published_ops N (nd_swarm (snd (dispatcher_tick E N D w n))) \<subseteq>
    published_ops N (nd_swarm n) \<union> queue_ops (nd_queue n)"
proof -
  have "set ops \<subseteq> set (operations_of cmd)" if "Published b \<in> set (gossip_of N D (Command cmd))" "n_decode N b = Some ops" for b ops cmd
    using that assms by (cases cmd) (auto simp: codec_ok_def split: option.splits if_splits)
  then have "set ops \<subseteq> queue_ops (nd_queue n)"
    if "Published b \<in> set (gossip_of N D (Command (hd (cq_items (nd_queue n)))))" "n_decode N b = Some ops" "cq_items (nd_queue n) \<noteq> []" for b ops
    using that by (cases "cq_items (nd_queue n)") (fastforce simp: queue_ops_def)+
  then show ?thesis
    unfolding published_ops_def dispatcher_published by (fastforce split: if_splits)
qed

lemma dispatcher_open: "cq_open (nd_queue (snd (dispatcher_tick E N D w n))) = cq_open (nd_queue n)"
proof (cases "w = FromQueue \<and> cq_items (nd_queue n) \<noteq> []")
  case True
  then obtain cmd rest where q: "cq_items (nd_queue n) = cmd # rest" by (cases "cq_items (nd_queue n)") auto
  with dispatcher_command [OF q, of E N D] True show ?thesis by (simp add: queue_grows_def)
next
  case False
  with dispatcher_queue [of w n E N D] show ?thesis by (auto simp: queue_grows_def)
qed

lemma dispatcher_step_ok:
  assumes "replica (e_replica E) valid" and "codec_ok N" and inv: "program_inv E peer capacity P"
    and "\<And>i. time_ok (d_readings D i)" and "\<And>e. w = FromSwarm e \<Longrightarrow> event_vec_ok e \<and> event_ops N e \<subseteq> H"
  shows "step_ok E N peer capacity H P (P\<lparr>pr_node := snd (dispatcher_tick E N D w (pr_node P))\<rparr>)"
proof -
  let ?n = "pr_node P" and ?n' = "snd (dispatcher_tick E N D w (pr_node P))"
  let ?P = "P\<lparr>pr_node := ?n'\<rparr>"
  have sound: "fs_sound E peer capacity (nd_fs ?n)" using inv by (simp add: program_inv_def)
  then have fsinv: "fs_inv E valid (nd_fs ?n)" using fs_reachable_inv [OF assms(1)] by (auto simp: fs_sound_def)
  have "fs_sound E peer capacity (nd_fs ?n')"
    by (rule dispatcher_sound [OF assms(1) sound assms(4)]) (use assms(5) in fastforce)
  then have "program_inv E peer capacity ?P" using inv by (simp add: program_inv_def tree_keeps_peer dispatcher_open)
  moreover note log = dispatcher_log [OF assms(1) fsinv, of N D w, folded fs_log_node]
  have heard: "(case w of FromSwarm e \<Rightarrow> event_ops N e | _ \<Rightarrow> {}) \<subseteq> H" using assms(5) by (auto split: wakeup.split)
  moreover have "known_ops E N ?P \<subseteq> known_ops E N P \<union> H \<union> fs_log E (pr_fs ?P)"
    using dispatcher_queue_shrinks [of E N D w ?n] dispatcher_given [of E N D w ?n, folded fs_log_node]
      dispatcher_publishes [OF assms(2), of E D w ?n]
    by (auto simp: known_ops_def pending_ops_def)
  moreover have "own_ops_kept E N peer ?P"
    if kept: "own_ops_kept E N peer P" and own: "{x \<in> H. actor_id (op_timestamp x) = peer} \<subseteq> fs_log E (pr_fs P)"
    unfolding own_ops_kept_def
  proof (intro ballI impI)
    fix x assume x: "x \<in> fs_log E (pr_fs ?P)" "actor_id (op_timestamp x) = peer"
    with log(2) heard own have "x \<in> fs_log E (pr_fs P)" by auto
    with kept x(2) have "x \<in> pending_ops P \<union> handed_ops N (nd_swarm ?n)" by (simp add: own_ops_kept_def)
    moreover have "handed_ops N (nd_swarm ?n) \<subseteq> handed_ops N (nd_swarm ?n')"
      by (rule handed_mono) (simp add: dispatcher_published)
    ultimately show "x \<in> pending_ops ?P \<union> handed_ops N (nd_swarm (pr_node ?P))"
      using dispatcher_pending [of x ?n E N D w] by (auto simp: pending_ops_def)
  qed
  ultimately show ?thesis using log by (auto simp: step_ok_def)
qed

section \<open>A step of the program\<close>

theorem program_step_ok:
  assumes rep: "replica (e_replica E) valid" and codec: "codec_ok N" and inv: "program_inv E peer capacity P"
    and step: "program_step E N R heard P P'" and H: "\<And>e. heard e \<Longrightarrow> event_ops N e \<subseteq> H"
  shows "step_ok E N peer capacity H P P'"
  using step
proof (cases rule: program_step.cases)
  case (begin_request rq now req)
  have sound: "fs_sound E peer capacity (ff_filesystem (mount_part P))"
    using inv by (simp add: program_inv_def mount_part_def)
  have "mount_moves E peer capacity now (pr_fs P) (fuse_start E R now req (mount_part P))"
    using start_moves [OF sound, of now R req] begin_request by (simp add: mount_part_def)
  then show ?thesis unfolding begin_request(1)
    by (intro mount_step_ok [OF rep inv, of now _ "[]"])
      (use begin_request in \<open>simp_all add: start_sent mount_part_def bridge_broadcast_def\<close>)
next
  case (resume_request rq t ws answers now)
  have "mount_moves E peer capacity now (pr_fs P) (fuse_resume E now answers t (mount_part P))"
    using resume_request inv by (intro resume_moves [OF rep]) (simp_all add: program_inv_def)
  moreover have "set (task_ops t) \<subseteq> sending_ops (pr_tasks P)"
    using resume_request(2) by (cases t) (simp_all add: sending_ops_def, blast)
  ultimately show ?thesis unfolding resume_request(1)
    by (intro mount_step_ok [OF rep inv, of now _ "task_ops t"])
      (use resume_request in \<open>auto simp: resume_sent mount_part_def\<close>)
next
  case (bridge_receives input rest now)
  have "input \<noteq> Closed" using inv bridge_receives(2) by (auto simp: program_inv_def)
  then show ?thesis unfolding bridge_receives(1)
    by (intro bridge_step_ok [OF inv, where Q = "P\<lparr>pr_channel := rest\<rparr>", simplified])
      (use bridge_receives(2) in \<open>auto simp: pending_ops_def\<close>)
next
  case (bridge_waits now t)
  then show ?thesis unfolding bridge_waits(1)
    by (intro bridge_step_ok [OF inv]) (auto simp: received_of_def)
next
  case (command_enters cmd rest q)
  have "pending_ops P' = pending_ops P"
    using command_enters by (auto simp: pending_ops_def try_send_def queue_ops_def split: if_splits)
  then show ?thesis
    by (rule step_ok_moving [OF inv, rotated, where peers = "sw_connected (nd_swarm (pr_node P))"])
      (use inv command_enters(3) in \<open>auto simp: command_enters(1) program_inv_def try_send_def split: if_splits\<close>)
next
  case (dispatches D w)
  then show ?thesis unfolding dispatches(1)
    by (intro dispatcher_step_ok [OF rep codec inv]) (auto dest: H)
next
  case (connections_change peers)
  then show ?thesis
    by (intro step_ok_moving [OF inv, where peers = peers])
      (use inv in \<open>simp_all add: connections_change(1) program_inv_def pending_ops_def\<close>)
qed

end
