(* ===== verification/Cluster.thy ===== *)
theory Cluster
  imports ProgramRuns
begin

text \<open>
  Any number of nodes, each the program of theory Program under its own peer id, that take their steps in any
  order. Messages may be lost, delayed, repeated and reordered: a node can receive any gossip that some node
  has published and any list of missing operations that some node has given, at any time; what else arrives
  (chunks, probes, requests, connections) is arbitrary. Followed here is every operation, from the request
  that issues it to the logs of the other nodes.

  A peer id belongs to one start of the program (\<open>run\<close> in \<open>src/src/app.rs\<close> makes a new key pair), so a node that is
  started again is a new one.
\<close>

section \<open>Nodes and what they have said\<close>

type_synonym 't cluster = "peer_id \<Rightarrow> 't program"

abbreviation cl_swarm :: "'t cluster \<Rightarrow> peer_id \<Rightarrow> swarm" where
  "cl_swarm C p \<equiv> nd_swarm (pr_node (C p))"

abbreviation cl_log :: "'t fs_env \<Rightarrow> 't cluster \<Rightarrow> peer_id \<Rightarrow> node_operation set" where
  "cl_log E C p \<equiv> fs_log E (pr_fs (C p))"

abbreviation author :: "node_operation \<Rightarrow> peer_id" where
  "author x \<equiv> actor_id (op_timestamp x)"

fun said :: "'t cluster \<Rightarrow> swarm_event \<Rightarrow> bool" where
  "said C (GossipMessage data) \<longleftrightarrow> (\<exists>q. Published data \<in> set (sw_gossip (cl_swarm C q)))"
| "said C (MessageResponse rid (MissingOperations ops)) \<longleftrightarrow>
     (\<exists>q ch. (ch, MissingOperations ops) \<in> set (sw_given (cl_swarm C q)))"
| "said C e \<longleftrightarrow> True"

definition node_fresh :: "'t fs_env \<Rightarrow> peer_id \<Rightarrow> 't program \<Rightarrow> bool" where
  "node_fresh E p P \<longleftrightarrow> (\<exists>max_storage now sw root_ino. P = program_new E max_storage now sw root_ino \<and>
     sw_local sw = p \<and> sw_gossip sw = [] \<and> sw_given sw = [] \<and> unat (app_storage_bytes max_storage) < 2 ^ 63)"

inductive cluster_step :: "'t fs_env \<Rightarrow> net_env \<Rightarrow> 'r directory_api \<Rightarrow> 't cluster \<Rightarrow> 't cluster \<Rightarrow> bool" for E N R where
  node_step: "program_step E N R (said C) (C p) P' \<Longrightarrow> cluster_step E N R C (C(p := P'))"

inductive cluster_reachable :: "'t fs_env \<Rightarrow> net_env \<Rightarrow> 'r directory_api \<Rightarrow> 't cluster \<Rightarrow> bool" for E N R where
  start: "(\<And>p. node_fresh E p (C p)) \<Longrightarrow> cluster_reachable E N R C"
| step: "cluster_reachable E N R C \<Longrightarrow> cluster_step E N R C C' \<Longrightarrow> cluster_reachable E N R C'"

section \<open>The invariant\<close>

text \<open>Every operation that is known anywhere is in the log of the node that issued it, and each node keeps the
  invariant of a program.\<close>

definition authored :: "'t fs_env \<Rightarrow> 't cluster \<Rightarrow> node_operation set" where
  "authored E C = {x. x \<in> cl_log E C (author x)}"

definition cluster_inv :: "'t fs_env \<Rightarrow> net_env \<Rightarrow> 't cluster \<Rightarrow> bool" where
  "cluster_inv E N C \<longleftrightarrow> (\<forall>p. (\<exists>capacity. program_inv E p capacity (C p)) \<and> own_ops_kept E N p (C p) \<and>
     known_ops E N (C p) \<subseteq> authored E C)"

lemma cluster_invD:
  assumes "cluster_inv E N C"
  obtains capacity where "program_inv E p capacity (C p)" "own_ops_kept E N p (C p)" "known_ops E N (C p) \<subseteq> authored E C"
  using assms by (auto simp: cluster_inv_def)

lemma said_ops:
  assumes "cluster_inv E N C" and "said C e"
  shows "event_ops N e \<subseteq> authored E C"
proof -
  have known: "published_ops N (cl_swarm C q) \<union> given_ops (cl_swarm C q) \<subseteq> authored E C" for q
    using assms(1) by (auto simp: cluster_inv_def known_ops_def)
  show ?thesis
    using assms(2)
  proof (cases "(C, e)" rule: said.cases)
    case (1 C' data)
    with assms(2) obtain q where "Published data \<in> set (sw_gossip (cl_swarm C q))" by auto
    then have "event_ops N e \<subseteq> published_ops N (cl_swarm C q)"
      using 1 by (auto simp: published_ops_def split: option.split)
    with known [of q] show ?thesis by blast
  next
    case (2 C' rid ops)
    with assms(2) obtain q ch where "(ch, MissingOperations ops) \<in> set (sw_given (cl_swarm C q))" by auto
    then have "event_ops N e \<subseteq> given_ops (cl_swarm C q)" using 2 by (auto simp: given_ops_def)
    with known [of q] show ?thesis by blast
  qed auto
qed

lemma program_new_parts [simp]:
  "pr_fs (program_new E max_storage now sw root_ino) =
     fs_new (nt_new (e_replica E) (sw_local sw)) (storage_new (app_storage_bytes max_storage))"
  "nd_swarm (pr_node (program_new E max_storage now sw root_ino)) = sw"
  "nd_queue (pr_node (program_new E max_storage now sw root_ino)) = \<lparr>cq_items = [], cq_open = True\<rparr>"
  "pr_tasks (program_new E max_storage now sw root_ino) = []" "pr_channel (program_new E max_storage now sw root_ino) = []"
  "pr_bridge (program_new E max_storage now sw root_ino) = Receiving" "pr_outbox (program_new E max_storage now sw root_ino) = []"
  by (simp_all add: program_new_def node_new_def fuse_new_def Let_def)

lemma node_fresh_inv:
  assumes "replica (e_replica E) valid" and "node_fresh E p P"
  shows "\<exists>capacity. program_inv E p capacity P" and "fs_log E (pr_fs P) = {}" and "known_ops E N P = {}"
proof -
  from assms(2) obtain max_storage now sw root_ino where P: "P = program_new E max_storage now sw root_ino"
    and sw: "sw_local sw = p" "sw_gossip sw = []" "sw_given sw = []" and cap: "unat (app_storage_bytes max_storage) < 2 ^ 63"
    by (auto simp: node_fresh_def)
  show log: "fs_log E (pr_fs P) = {}"
    by (simp add: P fs_log_def fs_new_def nt_new_def replica.log_new [OF assms(1)])
  have "fs_sound E p (app_storage_bytes max_storage) (pr_fs P)"
    using fs_reachable.start [of E p "app_storage_bytes max_storage"] cap
    by (simp add: P sw fs_sound_def fs_new_def fs_capacity_bytes_def storage_capacity_bytes_def storage_new_def)
  then show "\<exists>capacity. program_inv E p capacity P"
    by (auto simp: program_inv_def P sw fs_peer_def fs_new_def nt_new_def)
  show "known_ops E N P = {}"
    using log by (simp add: P sw known_ops_def pending_ops_def sending_ops_def queue_ops_def given_ops_def published_ops_def held_by_def)
qed

lemma cluster_step_inv:
  assumes rep: "replica (e_replica E) valid" and codec: "codec_ok N" and inv: "cluster_inv E N C" and "cluster_step E N R C C'"
  shows "cluster_inv E N C'" and "cl_log E C q \<subseteq> cl_log E C' q"
    and "cl_log E C' q \<subseteq> cl_log E C q \<union> {x. author x = q} \<union> authored E C"
proof -
  from assms(4) obtain p P' where C': "C' = C(p := P')" and step: "program_step E N R (said C) (C p) P'"
    by (auto elim: cluster_step.cases)
  obtain capacity where p: "program_inv E p capacity (C p)" "own_ops_kept E N p (C p)" "known_ops E N (C p) \<subseteq> authored E C"
    by (rule cluster_invD [OF inv])
  from program_step_ok [OF rep codec p(1) step said_ops [OF inv]] have
    "step_ok E N p capacity (authored E C) (C p) P'" by blast
  then have P': "program_inv E p capacity P'" and grow: "cl_log E C p \<subseteq> fs_log E (pr_fs P')"
    and new: "fs_log E (pr_fs P') \<subseteq> cl_log E C p \<union> authored E C \<union> {x. author x = p}"
    and known: "known_ops E N P' \<subseteq> known_ops E N (C p) \<union> authored E C \<union> fs_log E (pr_fs P')"
    and own: "own_ops_kept E N p (C p) \<longrightarrow> {x \<in> authored E C. author x = p} \<subseteq> cl_log E C p \<longrightarrow> own_ops_kept E N p P'"
    by (simp_all add: step_ok_def)
  show "cl_log E C q \<subseteq> cl_log E C' q" "cl_log E C' q \<subseteq> cl_log E C q \<union> {x. author x = q} \<union> authored E C"
    using grow new by (auto simp: C')
  have old: "authored E C \<subseteq> authored E C'" using grow by (auto simp: authored_def C')
  have "cl_log E C p \<subseteq> authored E C" using p(3) by (auto simp: known_ops_def)
  then have log: "fs_log E (pr_fs P') \<subseteq> authored E C'"
    using new old by (auto simp: authored_def C')
  have "own_ops_kept E N p P'" using own p(2) by (auto simp: authored_def)
  moreover have "known_ops E N P' \<subseteq> authored E C'" using known p(3) old log by blast
  ultimately show "cluster_inv E N C'"
    using inv P' old by (fastforce simp: cluster_inv_def C')
qed

lemma cluster_reachable_inv:
  assumes "replica (e_replica E) valid" and "codec_ok N" and "cluster_reachable E N R C"
  shows "cluster_inv E N C"
  using assms(3)
proof induction
  case (start C)
  note fresh = node_fresh_inv [OF assms(1) start]
  show ?case using fresh(1) by (simp add: cluster_inv_def own_ops_kept_def fresh(2,3))
next
  case (step C C')
  with cluster_step_inv(1) [OF assms(1,2)] show ?case by blast
qed

lemma authored_unique:
  assumes "replica (e_replica E) valid" and "cluster_inv E N C"
  shows "op_ids_unique (authored E C)"
  unfolding op_ids_unique_iff
proof (rule inj_onI)
  fix x y assume xy: "x \<in> authored E C" "y \<in> authored E C" and same: "op_timestamp x = op_timestamp y"
  obtain capacity where "program_inv E (author x) capacity (C (author x))" by (rule cluster_invD [OF assms(2)])
  then have "fs_inv E valid (pr_fs (C (author x)))"
    using fs_reachable_inv [OF assms(1)] by (auto simp: program_inv_def fs_sound_def)
  then have "valid (nt_tree (fs_tree (pr_fs (C (author x)))))" using fs_inv_parts(1) by (auto simp: tree_inv_def)
  from replica.log_distinct [OF assms(1) this] show "x = y"
    using xy same by (auto simp: authored_def fs_log_def distinct_map dest: inj_onD)
qed

end
