(* ===== verification/ClusterRuns.thy ===== *)
theory ClusterRuns
  imports Cluster
begin

text \<open>
  Properties of a cluster (theory Cluster): operations are never lost, forged or confused, nodes that know the
  same operations show the same file system, and from every state nodes can still be brought together.
\<close>

section \<open>Runs\<close>

definition cluster_run :: "'t fs_env \<Rightarrow> net_env \<Rightarrow> 'r directory_api \<Rightarrow> 't cluster \<Rightarrow> 't cluster \<Rightarrow> bool" where
  "cluster_run E N R = (cluster_step E N R)\<^sup>*\<^sup>*"

lemma cluster_run_refl [simp]: "cluster_run E N R C C"
  by (simp add: cluster_run_def)

lemma cluster_run_step: "cluster_run E N R C C' \<Longrightarrow> cluster_step E N R C' C'' \<Longrightarrow> cluster_run E N R C C''"
  by (simp add: cluster_run_def)

lemma cluster_run_trans: "cluster_run E N R C C' \<Longrightarrow> cluster_run E N R C' C'' \<Longrightarrow> cluster_run E N R C C''"
  by (simp add: cluster_run_def)

lemma cluster_run_inv:
  assumes "replica (e_replica E) valid" and "codec_ok N" and "cluster_inv E N C" and "cluster_run E N R C C'"
  shows "cluster_inv E N C' \<and> (\<forall>q. cl_log E C q \<subseteq> cl_log E C' q)"
  using assms(4) unfolding cluster_run_def
proof (induction rule: rtranclp_induct)
  case (step C1 C2)
  with cluster_step_inv(1,2) [OF assms(1,2), of C1 R C2] show ?case by blast
qed (use assms(3) in simp)

lemma cluster_run_reachable: "cluster_run E N R C C' \<Longrightarrow> cluster_reachable E N R C \<Longrightarrow> cluster_reachable E N R C'"
  unfolding cluster_run_def by (induction rule: rtranclp_induct) (auto intro: cluster_reachable.step)

text \<open>What the nodes know, and that it is consistent.\<close>

lemma logs_unique:
  assumes "replica (e_replica E) valid" and "cluster_inv E N C"
  shows "op_ids_unique (\<Union>p. cl_log E C p)"
proof -
  have "(\<Union>p. cl_log E C p) \<subseteq> authored E C" using assms(2) by (auto simp: cluster_inv_def known_ops_def)
  then show ?thesis
    using authored_unique [OF assms] by (auto simp: op_ids_unique_def intro: inj_on_subset)
qed

lemma node_inv:
  assumes "replica (e_replica E) valid" and "cluster_inv E N C"
  shows "fs_inv E valid (pr_fs (C p))"
proof -
  obtain capacity where "program_inv E p capacity (C p)" by (rule cluster_invD [OF assms(2)])
  then show ?thesis using fs_reachable_inv [OF assms(1)] by (auto simp: program_inv_def fs_sound_def)
qed

lemma node_valid:
  assumes "replica (e_replica E) valid" and "cluster_inv E N C"
  shows "valid (nt_tree (fs_tree (pr_fs (C p))))"
  using fs_inv_parts(1) [OF node_inv [OF assms, of p]] by (simp add: tree_inv_def)

section \<open>One exchange\<close>

text \<open>A node dispatches an event it may receive; the clocks and the draws are whatever they are.\<close>

definition dispatch_at :: "'t fs_env \<Rightarrow> net_env \<Rightarrow> dispatch_env \<Rightarrow> peer_id \<Rightarrow> swarm_event \<Rightarrow> 't cluster \<Rightarrow> 't cluster" where
  "dispatch_at E N D p e C = C(p := (C p)\<lparr>pr_node := snd (dispatcher_tick E N D (FromSwarm e) (pr_node (C p)))\<rparr>)"

lemma dispatch_at_step:
  "(\<And>i. time_ok (d_readings D i)) \<Longrightarrow> said C e \<Longrightarrow> event_vec_ok e \<Longrightarrow> cluster_step E N R C (dispatch_at E N D p e C)"
  unfolding dispatch_at_def by (intro cluster_step.node_step program_step.dispatches) auto

lemma dispatch_at_simps:
  "cl_log E (dispatch_at E N D p e C) q = (if q = p then node_log E (snd (dispatcher_tick E N D (FromSwarm e) (pr_node (C p)))) else cl_log E C q)"
  by (simp add: dispatch_at_def fs_log_node [symmetric])

lemma dispatch_at_quiet:
  assumes "replica (e_replica E) valid" and "cluster_inv E N C" and "event_ops N e = {}"
  shows "cl_log E (dispatch_at E N D p e C) q = cl_log E C q"
proof -
  note dispatcher_log [OF assms(1) node_inv [OF assms(1,2), of p], of N D "FromSwarm e"]
  then have "node_log E (snd (dispatcher_tick E N D (FromSwarm e) (pr_node (C p)))) = cl_log E C p"
    using assms(3) by (auto simp: fs_log_node)
  then show ?thesis by (simp add: dispatch_at_simps)
qed

text \<open>\<open>p\<close> connects to \<open>q\<close>, \<open>q\<close> is asked, and its answer comes.\<close>

definition pull_from :: "'t fs_env \<Rightarrow> net_env \<Rightarrow> dispatch_env \<Rightarrow> request_id \<Rightarrow> reply_channel \<Rightarrow> peer_id \<Rightarrow> peer_id \<Rightarrow> 't cluster \<Rightarrow> 't cluster" where
  "pull_from E N D rid ch p q C =
     (let ids = fs_operation_ids E (pr_fs (C p));
          ops = fs_operations_missing_from E (pr_fs (C q)) (set ids);
          C1 = dispatch_at E N D p (ConnectionEstablished q 1) C;
          C2 = dispatch_at E N D q (MessageRequest (PullMissingOperations ids) ch) C1
      in dispatch_at E N D p (MessageResponse rid (MissingOperations ops)) C2)"

lemma pull_from_effect:
  assumes rep: "replica (e_replica E) valid" and codec: "codec_ok N" and inv: "cluster_inv E N C" and "p \<noteq> q"
    and time: "\<And>i. time_ok (d_readings D i)"
  shows "cluster_run E N R C (pull_from E N D rid ch p q C)"
    and "cl_log E (pull_from E N D rid ch p q C) r = (if r = p then cl_log E C p \<union> cl_log E C q else cl_log E C r)"
proof -
  let ?ids = "fs_operation_ids E (pr_fs (C p))"
  let ?ops = "fs_operations_missing_from E (pr_fs (C q)) (set ?ids)"
  let ?C1 = "dispatch_at E N D p (ConnectionEstablished q 1) C"
  let ?C2 = "dispatch_at E N D q (MessageRequest (PullMissingOperations ?ids) ch) ?C1"
  have step1: "cluster_step E N R C ?C1" by (intro dispatch_at_step time) auto
  note inv1 = cluster_step_inv(1) [OF rep codec inv step1]
  have step2: "cluster_step E N R ?C1 ?C2" by (intro dispatch_at_step time) auto
  note inv2 = cluster_step_inv(1) [OF rep codec inv1 step2]
  have logs: "cl_log E ?C2 r = cl_log E C r" for r
    using dispatch_at_quiet [OF rep inv1, of "MessageRequest (PullMissingOperations ?ids) ch" D q r]
      dispatch_at_quiet [OF rep inv, of "ConnectionEstablished q 1" D p r] by simp
  have q: "?C1 q = C q" using assms(4) by (simp add: dispatch_at_def)
  have given: "(ch, MissingOperations ?ops) \<in> set (sw_given (cl_swarm ?C2 q))"
    using handle_request [of E N D "PullMissingOperations ?ids" ch "pr_node (C q)"]
    by (simp add: dispatch_at_def [of E N D q] dispatch_event tick_all_given q [simplified])
  then have step3: "cluster_step E N R ?C2 (dispatch_at E N D p (MessageResponse rid (MissingOperations ?ops)) ?C2)"
    by (intro dispatch_at_step time) auto
  show "cluster_run E N R C (pull_from E N D rid ch p q C)"
    unfolding pull_from_def Let_def
    by (intro cluster_run_step [OF _ step3] cluster_run_step [OF _ step2] cluster_run_step [OF _ step1] cluster_run_refl)
  have uniq: "op_ids_unique (cl_log E C p \<union> cl_log E C q)"
    using logs_unique [OF rep inv] by (auto simp: op_ids_unique_def intro: inj_on_subset)
  note all = missing_operations_stamps [OF rep, of "cl_log E C p" "pr_node (C q)" "pr_node (C p)", folded fs_log_node, OF uniq order_refl]
  have p: "node_log E (pr_node (?C2 p)) = cl_log E C p" using logs [of p] by (simp add: fs_log_node)
  have "node_log E (snd (dispatcher_tick E N D (FromSwarm (MessageResponse rid (MissingOperations ?ops))) (pr_node (?C2 p)))) =
      cl_log E C p \<union> cl_log E C q"
    using missing_operations_log [OF rep node_inv [OF rep inv2, of p], of ?ops N D rid] uniq unfolding p all by blast
  then show "cl_log E (pull_from E N D rid ch p q C) r = (if r = p then cl_log E C p \<union> cl_log E C q else cl_log E C r)"
    using logs [of r] by (simp only: pull_from_def Let_def dispatch_at_simps [of E N D p "MessageResponse rid (MissingOperations ?ops)"])
qed

text \<open>One node pulls from a list of others, and every node of a list pulls from all.\<close>

definition gather_logs :: "'t fs_env \<Rightarrow> net_env \<Rightarrow> dispatch_env \<Rightarrow> peer_id \<Rightarrow> peer_id list \<Rightarrow> 't cluster \<Rightarrow> 't cluster" where
  "gather_logs E N D p qs C = fold (\<lambda>q C. if q = p then C else pull_from E N D 0 0 p q C) qs C"

definition exchange_all :: "'t fs_env \<Rightarrow> net_env \<Rightarrow> dispatch_env \<Rightarrow> peer_id list \<Rightarrow> 't cluster \<Rightarrow> 't cluster" where
  "exchange_all E N D ps C = fold (\<lambda>p. gather_logs E N D p ps) ps C"

lemma gather_logs_effect:
  assumes rep: "replica (e_replica E) valid" and codec: "codec_ok N" and time: "\<And>i. time_ok (d_readings D i)"
    and "cluster_inv E N C"
  shows "cluster_run E N R C (gather_logs E N D p qs C) \<and>
    (\<forall>r. cl_log E (gather_logs E N D p qs C) r =
      (if r = p then cl_log E C p \<union> (\<Union>q \<in> set qs. cl_log E C q) else cl_log E C r))"
  using assms(4)
proof (induction qs arbitrary: C)
  case (Cons q qs)
  let ?C = "if q = p then C else pull_from E N D 0 0 p q C"
  have run: "cluster_run E N R C ?C"
    using pull_from_effect(1) [OF rep codec Cons.prems _ time, where R = R and p = p and q = q] by auto
  have log: "cl_log E ?C r = (if r = p then cl_log E C p \<union> cl_log E C q else cl_log E C r)" for r
    using pull_from_effect(2) [OF rep codec Cons.prems _ time, of p q] by auto
  have "cluster_inv E N ?C" using cluster_run_inv [OF rep codec Cons.prems run] by blast
  note IH = Cons.IH [OF this]
  have C': "gather_logs E N D p (q # qs) C = gather_logs E N D p qs ?C" by (simp add: gather_logs_def)
  have "cl_log E (gather_logs E N D p qs ?C) r =
      (if r = p then cl_log E C p \<union> (\<Union>q \<in> set (q # qs). cl_log E C q) else cl_log E C r)" for r
    unfolding spec [OF conjunct2 [OF IH]] log by auto
  with cluster_run_trans [OF run conjunct1 [OF IH]] show ?case unfolding C' by blast
qed (simp add: gather_logs_def)

lemma exchange_all_effect:
  assumes rep: "replica (e_replica E) valid" and codec: "codec_ok N" and time: "\<And>i. time_ok (d_readings D i)"
    and inv: "cluster_inv E N C"
  shows "cluster_run E N R C (exchange_all E N D ps C)"
    and "cl_log E (exchange_all E N D ps C) r = (if r \<in> set ps then (\<Union>q \<in> set ps. cl_log E C q) else cl_log E C r)"
proof -
  let ?U = "\<Union>q \<in> set ps. cl_log E C q" and ?go = "fold (\<lambda>p. gather_logs E N D p ps)"
  have "cluster_run E N R C (?go rs C) \<and> (\<forall>r. cl_log E (?go rs C) r = (if r \<in> set rs then ?U else cl_log E C r))"
    if "set rs \<subseteq> set ps" for rs
    using that
  proof (induction rs rule: rev_induct)
    case (snoc p rs)
    let ?C = "?go rs C"
    from snoc have run: "cluster_run E N R C ?C"
      and log: "cl_log E ?C r = (if r \<in> set rs then ?U else cl_log E C r)" for r by auto
    have "cluster_inv E N ?C" using cluster_run_inv [OF rep codec inv run] by blast
    note eff = gather_logs_effect [OF rep codec time this, where R = R and p = p and qs = ps]
    have all: "cl_log E ?C p \<union> (\<Union>q \<in> set ps. cl_log E ?C q) = ?U"
      unfolding log using snoc.prems by (auto split: if_splits)
    have "cl_log E (gather_logs E N D p ps ?C) r = (if r \<in> set (rs @ [p]) then ?U else cl_log E C r)" for r
      unfolding spec [OF conjunct2 [OF eff]] all using snoc.prems by (auto simp: log)
    with cluster_run_trans [OF run conjunct1 [OF eff]] show ?case by simp
  qed simp
  from this [of ps] show "cluster_run E N R C (exchange_all E N D ps C)"
    "cl_log E (exchange_all E N D ps C) r = (if r \<in> set ps then ?U else cl_log E C r)"
    by (simp_all add: exchange_all_def)
qed

section \<open>A cluster for the witnesses\<close>

definition demo_directory :: "unit directory_api" where
  "demo_directory = \<lparr>dr_new = (\<lambda>_. ()), dr_add = (\<lambda>_ _ _ _ _. (True, ()))\<rparr>"

definition demo_start :: "node_operation list cluster" where
  "demo_start p = program_new demo_env 1 0 (demo_members\<lparr>sw_local := p\<rparr>) 1"

definition demo_dispatch :: dispatch_env where
  "demo_dispatch = \<lparr>d_now = 0, d_readings = (\<lambda>_. None), d_roll = (\<lambda>_. 0), d_publish = (\<lambda>_. True)\<rparr>"

definition demo_cluster :: "node_operation list cluster" where
  "demo_cluster = demo_start(PeerId 1 := settle 0
     (fuse_start demo_env demo_directory (Some 5) (ReqMkdir 1 ''d'') (mount_part (demo_start (PeerId 1)))) (demo_start (PeerId 1)))"

lemma demo_codec: "codec_ok demo_net"
  by (simp add: codec_ok_def demo_net_def)

lemma demo_times: "time_ok (d_readings demo_dispatch i)"
  by (simp add: demo_dispatch_def time_ok_def hlc_eval)

lemma demo_cluster_reachable: "cluster_reachable demo_env demo_net demo_directory demo_cluster"
proof -
  have "node_fresh demo_env p (demo_start p)" for p
    unfolding node_fresh_def demo_start_def
    by (intro exI [of _ 1] exI [of _ 0] exI [of _ "demo_members\<lparr>sw_local := p\<rparr>"])
      (simp add: demo_members_def app_storage_bytes_def)
  then have start: "cluster_reachable demo_env demo_net demo_directory demo_start" by (rule cluster_reachable.start)
  have "fs_can_stamp (Some 5) (pr_fs (demo_start (PeerId 1)))"
    by (simp add: demo_start_def fs_can_stamp_def can_stamp_def fs_new_def nt_new_def hlc_eval)
  then have "program_step demo_env demo_net demo_directory (said demo_start) (demo_start (PeerId 1)) (demo_cluster (PeerId 1))"
    unfolding demo_cluster_def fun_upd_same by (intro program_step.begin_request) (simp_all add: demo_start_def hget_def)
  from cluster_step.node_step [where C = demo_start and p = "PeerId 1", OF this] have
    "cluster_step demo_env demo_net demo_directory demo_start demo_cluster" by (simp add: demo_cluster_def)
  with start show ?thesis by (rule cluster_reachable.step)
qed

lemma demo_cluster_log:
  "\<exists>x. cl_log demo_env demo_cluster (PeerId 1) = {x} \<and> author x = PeerId 1 \<and> op_metadata x = Directory ''d''"
  "cl_log demo_env demo_cluster (PeerId 2) = {}"
proof -
  have "map (\<lambda>x. (author x, op_metadata x)) (r_log ref_api (nt_tree (fs_tree (pr_fs (demo_cluster (PeerId 1)))))) =
      [(PeerId 1, Directory ''d'')]" by code_simp
  then show "\<exists>x. cl_log demo_env demo_cluster (PeerId 1) = {x} \<and> author x = PeerId 1 \<and> op_metadata x = Directory ''d''"
    by (auto simp: fs_log_def)
  have "r_log ref_api (nt_tree (fs_tree (pr_fs (demo_cluster (PeerId 2))))) = []" by code_simp
  then show "cl_log demo_env demo_cluster (PeerId 2) = {}" by (simp add: fs_log_def)
qed

section \<open>Properties\<close>

text \<open>C2: No operation is forged, confused or dropped. Whatever the nodes do and whatever the network loses,
  delays, repeats or reorders: operation ids are unique across all nodes; an operation in the log of any
  node is in the log of the node that issued it; and there it still waits, in a task of the mount, the
  bridge or the command queue, or was handed to gossip: in a message that was published, or in a broadcast
  whose failure was logged.\<close>

theorem operations_have_author:
  assumes "replica (e_replica E) valid" and "codec_ok N" and "cluster_reachable E N R C"
  shows "op_ids_unique (\<Union>p. cl_log E C p) \<and>
    (\<forall>p. \<forall>x \<in> cl_log E C p. x \<in> cl_log E C (author x) \<and>
       x \<in> pending_ops (C (author x)) \<union> handed_ops N (cl_swarm C (author x)))"
proof -
  note inv = cluster_reachable_inv [OF assms]
  have "x \<in> cl_log E C (author x)" if "x \<in> cl_log E C p" for x p
    using that inv by (auto simp: cluster_inv_def known_ops_def authored_def)
  moreover have "x \<in> pending_ops (C p) \<union> handed_ops N (cl_swarm C p)" if "x \<in> cl_log E C p" "author x = p" for x p
    using that inv by (auto simp: cluster_inv_def own_ops_kept_def)
  ultimately show ?thesis using logs_unique [OF assms(1) inv] by blast
qed

theorem operations_have_author_witness:
  "\<exists>x. cl_log demo_env demo_cluster (PeerId 1) = {x} \<and> handed_ops demo_net (cl_swarm demo_cluster (PeerId 1)) = {} \<and>
    x \<in> pending_ops (demo_cluster (PeerId 1))"
proof -
  have rep: "replica (e_replica demo_env) ref_valid" using ref.replica_axioms by simp
  have "sw_gossip (cl_swarm demo_cluster (PeerId 1)) = []" by code_simp
  then have "handed_ops demo_net (cl_swarm demo_cluster (PeerId 1)) = {}" by (simp add: handed_ops_def)
  with operations_have_author [OF rep demo_codec demo_cluster_reachable] demo_cluster_log(1) show ?thesis by fastforce
qed

text \<open>C5: No interleaving breaks a node. Whatever the requests of the mount, the bridge and the dispatcher do
  between each other's steps, and whatever the peers send: on every node the file system is in a state
  that single operations lead to, so its invariants hold. No step closes a channel: the mount holds the
  sender of the bridge's channel, and the bridge and the replication handler hold the senders of the command
  channel, as long as the program runs. So the bridge does not return, and the dispatcher, which fails only
  when the command channel is closed, does not fail.\<close>

theorem interleavings_keep_invariant:
  assumes "replica (e_replica E) valid" and "codec_ok N" and "cluster_reachable E N R C"
  shows "(\<exists>capacity. fs_reachable E p capacity (pr_fs (C p))) \<and> fs_inv E valid (pr_fs (C p)) \<and>
    unat (fs_capacity_bytes (pr_fs (C p))) < 2 ^ 63 \<and> pr_bridge (C p) \<noteq> Returned \<and>
    (\<forall>D w e. fst (dispatcher_tick E N D w (pr_node (C p))) \<noteq> Some (Err e))"
proof -
  note inv = cluster_reachable_inv [OF assms]
  obtain capacity where p: "program_inv E p capacity (C p)" by (rule cluster_invD [OF inv])
  then have "fst (dispatcher_tick E N D w (pr_node (C p))) \<noteq> Some (Err e)" for D w e
    by (cases w) (auto simp: program_inv_def dispatcher_tick_def split: list.split)
  with p node_inv [OF assms(1) inv, of p] show ?thesis by (auto simp: program_inv_def fs_sound_def)
qed

theorem interleavings_keep_invariant_witness:
  "fs_inv demo_env ref_valid (pr_fs (demo_cluster (PeerId 1))) \<and> pr_tasks (demo_cluster (PeerId 1)) \<noteq> []"
proof -
  have rep: "replica (e_replica demo_env) ref_valid" using ref.replica_axioms by simp
  have "pr_tasks (demo_cluster (PeerId 1)) \<noteq> []" by code_simp
  with interleavings_keep_invariant [OF rep demo_codec demo_cluster_reachable] show ?thesis by blast
qed

text \<open>C9: The same operations, the same file system. In every state the cluster can reach, two nodes that have
  the same operation ids, which is all they compare when they synchronize, have the same operations and
  show the same tree: every node has the same parent and metadata on both, and every directory the same
  children.\<close>

theorem same_operations_same_tree:
  assumes "replica (e_replica E) valid" and "codec_ok N" and "cluster_reachable E N R C"
    and "set (fs_operation_ids E (pr_fs (C p))) = set (fs_operation_ids E (pr_fs (C q)))"
  shows "cl_log E C p = cl_log E C q \<and>
    (\<forall>n. fs_find E (pr_fs (C p)) n = fs_find E (pr_fs (C q)) n \<and> fs_metadata E (pr_fs (C p)) n = fs_metadata E (pr_fs (C q)) n) \<and>
    (\<forall>d. set (r_children (e_replica E) (nt_tree (fs_tree (pr_fs (C p)))) d) =
      set (r_children (e_replica E) (nt_tree (fs_tree (pr_fs (C q)))) d))"
proof -
  note inv = cluster_reachable_inv [OF assms(1-3)]
  have ids: "set (fs_operation_ids E (pr_fs (C r))) = op_id_of ` cl_log E C r" for r
    by (simp add: fs_operation_ids_def nt_operation_ids_def fs_log_def)
  have uniq: "op_ids_unique (\<Union>r. cl_log E C r)" by (rule logs_unique [OF assms(1) inv])
  have log: "cl_log E C p = cl_log E C q"
    using inj_on_image_eq_iff [OF uniq [unfolded op_ids_unique_def], of "cl_log E C p" "cl_log E C q"] assms(4) by (auto simp: ids)
  have find: "fs_find E (pr_fs (C p)) n = fs_find E (pr_fs (C q)) n" for n
    using replica.find_converges [OF assms(1) node_valid [OF assms(1) inv, of p] node_valid [OF assms(1) inv, of q]] log
    by (simp add: fs_find_def tree_find_def fs_log_def)
  have meta: "fs_metadata E (pr_fs (C p)) n = fs_metadata E (pr_fs (C q)) n" for n
    using find by (simp add: fs_metadata_def nt_is_trashed_def nt_parent_find nt_metadata_find fs_find_def [symmetric])
  show ?thesis
    using log find meta replica.children_converge [OF assms(1) node_valid [OF assms(1) inv, of p] node_valid [OF assms(1) inv, of q]]
    by (simp add: fs_log_def)
qed

text \<open>C8: The nodes can always be brought together. From every state the cluster can reach, whatever was lost
  before, there is a run that makes the nodes of any finite group know all that any of them knows, and
  then they show the same tree. It takes connections, requests for missing operations and their answers
  among these nodes only, as the dispatcher makes them.\<close>

theorem convergence_stays_possible:
  assumes "replica (e_replica E) valid" and "codec_ok N" and "cluster_reachable E N R C"
    and "\<And>i. time_ok (d_readings D i)"
  shows "cluster_run E N R C (exchange_all E N D ps C) \<and>
    (\<forall>p \<in> set ps. cl_log E (exchange_all E N D ps C) p = (\<Union>q \<in> set ps. cl_log E C q)) \<and>
    (\<forall>p \<in> set ps. \<forall>q \<in> set ps. \<forall>n. fs_find E (pr_fs (exchange_all E N D ps C p)) n = fs_find E (pr_fs (exchange_all E N D ps C q)) n)"
proof -
  note inv = cluster_reachable_inv [OF assms(1-3)]
  let ?C = "exchange_all E N D ps C"
  note eff = exchange_all_effect [OF assms(1,2,4) inv]
  have inv': "cluster_inv E N ?C" using cluster_run_inv [OF assms(1,2) inv eff(1) [where R = R]] by blast
  have log: "cl_log E ?C p = (\<Union>q \<in> set ps. cl_log E C q)" if "p \<in> set ps" for p
    unfolding eff(2) [where r = p] using that by simp
  have "fs_find E (pr_fs (?C p)) n = fs_find E (pr_fs (?C q)) n" if "p \<in> set ps" "q \<in> set ps" for p q n
  proof -
    have "cl_log E ?C p = cl_log E ?C q" by (simp only: log that)
    with replica.find_converges [OF assms(1) node_valid [OF assms(1) inv', of p] node_valid [OF assms(1) inv', of q]]
    show ?thesis by (simp only: fs_find_def tree_find_def fs_log_def)
  qed
  with eff(1) log show ?thesis by blast
qed

theorem convergence_stays_possible_witness:
  "\<exists>x. cl_log demo_env demo_cluster (PeerId 2) = {} \<and>
    cl_log demo_env (exchange_all demo_env demo_net demo_dispatch [PeerId 2, PeerId 1] demo_cluster) (PeerId 2) = {x} \<and>
    op_metadata x = Directory ''d''"
proof -
  have rep: "replica (e_replica demo_env) ref_valid" using ref.replica_axioms by simp
  from convergence_stays_possible [OF rep demo_codec demo_cluster_reachable demo_times, of "[PeerId 2, PeerId 1]"]
    demo_cluster_log show ?thesis by auto
qed

theorem same_operations_same_tree_witness:
  defines "C \<equiv> exchange_all demo_env demo_net demo_dispatch [PeerId 2, PeerId 1] demo_cluster"
  shows "\<exists>x. cl_log demo_env C (PeerId 2) = {x} \<and> author x = PeerId 1 \<and>
    (\<forall>n. fs_metadata demo_env (pr_fs (C (PeerId 1))) n = fs_metadata demo_env (pr_fs (C (PeerId 2))) n)"
proof -
  have rep: "replica (e_replica demo_env) ref_valid" using ref.replica_axioms by simp
  note inv = cluster_reachable_inv [OF rep demo_codec demo_cluster_reachable]
  note eff = exchange_all_effect [OF rep demo_codec demo_times inv, where ps = "[PeerId 2, PeerId 1]"]
  have reach: "cluster_reachable demo_env demo_net demo_directory C"
    using eff(1) demo_cluster_reachable unfolding C_def by (rule cluster_run_reachable)
  have log: "cl_log demo_env C (PeerId 1) = cl_log demo_env C (PeerId 2)" "cl_log demo_env C (PeerId 2) = cl_log demo_env demo_cluster (PeerId 1)"
    using demo_cluster_log(2) unfolding C_def eff(2) [where r = "PeerId 1"] eff(2) [where r = "PeerId 2"] by auto
  then have "set (fs_operation_ids demo_env (pr_fs (C (PeerId 1)))) = set (fs_operation_ids demo_env (pr_fs (C (PeerId 2))))"
    by (simp add: fs_operation_ids_def nt_operation_ids_def fs_log_def)
  from same_operations_same_tree [OF rep demo_codec reach this] log demo_cluster_log(1) show ?thesis by auto
qed

end
