(* ===== verification/ClusterSpec.thy ===== *)
theory ClusterSpec
  imports ClusterRuns
begin

text \<open>
  What the program as a whole promises, without its parts: every node has a set of operations that only grows. A
  node adds an operation of its own, newer than all it has, with an id that nobody has used, or it learns
  operations that others have. What it shows is the replay of its set in the order of the timestamps. Here it is
  shown that a cluster of programs does nothing else.
\<close>

section \<open>The abstract specification\<close>

type_synonym knowledge = "peer_id \<Rightarrow> node_operation set"

inductive spec_step :: "knowledge \<Rightarrow> knowledge \<Rightarrow> bool" where
  spec_issue: "author x = p \<Longrightarrow> \<forall>y \<in> L p. op_timestamp y < op_timestamp x \<Longrightarrow> op_id_of x \<notin> op_id_of ` (\<Union>q. L q) \<Longrightarrow>
    spec_step L (L(p := insert x (L p)))"
| spec_learn: "S \<subseteq> (\<Union>q. L q) \<Longrightarrow> spec_step L (L(p := L p \<union> S))"

inductive_simps spec_step_iff: "spec_step L L'"

definition spec_shows :: "node_operation set \<Rightarrow> (node_id \<Rightarrow> (node_id \<times> node_meta) option) \<Rightarrow> bool" where
  "spec_shows ops view \<longleftrightarrow> (\<exists>log. set log = ops \<and> sorted (map op_timestamp log) \<and> distinct (map op_timestamp log) \<and>
     view = hget (replay log))"

text \<open>A set of operations determines what is shown.\<close>

lemma spec_shows_unique: "spec_shows ops view \<Longrightarrow> spec_shows ops view' \<Longrightarrow> view = view'"
proof -
  have same: "log = log'" if "set log = set log'" "sorted (map op_timestamp log)" "distinct (map op_timestamp log)"
    "sorted (map op_timestamp log')" "distinct (map op_timestamp log')" for log log' :: "node_operation list"
  proof (rule map_sorted_distinct_set_unique)
    show "inj_on op_timestamp (set log \<union> set log')" using that by (simp add: distinct_map)
  qed (use that in simp_all)
  then show "spec_shows ops view \<Longrightarrow> spec_shows ops view' \<Longrightarrow> view = view'"
    unfolding spec_shows_def by metis
qed

definition knowledge_of :: "'t fs_env \<Rightarrow> 't cluster \<Rightarrow> knowledge" where
  "knowledge_of E C p = cl_log E C p"

section \<open>The log of one program\<close>

definition issues_one :: "'t fs_env \<Rightarrow> peer_id \<Rightarrow> 't file_system \<Rightarrow> 't file_system \<Rightarrow> bool" where
  "issues_one E peer fs fs' \<longleftrightarrow> fs_log E fs' = fs_log E fs \<or>
     (\<exists>x. author x = peer \<and> fs_log E fs' = insert x (fs_log E fs) \<and> (\<forall>y \<in> fs_log E fs. op_timestamp y < op_timestamp x))"

lemma mount_issues_one:
  assumes "replica (e_replica E) valid" and "fs_inv E valid fs" and "fs_can_stamp now fs"
    and "mount_moves E (fs_peer fs) capacity now fs x"
  shows "issues_one E (fs_peer fs) fs (ff_filesystem (snd x))"
proof -
  let ?fs' = "ff_filesystem (snd x)"
  from assms(4) have "issued E now fs (outcome_ops (fst x)) ?fs'" by (simp add: mount_moves_def)
  then consider "fs_tree ?fs' = fs_tree fs"
    | n p md y where "issue_op (e_replica E) now n p md (fs_tree fs) = (y, fs_tree ?fs')"
    by (auto simp: issued_def)
  then show ?thesis
  proof cases
    case (2 n p md y)
    note eff = replica.issue_op_effect [OF assms(1) fs_inv_parts(1) [OF assms(2)] assms(3) [unfolded fs_can_stamp_def] 2]
    then show ?thesis unfolding issues_one_def by (intro disjI2 exI [of _ y]) (simp add: fs_log_def fs_peer_def)
  qed (simp add: issues_one_def fs_log_def)
qed

lemma program_step_log:
  assumes rep: "replica (e_replica E) valid" and inv: "program_inv E peer capacity P"
    and step: "program_step E N R heard P P'" and H: "\<And>e. heard e \<Longrightarrow> event_ops N e \<subseteq> H"
  shows "issues_one E peer (pr_fs P) (pr_fs P') \<or> (\<exists>S \<subseteq> H. fs_log E (pr_fs P') = fs_log E (pr_fs P) \<union> S)"
proof -
  have fsinv: "fs_inv E valid (pr_fs P)" and sound: "fs_sound E peer capacity (pr_fs P)" and peer: "fs_peer (pr_fs P) = peer"
    using inv fs_reachable_inv [OF rep] by (auto simp: program_inv_def fs_sound_def)
  show ?thesis
    using step
  proof (cases rule: program_step.cases)
    case (begin_request rq now req)
    have s: "fs_sound E peer capacity (ff_filesystem (mount_part P))" using sound by (simp add: mount_part_def)
    have "mount_moves E peer capacity now (pr_fs P) (fuse_start E R now req (mount_part P))"
      using start_moves [OF s, of now R req] begin_request by (simp add: mount_part_def)
    from mount_issues_one [OF rep fsinv begin_request(3), unfolded peer, OF this] show ?thesis
      by (simp add: begin_request(1) settle_simps)
  next
    case (resume_request rq t ws answers now)
    show ?thesis unfolding resume_request(1) settle_simps
      by (rule disjI1 [OF mount_issues_one [OF rep fsinv resume_request(4), unfolded peer,
            OF resume_moves [OF rep sound resume_request(4,3)]]])
  next
    case (dispatches D w)
    have "(case w of FromSwarm e \<Rightarrow> event_ops N e | _ \<Rightarrow> {}) \<subseteq> H" using dispatches(3) H by (auto split: wakeup.split)
    with dispatcher_log [OF rep fsinv, of N D w, folded fs_log_node] have
      "\<exists>S \<subseteq> H. fs_log E (pr_fs P') = fs_log E (pr_fs P) \<union> S"
      unfolding dispatches(1) by (intro exI [of _ "fs_log E (pr_fs P') - fs_log E (pr_fs P)"]) (auto simp: dispatches(1))
    then show ?thesis ..
  qed (simp_all add: issues_one_def with_bridge_def)
qed

section \<open>Property\<close>

text \<open>C3: The cluster implements its abstract specification. Whatever step any node takes, the nodes' sets of
  operations change as the specification allows: one node issues an operation that is newer than all it has seen
  and has a fresh id, or learns operations that others have; and every node shows exactly the replay of its set.\<close>

theorem cluster_refines_spec:
  assumes "replica (e_replica E) valid" and "codec_ok N" and "cluster_reachable E N R C" and "cluster_step E N R C C'"
  shows "spec_step (knowledge_of E C) (knowledge_of E C') \<and> (\<forall>p. spec_shows (knowledge_of E C p) (fs_find E (pr_fs (C p))))"
proof
  note inv = cluster_reachable_inv [OF assms(1-3)]
  let ?L = "knowledge_of E C"
  have known: "?L q \<subseteq> authored E C" for q
    using inv by (auto simp: cluster_inv_def known_ops_def knowledge_of_def)
  from assms(4) obtain p P' where C': "C' = C(p := P')" and step: "program_step E N R (said C) (C p) P'"
    by (auto elim: cluster_step.cases)
  obtain capacity where p: "program_inv E p capacity (C p)" by (rule cluster_invD [OF inv])
  have L': "knowledge_of E C' = ?L(p := fs_log E (pr_fs P'))" by (simp add: fun_eq_iff knowledge_of_def C')
  from program_step_log [OF assms(1) p step said_ops [OF inv]] consider
      (learn) S where "S \<subseteq> authored E C" "fs_log E (pr_fs P') = ?L p \<union> S"
    | (issue) x where "author x = p" "fs_log E (pr_fs P') = insert x (?L p)" "\<forall>y \<in> ?L p. op_timestamp y < op_timestamp x"
    by (auto simp: issues_one_def knowledge_of_def)
  then show "spec_step ?L (knowledge_of E C')"
  proof cases
    case (learn S)
    have "S \<subseteq> (\<Union>q. ?L q)" using learn(1) by (auto simp: authored_def knowledge_of_def)
    then show ?thesis unfolding L' learn(2) by (rule spec_learn)
  next
    case (issue x)
    have "op_id_of x \<notin> op_id_of ` (\<Union>q. ?L q)"
    proof
      assume "op_id_of x \<in> op_id_of ` (\<Union>q. ?L q)"
      then obtain y q where y: "y \<in> ?L q" "op_timestamp y = op_timestamp x" by (auto simp: op_id_of_timestamp)
      then have "y \<in> ?L p" using known [of q] issue(1) by (auto simp: authored_def knowledge_of_def)
      with issue(3) y(2) show False by auto
    qed
    then show ?thesis unfolding L' issue(2) by (rule spec_issue [where L = ?L, OF issue(1,3)])
  qed
  show "\<forall>p. spec_shows (?L p) (fs_find E (pr_fs (C p)))"
  proof
    fix q
    let ?t = "nt_tree (fs_tree (pr_fs (C q)))"
    note v = node_valid [OF assms(1) inv, of q]
    show "spec_shows (?L q) (fs_find E (pr_fs (C q)))"
      unfolding spec_shows_def
    proof (intro exI conjI)
      show "set (sort_key op_timestamp (r_log (e_replica E) ?t)) = ?L q" by (simp add: knowledge_of_def fs_log_def)
      show "distinct (map op_timestamp (sort_key op_timestamp (r_log (e_replica E) ?t)))"
        using replica.log_distinct [OF assms(1) v] by (simp only: distinct_map_sort_key)
      show "fs_find E (pr_fs (C q)) = hget (replay (sort_key op_timestamp (r_log (e_replica E) ?t)))"
        using replica.find_eq [OF assms(1) v] by (simp add: fun_eq_iff fs_find_def tree_find_def)
    qed simp
  qed
qed

text \<open>The second node of the demonstration connects to the first, and nobody's knowledge changes.\<close>

theorem cluster_refines_spec_witness:
  defines "C' \<equiv> dispatch_at demo_env demo_net demo_dispatch (PeerId 2) (ConnectionEstablished (PeerId 1) 1) demo_cluster"
  shows "spec_step (knowledge_of demo_env demo_cluster) (knowledge_of demo_env C') \<and>
    (\<exists>x. spec_shows {x} (fs_find demo_env (pr_fs (demo_cluster (PeerId 1)))))"
proof -
  have rep: "replica (e_replica demo_env) ref_valid" using ref.replica_axioms by simp
  have "cluster_step demo_env demo_net demo_directory demo_cluster C'"
    unfolding C'_def by (intro dispatch_at_step demo_times) simp_all
  note refines = cluster_refines_spec [OF rep demo_codec demo_cluster_reachable this]
  obtain x where "knowledge_of demo_env demo_cluster (PeerId 1) = {x}"
    using demo_cluster_log(1) unfolding knowledge_of_def by blast
  with refines show ?thesis by metis
qed

end
