(* ===== verification/EndToEnd.thy ===== *)
theory EndToEnd
  imports ClusterRuns
begin

text \<open>
  The way of file content from the node that writes it to a node that reads it, through all parts of the program:
  the write pins the chunks and issues an operation (theory FileContent), the operation reaches the other node
  (theory ClusterRuns), whose mount finds the file in its tree, asks for the chunks it lacks (theory FuseFiles)
  and gets them from the writer (theory NodeRuns).
\<close>

text \<open>Two nodes with the same operations show the same file.\<close>

lemma same_log_metadata:
  assumes "replica (e_replica E) valid" and "fs_inv E valid fs" and "fs_inv E valid fs'" and "fs_log E fs = fs_log E fs'"
  shows "fs_metadata E fs n = fs_metadata E fs' n"
proof -
  have "valid (nt_tree (fs_tree fs))" "valid (nt_tree (fs_tree fs'))"
    using fs_inv_parts(1) assms(2,3) by (auto simp: tree_inv_def)
  from replica.find_converges [OF assms(1) this] assms(4) have "fs_find E fs = fs_find E fs'"
    by (simp add: fun_eq_iff fs_find_def tree_find_def fs_log_def)
  then show ?thesis
    by (simp add: fs_metadata_def nt_is_trashed_def nt_parent_find nt_metadata_find fs_find_def [symmetric])
qed

text \<open>The chunks of a file that was written, as the writer stores them and as another node may.\<close>

lemma written_chunks:
  assumes "fs_inv E valid fs" and "storage_try_pin cs (fs_storage fs) = (Ok (), fs_storage fs')"
    and "pin_addressable (fs_storage fs) cs" and "collision_free (e_sha E) (fs_storage fs) cs"
    and "\<forall>c \<in> set cs. chunk_ok (e_sha E) c" and "c \<in> set cs"
  shows "fs_look fs' (ch_hash c) = Some (ch_data c)" and "fs_is_pinned fs' (ch_hash c)"
  using try_pin_look(1,2) [OF fs_inv_parts(2,3) [OF assms(1)] assms(3,5,4,2,6)]
  by (simp_all add: fs_look_def fs_is_pinned_def)

lemma same_hash_same_bytes:
  assumes "fs_inv E valid fs" and "fs_look fs (ch_hash c) = Some d" and "chunk_ok (e_sha E) c"
    and "inj_on (e_sha E) (stored_data (fs_storage fs) \<union> {ch_data c})"
  shows "d = ch_data c"
proof -
  have "hash_of (e_sha E) d = hash_of (e_sha E) (ch_data c)" "d \<in> stored_data (fs_storage fs)"
    using fs_inv_parts(3) [OF assms(1)] assms(2,3)
    by (auto simp: fs_look_def chunk_look_def content_addressed_def chunk_ok_def stored_data_def split: option.splits)
  then show ?thesis using inj_onD [OF assms(4), of d "ch_data c"] by (simp add: hash_of_def)
qed

text \<open>What the hashes stand for: the file's chunks as the writer has them, all others as the reader has them.\<close>

definition true_content :: "chunk list \<Rightarrow> 't file_system \<Rightarrow> 't file_system \<Rightarrow> chunk_hash \<Rightarrow> bytes option" where
  "true_content cs writer reader h = (if h \<in> ch_hash ` set cs then fs_look writer h else fs_look reader h)"

lemma true_content_held:
  assumes "fs_inv E valid reader" and "\<forall>c \<in> set cs. fs_look writer (ch_hash c) = Some (ch_data c)"
    and "\<forall>c \<in> set cs. chunk_ok (e_sha E) c" and "inj_on (e_sha E) (stored_data (fs_storage reader) \<union> ch_data ` set cs)"
    and "fs_look reader h = Some d"
  shows "true_content cs writer reader h = Some d"
proof (cases "h \<in> ch_hash ` set cs")
  case True
  then obtain c where c: "c \<in> set cs" "h = ch_hash c" by auto
  have "inj_on (e_sha E) (stored_data (fs_storage reader) \<union> {ch_data c})"
    using assms(4) by (rule inj_on_subset) (use c(1) in auto)
  from same_hash_same_bytes [OF assms(1) _ _ this, of d] assms(2,3,5) c show ?thesis by (simp add: true_content_def)
qed (use assms(5) in \<open>simp add: true_content_def\<close>)

text \<open>The answers of the writer are the file's chunks.\<close>

lemma writer_answers:
  assumes "cdc_ok cdc" and "\<forall>c \<in> set (chunk_split sha cdc data). fs_look writer (ch_hash c) = Some (ch_data c)"
    and "\<forall>h \<in> set hs. \<exists>c \<in> set (chunk_split sha cdc data). ch_hash c = h"
    and "\<forall>i < length hs. answers i = fs_look writer (hs ! i)" and "i < length hs"
  obtains c where "c \<in> set (chunk_split sha cdc data)" "hs ! i = ch_hash c" "answers i = Some (ch_data c)"
    "hash_of sha (ch_data c) = hs ! i" "vec_ok (ch_data c)"
proof -
  obtain c where c: "c \<in> set (chunk_split sha cdc data)" "ch_hash c = hs ! i"
    using assms(3) nth_mem [OF assms(5)] by blast
  moreover have "answers i = Some (ch_data c)" using assms(2,4,5) c by metis
  moreover have "hash_of sha (ch_data c) = hs ! i" using chunk_split_hash [of c sha cdc data] c by simp
  moreover have "vec_ok (ch_data c)" using chunk_split_length [OF assms(1) c(1)] by (simp add: vec_ok_def)
  ultimately show thesis using that by metis
qed

section \<open>Property\<close>

text \<open>C1: What one node writes another node reads, if the reader's cache can take the chunks without an
  eviction. After a write on one node, consider the mount of another node that knows the same operations, and
  whose request for each chunk it lacks is answered with what the writer stores. Then the writer pins every
  chunk the reader asks for; and a read of any range of the file returns exactly that range of the data
  written. The conditions, all in the statement: what the reader has cached and the chunks it asks for fit its
  cache together (\<open>room\<close>), so that storing one of them evicts nothing: without this the code can return
  zeros, for a fetched chunk may push out one that the same read needs (theory FuseRuns,
  \<open>read_loses_to_cache\<close>); the reader has no write buffer under the handle, which it would read instead;
  SHA-256 gives the chunks at hand different hashes; and the writer's storage counts its bytes in 64 bits.\<close>

theorem remote_write_is_read:
  assumes rep: "replica (e_replica E) valid" and inv: "fs_inv E valid fs" and "fs_can_stamp now fs"
    and cdc: "cdc_ok (e_cdc E)" and vec: "vec_ok data" and "fs_metadata E fs n = Ok (RegularFile name fsz rs)"
    and pin: "pin_addressable (fs_storage fs) (chunk_split (e_sha E) (e_cdc E) data)"
    and cf: "inj_on (e_sha E) (stored_data (fs_storage fs) \<union> stored_data (fs_storage (ff_filesystem s)) \<union>
      ch_data ` set (chunk_split (e_sha E) (e_cdc E) data))"
    and "fs_write_file E now n data fs = (Ok changes, fs')"
    and reader: "fs_inv E valid (ff_filesystem s)" "fs_log E (ff_filesystem s) = fs_log E fs'"
    and closed: "ofm_read (ff_open_files s) fh off (ucast sz) = None" and known: "ino_to_node_id s ino = Ok n"
    and missing: "fs_missing_chunk_hashes_for E (ff_filesystem s) n off (ucast sz) = Ok hs"
    and answers: "\<forall>i < length hs. answers i = fs_look fs' (hs ! i)"
    and room: "cached_total (fs_storage (ff_filesystem s)) + (\<Sum>i\<leftarrow>[0..<length hs]. length (the (answers i)))
       \<le> unat (st_max_cached_bytes (fs_storage (ff_filesystem s)))"
  shows "(\<forall>h \<in> set hs. fs_is_pinned fs' h) \<and>
    fst (fuse_read E answers ino fh off sz s) =
      Ok (subslice data (unat off) (min (unat off + unat (ucast sz :: u64)) (length data)))"
proof -
  let ?cs = "chunk_split (e_sha E) (e_cdc E) data" and ?fs = "ff_filesystem s"
  let ?rs = "map chunk_reference ?cs"
  from write_file_effect [OF rep inv assms(3,6) pin assms(9)] obtain x p where
    pinned: "storage_try_pin ?cs (fs_storage fs) = (Ok (), fs_storage fs')" and inv': "fs_inv E valid fs'" and p: "p \<noteq> TRASH"
    and find: "\<forall>k. fs_find E fs' k = (if k = n then Some (p, RegularFile name (vec_len data) ?rs) else fs_find E fs k)"
    by auto
  have "n \<noteq> ROOT" using assms(6) by (auto simp: fs_metadata_Ok)
  with p find have "fs_metadata E fs' n = Ok (RegularFile name (vec_len data) ?rs)" by (simp add: fs_metadata_Ok)
  then have meta: "fs_metadata E ?fs n = Ok (RegularFile name (vec_len data) ?rs)"
    using same_log_metadata [OF rep reader(1) inv' reader(2)] by simp
  have ok: "\<forall>c \<in> set ?cs. chunk_ok (e_sha E) c" using chunk_split_hash by (auto simp: chunk_ok_def)
  have "collision_free (e_sha E) (fs_storage fs) ?cs"
    using cf unfolding collision_free_def by (rule inj_on_subset) auto
  note stored = written_chunks [OF inv pinned pin this ok]
  have total: "refs_total ?rs < 2 ^ 64" using split_refs_total [OF cdc] vec by (simp add: vec_ok_def)
  have asked: "\<forall>h \<in> set hs. \<exists>c \<in> set ?cs. ch_hash c = h"
    using missing unfolding missing_hashes_eq [OF meta total] by (auto dest!: ref_spans_refs) blast
  let ?truth = "true_content ?cs fs' ?fs"
  have "inj_on (e_sha E) (stored_data (fs_storage ?fs) \<union> ch_data ` set ?cs)" using cf by (rule inj_on_subset) auto
  with stored(1) ok have held: "\<forall>h d. fs_look ?fs h = Some d \<longrightarrow> ?truth h = Some d"
    by (intro allI impI true_content_held [OF reader(1)]) auto
  have truth: "?truth (ch_hash c) = Some (ch_data c)" if "c \<in> set ?cs" for c
    using stored(1) [OF that] that by (simp add: true_content_def)
  have refs: "file_bytes ?truth ?rs = data" "refs_sound ?truth ?rs"
    using split_refs_sound [OF cdc, of "e_sha E" data ?truth] truth by auto
  have all: "\<forall>c \<in> set ?cs. fs_look fs' (ch_hash c) = Some (ch_data c)" using stored(1) by blast
  note got = writer_answers [OF cdc all asked answers]
  have good: "\<forall>i < length hs. \<forall>d. answers i = Some d \<longrightarrow> hash_of (e_sha E) d = hs ! i \<and> ?truth (hs ! i) = Some d \<and> vec_ok d"
  proof (intro allI impI)
    fix i d assume i: "i < length hs" and d: "answers i = Some d"
    obtain c where c: "c \<in> set ?cs" "hs ! i = ch_hash c" "answers i = Some (ch_data c)"
      "hash_of (e_sha E) (ch_data c) = hs ! i" "vec_ok (ch_data c)" by (rule got [OF i])
    with d truth [OF c(1)] show "hash_of (e_sha E) d = hs ! i \<and> ?truth (hs ! i) = Some d \<and> vec_ok d" by simp
  qed
  have "\<forall>i < length hs. answers i \<noteq> None" by (intro allI impI, erule got) simp
  from fetched_read_value [OF reader(1) closed known meta total refs(2) held missing good conjI [OF this room]]
  have "fst (fuse_read E answers ino fh off sz s) =
      Ok (subslice data (unat off) (min (unat off + unat (ucast sz :: u64)) (length data)))"
    unfolding refs(1) unat_vec_len [OF vec] .
  moreover have "\<forall>h \<in> set hs. fs_is_pinned fs' h"
  proof
    fix h assume "h \<in> set hs"
    with asked obtain c where "c \<in> set ?cs" "ch_hash c = h" by (elim ballE bexE) auto
    with stored(2) [of c] show "fs_is_pinned fs' h" by simp
  qed
  ultimately show ?thesis by blast
qed

theorem remote_write_is_read_witness:
  "\<exists>fs fs' s changes. fs_write_file demo_env (Some 6) (NodeId 2) [1, 2, 3] fs = (Ok changes, fs') \<and>
    \<not> storage_contains (fs_storage (ff_filesystem s)) (ChunkHash [1, 2, 3]) \<and>
    fst (fuse_read demo_env (\<lambda>_. fs_look fs' (ChunkHash [1, 2, 3])) 2 4 1 9 s) = Ok [2, 3]"
proof -
  let ?cs = "chunk_split (e_sha demo_env) (e_cdc demo_env) [1, 2, 3]"
  have rep: "replica (e_replica demo_env) ref_valid" using ref.replica_axioms by simp
  obtain fs where fs: "fs_inv demo_env ref_valid fs" "fs_can_stamp (Some 6) fs" and st: "fs_storage fs = storage_new 1000"
    and look: "\<And>k. fs_find demo_env fs k = (if k = NodeId 2 then Some (ROOT, RegularFile ''a'' 0 []) else None)"
    by (rule demo_file) (rule that)
  have ne: "NodeId 2 \<noteq> ROOT" by (simp add: ROOT_def from_uuid_def)
  then have m: "fs_metadata demo_env fs (NodeId 2) = Ok (RegularFile ''a'' 0 [])" by (simp add: fs_metadata_Ok look)
  obtain r fs' where w: "fs_write_file demo_env (Some 6) (NodeId 2) [1, 2, 3] fs = (r, fs')" by force
  from write_file_effect [OF rep fs m demo_pin(1) [OF st] w] demo_pin(2) [OF st] obtain x p where
    r: "r = Ok (tree_mutation_new () [x])" and p: "p \<noteq> TRASH" and inv': "fs_inv demo_env ref_valid fs'"
    and pinned: "storage_try_pin ?cs (fs_storage fs) = (Ok (), fs_storage fs')"
    and find: "\<forall>k. fs_find demo_env fs' k =
      (if k = NodeId 2 then Some (p, RegularFile ''a'' (vec_len [1, 2, 3 :: byte]) (map chunk_reference ?cs)) else fs_find demo_env fs k)"
    by auto
  let ?s = "demo_mount (fs'\<lparr>fs_storage := storage_new 1000\<rparr>) []" and ?ans = "\<lambda>i :: nat. fs_look fs' (ChunkHash [1, 2, 3])"
  have none: "\<not> storage_contains (fs_storage (ff_filesystem ?s)) h" for h
    by (simp add: storage_contains_def hcontains_def storage_new_def)
  have reader: "fs_inv demo_env ref_valid (ff_filesystem ?s)" "fs_log demo_env (ff_filesystem ?s) = fs_log demo_env fs'"
    using inv' storage_inv_new by (simp_all add: fs_inv_def content_addressed_def storage_new_def fs_log_def)
  have "fs_metadata demo_env (ff_filesystem ?s) (NodeId 2) = Ok (RegularFile ''a'' (vec_len [1, 2, 3 :: byte]) (map chunk_reference ?cs))"
    using ne p find by (simp add: fs_metadata_Ok)
  then have miss: "fs_missing_chunk_hashes_for demo_env (ff_filesystem ?s) (NodeId 2) 1 (ucast (9 :: 32 word)) = Ok [ChunkHash [1, 2, 3]]"
    using none unfolding demo_chunk by (simp add: fs_missing_chunk_hashes_for_def saturating_add_def Let_def vec_len_def hash_of_def)
  have cf: "inj_on (e_sha demo_env) (stored_data (fs_storage fs) \<union> stored_data (fs_storage (ff_filesystem ?s)) \<union> ch_data ` set ?cs)"
    by simp
  have cdc: "cdc_ok (e_cdc demo_env)" and vec: "vec_ok [1, 2, 3 :: byte]" by (simp_all add: cdc_ok_fixed vec_ok_def)
  have closed: "ofm_read (ff_open_files ?s) 4 1 (ucast (9 :: 32 word)) = None" by (simp add: ofm_read_def)
  have known: "ino_to_node_id ?s 2 = Ok (NodeId 2)" by simp
  have held: "fs_look fs' (ChunkHash [1, 2, 3]) = Some [1, 2, 3]"
    using written_chunks(1) [OF fs(1) pinned demo_pin(1) [OF st], of "chunk_new (\<lambda>d. d) [1, 2, 3]"]
    unfolding demo_chunk by (simp add: collision_free_def chunk_ok_def hash_of_def)
  have ans: "\<forall>i < length [ChunkHash [1, 2, 3]]. ?ans i = fs_look fs' ([ChunkHash [1, 2, 3]] ! i)" by simp
  have "cached_total (fs_storage (ff_filesystem ?s)) + (\<Sum>i\<leftarrow>[0..<length [ChunkHash [1, 2, 3]]]. length (the (?ans i)))
      \<le> unat (st_max_cached_bytes (fs_storage (ff_filesystem ?s)))"
    by (simp add: held cached_total_def storage_new_def MAX_CACHED_BYTES_def FASTCDC_MAX_CHUNK_SIZE_def)
  from remote_write_is_read [OF rep fs cdc vec m demo_pin(1) [OF st] cf w [unfolded r] reader closed known miss ans this]
  have "fst (fuse_read demo_env ?ans 2 4 1 9 ?s) = Ok [2, 3]" by (simp add: subslice_def)
  with none w r show ?thesis by (intro exI [of _ fs] exI [of _ fs'] exI [of _ ?s]) auto
qed

end
