(* ===== verification/App.thy ===== *)
theory App
  imports Cluster
begin

text \<open>
  The start and the end of the program: the command line (\<open>src/src/cli.rs\<close>), the mount session
  (\<open>src/src/fuse/mount.rs\<close>) and the loop of \<open>src/src/app.rs\<close> that drives the dispatcher until the mount ends,
  the process is interrupted or something fails.

  What the operating system, \<open>async_fuser\<close> and \<open>libp2p\<close> answer is given by parameters; the calls made are
  recorded as a list of \<open>app_io\<close>. The loop is given its rounds: what the other tasks (theory Program) have done
  to the shared state since the last round, whether \<open>select!\<close> polled the future of \<open>wait\<close> (it polls its
  branches in a random order and stops at the first that is ready), and which branch was ready.
\<close>

section \<open>Command line\<close>

datatype log_level = Trace | Debug | Info | Warn | Error

fun log_level_display :: "log_level \<Rightarrow> string" where
  "log_level_display Trace = ''trace''"
| "log_level_display Debug = ''debug''"
| "log_level_display Info = ''info''"
| "log_level_display Warn = ''warn''"
| "log_level_display Error = ''error''"

record args =
  arg_secret :: string
  arg_mountpoint :: string
  arg_log_level :: log_level
  arg_max_storage :: u64

text \<open>The arguments when only the secret is given.\<close>

definition args_default :: "string \<Rightarrow> args" where
  "args_default secret = \<lparr>arg_secret = secret, arg_mountpoint = ''mnt'', arg_log_level = Info, arg_max_storage = 128\<rparr>"

definition log_filter :: "args \<Rightarrow> string" where
  "log_filter a = ''edfs='' @ log_level_display (arg_log_level a)"

section \<open>The mount session\<close>

type_synonym io_error = string

datatype app_io =
    CreateDirAll string
  | BuildSession string
  | SpawnSession
  | Canonicalize string
  | Stat string
  | Fusermount string
  | AbortSession
  | AwaitSession
  | RemoveDir string

record mount_env =
  me_create_dir :: "string \<Rightarrow> (unit, io_error) result"
  me_options :: "(unit, io_error) result"
  me_build :: "string \<Rightarrow> (unit, io_error) result"
  me_canonicalize :: "string \<Rightarrow> (string, io_error) result"
  me_device :: "string \<Rightarrow> (u64, io_error) result"

text \<open>\<open>mh_handle\<close>: the join handle of the session is still in its mutex.\<close>

record mount_handle =
  mh_handle :: bool
  mh_mountpoint :: string
  mh_device_id :: u64

definition fuse_mount :: "mount_env \<Rightarrow> string \<Rightarrow> (mount_handle, io_error) result \<times> app_io list" where
  "fuse_mount V mountpoint =
     (case me_create_dir V mountpoint of Inl e \<Rightarrow> (Err e, [CreateDirAll mountpoint]) | Inr _ \<Rightarrow>
      case me_options V of Inl e \<Rightarrow> (Err e, [CreateDirAll mountpoint]) | Inr _ \<Rightarrow>
      case me_build V mountpoint of Inl e \<Rightarrow> (Err e, [CreateDirAll mountpoint, BuildSession mountpoint]) | Inr _ \<Rightarrow>
      let done = [CreateDirAll mountpoint, BuildSession mountpoint, SpawnSession, Canonicalize mountpoint] in
      case me_canonicalize V mountpoint of Inl e \<Rightarrow> (Err e, done) | Inr path \<Rightarrow>
      case me_device V path of Inl e \<Rightarrow> (Err e, done @ [Stat path]) | Inr device_id \<Rightarrow>
        (Ok \<lparr>mh_handle = True, mh_mountpoint = path, mh_device_id = device_id\<rparr>, done @ [Stat path]))"

text \<open>The future of \<open>wait\<close>: not polled yet, or waiting for the session; \<open>ended\<close> is what the session's task
  has returned, \<open>None\<close> while it runs.\<close>

datatype wait_future = WaitStart | WaitJoin

fun poll_wait ::
  "(unit, io_error) result option \<Rightarrow> wait_future \<times> mount_handle \<Rightarrow>
    (unit, io_error) result option \<times> wait_future \<times> mount_handle"
where
  "poll_wait ended (WaitStart, h) =
     (if \<not> mh_handle h then (Some (Ok ()), WaitStart, h)
      else (ended, WaitJoin, h\<lparr>mh_handle := False\<rparr>))"
| "poll_wait ended (WaitJoin, h) = (ended, WaitJoin, h)"

definition mount_unmount :: "mount_handle \<Rightarrow> app_io list" where
  "mount_unmount h = [Fusermount (mh_mountpoint h)] @ (if mh_handle h then [AbortSession, AwaitSession] else []) @
     [RemoveDir (mh_mountpoint h)]"

definition mount_mounted :: "(u64, io_error) result \<Rightarrow> mount_handle \<Rightarrow> bool" where
  "mount_mounted stat h = (case stat of Inl _ \<Rightarrow> False | Inr device \<Rightarrow> device = mh_device_id h)"

section \<open>The loop\<close>

datatype app_error = MountFailed io_error | SwarmFailed string | SessionFailed io_error | DispatcherFailed dispatch_error

datatype app_wakeup =
    CtrlC
  | MountEnded "(unit, io_error) result"
  | WatchTick "(u64, io_error) result"
  | DispatcherRan dispatch_env wakeup

record 't app_round =
  ar_meanwhile :: "'t node \<Rightarrow> 't node"
  ar_polled :: bool
  ar_wakeup :: app_wakeup

text \<open>\<open>None\<close>: the loop goes on after the given rounds; otherwise it has ended, with the error if there was one.\<close>

fun app_loop ::
  "'t fs_env \<Rightarrow> net_env \<Rightarrow> 't app_round list \<Rightarrow> wait_future \<times> mount_handle \<Rightarrow> 't node \<Rightarrow>
    app_error option option \<times> mount_handle"
where
  "app_loop E N [] (f, h) n = (None, h)"
| "app_loop E N (r # rs) (f, h) n =
     (let n = ar_meanwhile r n;
          (f, h) = (if ar_polled r then snd (poll_wait None (f, h)) else (f, h))
      in case ar_wakeup r of
           CtrlC \<Rightarrow> (Some None, h)
         | MountEnded result \<Rightarrow>
             (case poll_wait (Some result) (f, h) of
                (Some (Inl e), f, h) \<Rightarrow> (Some (Some (SessionFailed e)), h)
              | (_, f, h) \<Rightarrow> (Some None, h))
         | WatchTick stat \<Rightarrow> if \<not> mount_mounted stat h then (Some None, h) else app_loop E N rs (f, h) n
         | DispatcherRan D w \<Rightarrow>
             (case dispatcher_tick E N D w n of
                (Some (Inl e), n) \<Rightarrow> (Some (Some (DispatcherFailed e)), h)
              | (_, n) \<Rightarrow> app_loop E N rs (f, h) n))"

text \<open>\<open>run\<close>: \<open>swarm\<close> and \<open>listen\<close> are what \<open>build_swarm\<close> and \<open>listen_on\<close> return, \<open>peer\<close> is the peer id of the new
  key pair and \<open>now\<close> the time the handlers are made. A result of \<open>None\<close> means that the program is still running.\<close>

definition app_run ::
  "'t fs_env \<Rightarrow> net_env \<Rightarrow> mount_env \<Rightarrow> (peer_id \<Rightarrow> string \<Rightarrow> (swarm, string) result) \<Rightarrow>
    (swarm \<Rightarrow> (swarm, string) result) \<Rightarrow> peer_id \<Rightarrow> instant \<Rightarrow> 't app_round list \<Rightarrow> args \<Rightarrow>
    (unit, app_error) result option \<times> app_io list"
where
  "app_run E N V swarm listen peer now rounds a =
     (case fuse_mount V (arg_mountpoint a) of
        (Inl e, io) \<Rightarrow> (Some (Err (MountFailed e)), io)
      | (Inr session, io) \<Rightarrow>
          (case swarm peer (arg_secret a) of Inl e \<Rightarrow> (Some (Err (SwarmFailed e)), io) | Inr sw \<Rightarrow>
           case listen sw of Inl e \<Rightarrow> (Some (Err (SwarmFailed e)), io) | Inr sw \<Rightarrow>
             (case app_loop E N rounds (WaitStart, session) (node_new E (arg_max_storage a) now sw) of
                (None, session) \<Rightarrow> (None, io)
              | (Some shutdown_error, session) \<Rightarrow>
                  (Some (case shutdown_error of None \<Rightarrow> Ok () | Some e \<Rightarrow> Err e), io @ mount_unmount session))))"

section \<open>How the loop ends\<close>

definition keeps_queue :: "'t app_round \<Rightarrow> bool" where
  "keeps_queue r \<longleftrightarrow> (\<forall>n. cq_open (nd_queue n) \<longrightarrow> cq_open (nd_queue (ar_meanwhile r n)))"

lemma dispatcher_no_error: "cq_open (nd_queue n) \<Longrightarrow> fst (dispatcher_tick E N D w n) \<noteq> Some (Err e)"
  by (cases w) (auto simp: dispatcher_tick_def split: list.split)

text \<open>The rounds that end the loop, the error it ends with, and whether the future of \<open>wait\<close> was polled in a round:
  the branch for the end of the session is taken by polling it.\<close>

definition ends_loop :: "mount_handle \<Rightarrow> 't app_round \<Rightarrow> bool" where
  "ends_loop session r = (case ar_wakeup r of
     CtrlC \<Rightarrow> True | MountEnded result \<Rightarrow> True | WatchTick stat \<Rightarrow> \<not> mount_mounted stat session | DispatcherRan D w \<Rightarrow> False)"

definition end_result :: "'t app_round \<Rightarrow> (unit, app_error) result" where
  "end_result r = (case ar_wakeup r of MountEnded (Inl x) \<Rightarrow> Err (SessionFailed x) | _ \<Rightarrow> Ok ())"

definition polls_wait :: "'t app_round \<Rightarrow> bool" where
  "polls_wait r \<longleftrightarrow> ar_polled r \<or> (\<exists>result. ar_wakeup r = MountEnded result)"

text \<open>The handle leaves its mutex when the future of \<open>wait\<close> is first polled; its path and device stay.\<close>

definition same_mount :: "mount_handle \<Rightarrow> mount_handle \<Rightarrow> bool" where
  "same_mount h h' \<longleftrightarrow> mh_mountpoint h' = mh_mountpoint h \<and> mh_device_id h' = mh_device_id h"

lemma same_mount_simps [simp]: "same_mount h h"
  by (simp add: same_mount_def)

lemma same_mount_trans: "same_mount h h' \<Longrightarrow> same_mount h' h'' \<Longrightarrow> same_mount h h''"
  by (simp add: same_mount_def)

lemma same_mount_ends: "same_mount h h' \<Longrightarrow> ends_loop h' = ends_loop h"
  by (auto simp: fun_eq_iff same_mount_def ends_loop_def mount_mounted_def split: app_wakeup.split sum.split)

lemma poll_wait_handle:
  assumes "poll_wait ended (f, h) = (r, f', h')" and "f = WaitJoin \<longleftrightarrow> \<not> mh_handle h"
  shows "same_mount h h'" and "f' = WaitJoin" and "\<not> mh_handle h'" and "r = ended"
  using assms by (cases f; auto simp: same_mount_def)+

lemma round_polled:
  assumes "(if ar_polled r then snd (poll_wait None (f, h)) else (f, h)) = (f', h')" and "f = WaitJoin \<longleftrightarrow> \<not> mh_handle h"
  shows "same_mount h h'" and "f' = WaitJoin \<longleftrightarrow> \<not> mh_handle h'" and "mh_handle h' \<longleftrightarrow> mh_handle h \<and> \<not> ar_polled r"
  using assms by (cases f; auto simp: same_mount_def split: if_splits)+

text \<open>One round: it ends the loop, or the loop goes on.\<close>

lemma app_loop_round:
  assumes "cq_open (nd_queue n)" and "keeps_queue r" and "f = WaitJoin \<longleftrightarrow> \<not> mh_handle h"
  obtains f1 h1 n1 where "same_mount h h1" and "f1 = WaitJoin \<longleftrightarrow> \<not> mh_handle h1" and "cq_open (nd_queue n1)"
    and "mh_handle h1 \<longleftrightarrow> mh_handle h \<and> \<not> polls_wait r"
    and "app_loop E N (r # rs) (f, h) n = (if ends_loop h r
      then (Some (case end_result r of Inl e \<Rightarrow> Some e | Inr _ \<Rightarrow> None), h1) else app_loop E N rs (f1, h1) n1)"
proof -
  let ?n = "ar_meanwhile r n"
  obtain f1 h1 where p: "(if ar_polled r then snd (poll_wait None (f, h)) else (f, h)) = (f1, h1)" by force
  note polled = round_polled [OF p assms(3)]
  have open_n: "cq_open (nd_queue ?n)" using assms(1,2) by (simp add: keeps_queue_def)
  show thesis
  proof (cases "ar_wakeup r")
    case CtrlC
    with that [OF polled(1,2) open_n] polled(3) p show thesis by (simp add: polls_wait_def ends_loop_def end_result_def)
  next
    case (WatchTick stat)
    have "mount_mounted stat h1 = mount_mounted stat h" using polled(1) by (simp add: mount_mounted_def same_mount_def split: sum.split)
    with WatchTick that [OF polled(1,2) open_n] polled(3) p show thesis
      by (simp add: polls_wait_def ends_loop_def end_result_def)
  next
    case (MountEnded result)
    obtain q f2 h2 where q: "poll_wait (Some result) (f1, h1) = (q, f2, h2)" by (metis prod_cases3)
    note last = poll_wait_handle [OF q polled(2)]
    have "app_loop E N (r # rs) (f, h) n = (Some (case end_result r of Inl e \<Rightarrow> Some e | Inr _ \<Rightarrow> None), h2)"
      using MountEnded p q last(4) by (cases result) (simp_all add: end_result_def)
    with that [OF same_mount_trans [OF polled(1) last(1)] _ open_n, of f2] last(2,3) MountEnded show thesis
      by (simp add: polls_wait_def ends_loop_def)
  next
    case (DispatcherRan D w)
    obtain q n1 where d: "dispatcher_tick E N D w ?n = (q, n1)" by force
    have "cq_open (nd_queue n1)" using dispatcher_open [of E N D w ?n] open_n d by simp
    moreover have "\<nexists>e. q = Some (Err e)" using dispatcher_no_error [OF open_n, of E N D w] d by auto
    ultimately show thesis using DispatcherRan that [OF polled(1,2), of n1] polled(3) p d
      by (auto simp: polls_wait_def ends_loop_def split: option.splits sum.splits)
  qed
qed

lemma app_loop_ends:
  assumes "app_loop E N rounds (f, h) n = (result, h')" and "\<forall>r \<in> set rounds. keeps_queue r" and "cq_open (nd_queue n)"
    and "f = WaitJoin \<longleftrightarrow> \<not> mh_handle h"
  shows "case dropWhile (\<lambda>r. \<not> ends_loop h r) rounds of
      [] \<Rightarrow> result = None
    | r # later \<Rightarrow> result = Some (case end_result r of Inl e \<Rightarrow> Some e | Inr _ \<Rightarrow> None) \<and> same_mount h h' \<and>
        (mh_handle h' \<longleftrightarrow> mh_handle h \<and> \<not> polls_wait r \<and> (\<forall>b \<in> set (takeWhile (\<lambda>r. \<not> ends_loop h r) rounds). \<not> polls_wait b))"
  using assms
proof (induction rounds arbitrary: f h n)
  case (Cons r rs)
  obtain f1 h1 n1 where one: "same_mount h h1" "f1 = WaitJoin \<longleftrightarrow> \<not> mh_handle h1" "cq_open (nd_queue n1)"
    "mh_handle h1 \<longleftrightarrow> mh_handle h \<and> \<not> polls_wait r"
    and run: "app_loop E N (r # rs) (f, h) n = (if ends_loop h r
      then (Some (case end_result r of Inl e \<Rightarrow> Some e | Inr _ \<Rightarrow> None), h1) else app_loop E N rs (f1, h1) n1)"
    by (rule app_loop_round [of n r f h E N rs]) (use Cons.prems in auto)
  show ?case
  proof (cases "ends_loop h r")
    case True
    with run one Cons.prems(1) show ?thesis by simp
  next
    case False
    with run Cons.prems(1) have "app_loop E N rs (f1, h1) n1 = (result, h')" by simp
    from Cons.IH [OF this _ one(3,2), unfolded same_mount_ends [OF one(1)]] Cons.prems(2) False one(1,4) show ?thesis
      by (cases "dropWhile (\<lambda>r. \<not> ends_loop h r) rs") (auto simp del: dropWhile_eq_Nil_conv dest: same_mount_trans [OF one(1)])
  qed
qed simp

lemma mount_io: "fuse_mount V mountpoint = (r, io) \<Longrightarrow> (\<forall>p. Fusermount p \<notin> set io \<and> RemoveDir p \<notin> set io)"
  by (auto simp: fuse_mount_def Let_def split: sum.splits)

lemma mount_spawns: "fuse_mount V mountpoint = (Ok session, io) \<Longrightarrow> SpawnSession \<in> set io \<and> mh_handle session"
  by (auto simp: fuse_mount_def Let_def split: sum.splits)

section \<open>Property\<close>

text \<open>C28: How the program ends. If the mount fails, the program returns that error. If it succeeds and the swarm cannot
  be built or cannot listen, the program returns with the session spawned and nothing unmounted. Otherwise it runs
  until the first round in which the process is interrupted, the session ends or the watch finds the file system
  unmounted, and never ends in a round of the dispatcher, which cannot fail while the replication handler and the
  bridge hold senders of the command channel. Then it calls \<open>fusermount\<close> and removes the mount point; it returns an
  error exactly when that round was the end of the session with an error, and this error. The session is
  aborted and awaited in between exactly when the future of \<open>wait\<close> was polled in none of the rounds.\<close>

theorem run_ends_unmounted:
  assumes "\<forall>r \<in> set rounds. keeps_queue r" and "app_run E N V swarm listen peer now rounds a = (result, io')"
  shows "case fuse_mount V (arg_mountpoint a) of
      (Inl e, io) \<Rightarrow> result = Some (Err (MountFailed e)) \<and> io' = io
    | (Inr session, io) \<Rightarrow> SpawnSession \<in> set io \<and> (\<forall>p. Fusermount p \<notin> set io) \<and>
        (case swarm peer (arg_secret a) of Inl e \<Rightarrow> result = Some (Err (SwarmFailed e)) \<and> io' = io | Inr sw \<Rightarrow>
         case listen sw of Inl e \<Rightarrow> result = Some (Err (SwarmFailed e)) \<and> io' = io | Inr sw \<Rightarrow>
         case dropWhile (\<lambda>r. \<not> ends_loop session r) rounds of
           [] \<Rightarrow> result = None \<and> io' = io
         | r # later \<Rightarrow>
             result = Some (case ar_wakeup r of MountEnded (Inl x) \<Rightarrow> Err (SessionFailed x) | _ \<Rightarrow> Ok ()) \<and>
             io' = io @ [Fusermount (mh_mountpoint session)] @
               (if \<exists>b \<in> set (takeWhile (\<lambda>r. \<not> ends_loop session r) rounds) \<union> {r}. polls_wait b then []
                else [AbortSession, AwaitSession]) @ [RemoveDir (mh_mountpoint session)])"
proof (cases "fuse_mount V (arg_mountpoint a)")
  case (Pair m io)
  show ?thesis
  proof (cases m)
    case (Inl e)
    with Pair assms(2) show ?thesis by (simp add: app_run_def)
  next
    case m: (Inr session)
    have mounted: "fuse_mount V (arg_mountpoint a) = (Ok session, io)" using Pair m by simp
    note spawned = mount_spawns [OF mounted] mount_io [OF mounted]
    show ?thesis
    proof (cases "\<exists>sw sw'. swarm peer (arg_secret a) = Ok sw \<and> listen sw = Ok sw'")
      case False
      with mounted spawned assms(2) show ?thesis by (auto simp: app_run_def split: sum.splits)
    next
      case True
      then obtain sw sw' where sw: "swarm peer (arg_secret a) = Ok sw" "listen sw = Ok sw'" by blast
      let ?n = "node_new E (arg_max_storage a) now sw'"
      obtain err h' where run: "app_loop E N rounds (WaitStart, session) ?n = (err, h')" by force
      have "cq_open (nd_queue ?n)" by (simp add: node_new_def)
      from app_loop_ends [OF run assms(1) this] spawned have
        ends: "case dropWhile (\<lambda>r. \<not> ends_loop session r) rounds of
            [] \<Rightarrow> err = None
          | r # later \<Rightarrow> err = Some (case end_result r of Inl e \<Rightarrow> Some e | Inr _ \<Rightarrow> None) \<and> same_mount session h' \<and>
              (mh_handle h' \<longleftrightarrow> \<not> polls_wait r \<and> (\<forall>b \<in> set (takeWhile (\<lambda>r. \<not> ends_loop session r) rounds). \<not> polls_wait b))"
        by (cases "dropWhile (\<lambda>r. \<not> ends_loop session r) rounds") (simp_all del: dropWhile_eq_Nil_conv)
      have res: "(result, io') = (case err of None \<Rightarrow> (None, io)
          | Some e \<Rightarrow> (Some (case e of None \<Rightarrow> Ok () | Some e \<Rightarrow> Err e), io @ mount_unmount h'))"
        using assms(2) mounted sw run by (auto simp: app_run_def split: option.splits)
      show ?thesis
      proof (cases "dropWhile (\<lambda>r. \<not> ends_loop session r) rounds")
        case Nil
        with ends res mounted spawned sw show ?thesis by (simp del: dropWhile_eq_Nil_conv)
      next
        case (Cons r later)
        with ends res mounted spawned sw show ?thesis
          by (auto simp: mount_unmount_def same_mount_def end_result_def split: app_wakeup.splits sum.splits)
      qed
    qed
  qed
qed

text \<open>\<open>wait\<close> is polled in the first round, in which the watch finds the file system mounted; in the second the session
  fails.\<close>

definition demo_mounts :: mount_env where
  "demo_mounts = \<lparr>me_create_dir = (\<lambda>_. Ok ()), me_options = Ok (), me_build = (\<lambda>_. Ok ()),
     me_canonicalize = (\<lambda>p. Ok (CHR ''/'' # p)), me_device = (\<lambda>_. Ok 7)\<rparr>"

definition demo_round :: "bool \<Rightarrow> app_wakeup \<Rightarrow> node_operation list app_round" where
  "demo_round polled w = \<lparr>ar_meanwhile = (\<lambda>n. n), ar_polled = polled, ar_wakeup = w\<rparr>"

theorem run_ends_unmounted_witness:
  "\<exists>io. app_run demo_env demo_net demo_mounts (\<lambda>p s. Ok demo_members) (\<lambda>sw. Ok sw) (PeerId 1) 0
      [demo_round True (WatchTick (Ok 7)), demo_round False (MountEnded (Err ''x''))] (args_default ''s'') =
    (Some (Err (SessionFailed ''x'')), io @ [Fusermount ''/mnt'', RemoveDir ''/mnt''])"
proof -
  let ?rounds = "[demo_round True (WatchTick (Ok 7)), demo_round False (MountEnded (Err ''x''))]"
  obtain result io' where run: "app_run demo_env demo_net demo_mounts (\<lambda>p s. Ok demo_members) (\<lambda>sw. Ok sw) (PeerId 1) 0 ?rounds
      (args_default ''s'') = (result, io')" by force
  have m: "fuse_mount demo_mounts (arg_mountpoint (args_default ''s'')) = (Ok \<lparr>mh_handle = True, mh_mountpoint = ''/mnt'', mh_device_id = 7\<rparr>,
      [CreateDirAll ''mnt'', BuildSession ''mnt'', SpawnSession, Canonicalize ''mnt'', Stat ''/mnt''])"
    by (simp add: fuse_mount_def demo_mounts_def args_default_def Let_def)
  have "\<forall>r \<in> set ?rounds. keeps_queue r" by (simp add: keeps_queue_def demo_round_def)
  from run_ends_unmounted [OF this run] m run show ?thesis
    by (simp add: demo_round_def ends_loop_def mount_mounted_def polls_wait_def)
qed

end
