(* ===== verification/Spec2Isabelle.thy ===== *)
theory Spec2Isabelle
  imports Hlc Chunking Storage NodeTree FileSystem Namespace FileContent FsReach
    Hrw Inode OpenFile Fuse FuseFiles FuseSteps FuseRuns Network Fetch FetchRuns Replication ReplicationRuns Node NodeRuns
    Bridge Mutations Traffic Program ProgramRuns Cluster ClusterRuns ClusterSpec EndToEnd App
begin

text \<open>
  edfs is an in-memory distributed file system: a FUSE mount over a replicated metadata tree and a store
  of content-addressed chunks, and a network side that exchanges operations and chunks with the peers.
  This development models the program as functions over explicit states and proves what makes each part
  correct. Every theory opens with the files under \<open>src/src/\<close> it models; definitions keep the names of
  the code, with a prefix where they would clash (\<open>fs_\<close> FileSystem, \<open>nt_\<close> NodeTree, \<open>hlc_\<close> the clock,
  \<open>storage_\<close> ChunkStorage, \<open>ofm_\<close> OpenFileManager, \<open>fuse_\<close> the FUSE handlers).

  \<^bold>\<open>The parts and their theories.\<close>

  \<^item> Prelude: hash maps as association lists (\<open>hget\<close>, \<open>hinsert\<close>, \<open>hremove\<close>, \<open>hmodify\<close>), results
    (\<open>Ok\<close>, \<open>Err\<close>), \<open>usize\<close> and \<open>u64\<close> as 64-bit words, \<open>Vec\<close> lengths.
  \<^item> Domain: \<open>domain.rs\<close>, \<open>config.rs\<close> and the error enums.
  \<^item> Hlc: \<open>filesystem/tree/hlc.rs\<close>. The locale \<open>stamp_source\<close> is what the tree needs of a clock; the code's
    clock interprets it. Shown: stamps only increase while the 16 logical bits last, and go back after.
  \<^item> Chunking: \<open>filesystem/chunk.rs\<close>. Splitting is lossless, truncating takes a prefix.
  \<^item> Storage: \<open>filesystem/storage.rs\<close>. The invariant (exact byte counters, limits, the eviction queue lists
    exactly the cached chunks) and a refinement of an abstract store of pinned chunks and a queue, over whole runs.
  \<^item> Replica: the contract of the crate \<open>crdt_tree\<close> as the locale \<open>replica\<close> (the tree is the replay of the log
    in timestamp order), interpreted by a reference replica that satisfies it.
  \<^item> NodeTree: \<open>filesystem/tree/mod.rs\<close> on top of a replica and the clock: acyclicity, freshness of local
    stamps, convergence of two nodes.
  \<^item> FileSystem, with its properties in Namespace (names and directories), FileContent (data, over the locale
    \<open>content_store\<close>) and FsReach (search for the chunks in use, reachable states):
    \<open>filesystem/mod.rs\<close> and \<open>mutation.rs\<close>.
  \<^item> Inode, FuseTypes, OpenFile, Fuse, and FuseFiles for the properties of file data: \<open>fuse/inode.rs\<close>,
    \<open>error.rs\<close>, \<open>attr.rs\<close>, \<open>open_file.rs\<close>, \<open>mod.rs\<close> and \<open>gateway.rs\<close>.
  \<^item> Hrw: \<open>network/hrw.rs\<close>, the ranking of the peers for a chunk.
  \<^item> Network: \<open>network/protocol.rs\<close> and \<open>event.rs\<close>, and the swarm as the handlers see it.
  \<^item> Fetch and FetchRuns: \<open>network/handlers/chunk.rs\<close>. \<open>fetch_reachable\<close> is the fetcher under any
    sequence of events.
  \<^item> Replication and ReplicationRuns: \<open>network/handlers/replication.rs\<close>. \<open>repl_reachable\<close> is the handler
    under any sequence of events and ticks, with the history of what peers have confirmed.
  \<^item> Node and NodeRuns: \<open>handlers/gossip.rs\<close>, \<open>mdns.rs\<close>, \<open>tree_sync.rs\<close>, \<open>network/dispatcher.rs\<close> and the start
    of \<open>app.rs\<close>. A dispatcher call is one function of the node's state; the properties here span the
    handlers and the file system. The locale \<open>node_handler\<close> is what the dispatcher relies on; all five
    handlers interpret it.
  \<^item> Bridge: \<open>network/network_bridge.rs\<close>, the batching of the mount's operations.
  \<^item> FuseSteps and FuseRuns: the FUSE handlers as tasks with a step between any two \<open>await\<close> points. A request that is
    not interrupted is its handler; one that is ends with a reply of its own kind all the same, but a read can
    lose a chunk to the cache.
  \<^item> Program and ProgramRuns: the whole program of a node, in which the requests of the mount, the bridge and
    the dispatcher take their steps in any order (\<open>program_step\<close>). Every step keeps the file system sound and
    accounts for every operation. The locale \<open>fs_mutation\<close> (theory Mutations) is what the mount relies on; all six
    mutations interpret it. Traffic follows the operations through a dispatcher call.
  \<^item> Cluster, ClusterRuns, ClusterSpec and EndToEnd: any number of programs and a network that loses, delays, repeats and
    reorders what they say (\<open>cluster_reachable\<close>). It implements an abstract specification, in which every node has a
    growing set of operations and shows their replay (\<open>spec_step\<close>, \<open>spec_shows\<close>). Operations are neither forged
    nor lost, nodes with the same operations show the same tree, nodes can always be brought together, and what one
    node writes another reads.
  \<^item> App: \<open>cli.rs\<close>, \<open>fuse/mount.rs\<close> and \<open>app.rs\<close>, the start, the loop and the shutdown.

  \<^bold>\<open>How they interact.\<close> A FUSE handler turns a request into a call of the file system; a mutation returns
  operations, which the bridge batches and the gossip handler publishes. The dispatcher gives every event
  of the swarm, every command and every timeout to the five handlers in turn; those apply operations to
  the tree, serve chunks, cache and pin what was fetched, and evict what others hold. Both sides share the
  file system behind a lock; \<open>fs_reachable\<close> (theory FsReach) is the set of states they can lead it to, and
  NodeRuns shows that the dispatcher stays within it.

  \<^bold>\<open>Parameters.\<close> Code that is not in the repository is an argument of the definitions: the replicated
  tree of \<open>crdt_tree\<close> (\<open>replica_api\<close>), SHA-256 and UUID version 5, the chunker of \<open>fastcdc\<close> with its contract
  \<open>cdc_ok\<close>, the swarm's choice of request ids (\<open>rids_fresh\<close>: never one used before), the encoding of
  peer ids (injective), the codec of \<open>bincode\<close>, whether gossipsub accepts a message to publish, the iteration
  order of hash sets (\<open>order_ok\<close>: each element once), the readings of the clocks, random draws, and the reply buffer of \<open>async_fuser\<close>.

  \<^bold>\<open>Bounds and termination.\<close> No fuel is used. The search for chunks in use ends because there are finitely
  many node ids; the flush of a batch because each round sends at least one operation; a session of the
  fetcher after as many failures as it has chances, which is a theorem. Hypotheses bound sizes where the
  code's 64-bit arithmetic relies on them: a \<open>Vec\<close> is shorter than \<open>2 ^ 63\<close> (\<open>vec_ok\<close>), the bytes to pin are
  addressable (\<open>pin_addressable\<close>), the clock has logical bits left (\<open>fs_can_stamp\<close>).

  \<^bold>\<open>Panics.\<close> A \<open>Vec\<close> of \<open>2 ^ 63\<close> bytes or more cannot be made; the code panics where it asks for one, in
  \<open>read_file\<close> (\<open>CapacityOverflow\<close>) and in the write through a handle (\<open>PANIC\<close>). Both are values of the error types, beside
  the source's own, so that the properties say when they occur. The memory below that is taken as unlimited: that
  the allocator has no more is not modelled.

  \<^bold>\<open>Interleaving.\<close> A step of a program is what happens between two \<open>await\<close> points of one task: a part of a FUSE
  handler, a round of the bridge's task, a call of the dispatcher, a command entering its channel. The locks of the
  code are never held across an \<open>await\<close>. A dispatcher call is one step, although its five handlers take the file
  system's lock one after the other; a request that runs between two of them is not covered. While the loop of
  \<open>app.rs\<close> runs no task drops its end of a channel, so no step closes one.

  \<^bold>\<open>Not modelled.\<close> The construction of the swarm (\<open>behaviour.rs\<close>), which configures \<open>libp2p\<close> only; its result is a
  parameter. The session of \<open>async_fuser\<close>, which turns messages of the kernel into the requests of FuseSteps, and
  the parser of the command line. When and whether the network delivers a message: the properties of a cluster hold
  for every choice, and those of liveness say what a delivery achieves or that a suitable run exists.
\<close>

end
